(* ===== verification/Prelude.thy ===== *)
theory Prelude
  imports Main "HOL-Library.AList" "HOL-Library.Multiset" "HOL-Library.Word"
    "HOL-Library.Sublist" "HOL-Library.Monad_Syntax"
begin

text \<open>
  Shared vocabulary of the development.

  A Go map is an association list with distinct keys (\<open>gomap\<close>): lookups are
  \<^const>\<open>map_of\<close>, \<open>m[k] = v\<close> is \<open>mput\<close>, \<open>delete(m, k)\<close> is \<open>mdel\<close>, \<open>len(m)\<close> is
  \<^const>\<open>length\<close>.  The order of the list stands for the order in which \<open>range\<close> visits the
  map, which Go leaves unspecified; theorems therefore speak about lookups, sets and multisets.

  The collections: \<open>gomap_simps\<close> holds the lookup laws of updated maps, \<open>wf_intros\<close> the
  preservation lemmas of the component invariants.
\<close>

named_theorems gomap_simps "lookup laws of Go maps"
named_theorems wf_intros "operations preserve their component invariant"

section \<open>Go maps\<close>

declare map_of_eq_Some_iff [simp del] Some_eq_map_of_iff [simp del]

type_synonym ('k, 'v) gomap = "('k \<times> 'v) list"

abbreviation wf_gomap :: "('k, 'v) gomap \<Rightarrow> bool" where
  "wf_gomap m \<equiv> distinct (map fst m)"

definition mput :: "('k, 'v) gomap \<Rightarrow> 'k \<Rightarrow> 'v \<Rightarrow> ('k, 'v) gomap" where
  "mput m k v = AList.update k v m"

definition mdel :: "('k, 'v) gomap \<Rightarrow> 'k \<Rightarrow> ('k, 'v) gomap" where
  "mdel m k = AList.delete k m"

lemma map_of_mput [simp, gomap_simps]: "map_of (mput m k v) = (map_of m)(k \<mapsto> v)"
  by (simp add: mput_def AList.update_conv')

lemma map_of_mdel [simp, gomap_simps]: "map_of (mdel m k) = (map_of m)(k := None)"
  by (simp add: mdel_def AList.delete_conv')

lemma wf_mput [simp, wf_intros]: "wf_gomap m \<Longrightarrow> wf_gomap (mput m k v)"
  by (simp add: mput_def AList.distinct_update)

lemma wf_mdel [simp, wf_intros]: "wf_gomap m \<Longrightarrow> wf_gomap (mdel m k)"
  by (simp add: mdel_def AList.distinct_delete)

lemma mput_Nil [simp]: "mput [] k v = [(k, v)]"
  by (simp add: mput_def)

lemma mput_Cons [simp]:
  "mput (p # m) k v = (if fst p = k then (k, v) # m else p # mput m k v)"
  by (simp add: mput_def)

lemma mdel_Nil [simp]: "mdel [] k = []"
  by (simp add: mdel_def)

lemma mdel_Cons [simp]: "mdel (p # m) k = (if fst p = k then mdel m k else p # mdel m k)"
  by (auto simp: mdel_def AList.delete_eq)

lemma mput_not_Nil [simp]: "mput m k v \<noteq> []"
  by (simp add: mput_def)

lemma fst_mput [simp]: "fst ` set (mput m k v) = insert k (fst ` set m)"
  by (simp add: mput_def AList.dom_update)

lemma fst_mdel [simp]: "fst ` set (mdel m k) = fst ` set m - {k}"
  by (force simp: mdel_def AList.delete_eq)

lemma length_mput:
  "wf_gomap m \<Longrightarrow> length (mput m k v) = (if k \<in> fst ` set m then length m else Suc (length m))"
  by (induction m) auto

lemma length_mdel:
  "wf_gomap m \<Longrightarrow> length (mdel m k) = (if k \<in> fst ` set m then length m - 1 else length m)"
proof (induction m)
  case (Cons p m)
  have "k \<in> fst ` set m \<Longrightarrow> 0 < length m" by (cases m) auto
  with Cons show ?case by auto
qed simp

lemma gomap_Nil_iff: "m = [] \<longleftrightarrow> (\<forall>k. map_of m k = None)"
  by (cases m) auto

lemma map_of_Some_iff: "wf_gomap m \<Longrightarrow> map_of m k = Some v \<longleftrightarrow> (k, v) \<in> set m"
  by (rule map_of_eq_Some_iff)

lemma card_gomap: "wf_gomap m \<Longrightarrow> card (dom (map_of m)) = length m"
  using distinct_card[of "map fst m"] by (simp add: dom_map_of_conv_image_fst)

lemma gomap_eqI_mset:
  assumes "wf_gomap m" "wf_gomap m'" "map_of m = map_of m'"
  shows "mset m = mset m'"
proof -
  have "set m = set m'" using assms by (metis map_of_inject_set)
  moreover have "distinct m" "distinct m'" using assms by (simp_all add: distinct_map)
  ultimately show ?thesis by (metis set_eq_iff_mset_eq_distinct)
qed

section \<open>Folds\<close>

lemma find_SomeD: "find P xs = Some x \<Longrightarrow> x \<in> set xs \<and> P x"
  by (induction xs) (auto split: if_splits)

lemma foldl_invariant:
  assumes "P s" "\<And>s x. P s \<Longrightarrow> x \<in> set xs \<Longrightarrow> P (f s x)"
  shows "P (foldl f s xs)"
  using assms by (induction xs arbitrary: s) auto

lemma foldl_mput_map_of:
  "map_of (foldl (\<lambda>m x. mput m (key x) (val x)) m xs) k =
     (case find (\<lambda>x. key x = k) (rev xs) of Some x \<Rightarrow> Some (val x) | None \<Rightarrow> map_of m k)"
proof (induction xs rule: rev_induct)
  case (snoc x xs)
  show ?case using snoc by (simp split: option.splits)
qed simp

lemma foldl_mput_copy:
  assumes "wf_gomap (acc @ m)"
  shows "foldl (\<lambda>r (k, v). mput r k v) acc m = acc @ m"
  using assms
proof (induction m arbitrary: acc)
  case (Cons p m)
  obtain k v where p: "p = (k, v)" by (cases p)
  have "k \<notin> fst ` set acc" using Cons.prems p by auto
  then have "mput acc k v = acc @ [(k, v)]" by (induction acc) auto
  then show ?case using Cons.IH[of "acc @ [(k, v)]"] Cons.prems p by simp
qed simp

section \<open>Machine integers\<close>

text \<open>The value of an \<open>int64\<close> (or \<open>int32\<close>) expression whose mathematical value is \<open>x\<close>.\<close>

definition wrap64 :: "int \<Rightarrow> int" where
  "wrap64 x = sint (word_of_int x :: 64 word)"

definition wrap32 :: "int \<Rightarrow> int" where
  "wrap32 x = sint (word_of_int x :: 32 word)"

lemma wrap64_id: "- (2 ^ 63) \<le> x \<Longrightarrow> x < 2 ^ 63 \<Longrightarrow> wrap64 x = x"
  by (simp add: wrap64_def sint_sbintrunc' signed_take_bit_int_eq_self)

lemma wrap32_id: "- (2 ^ 31) \<le> x \<Longrightarrow> x < 2 ^ 31 \<Longrightarrow> wrap32 x = x"
  by (simp add: wrap32_def sint_sbintrunc' signed_take_bit_int_eq_self)

lemma sint_of_nat_64: "n < 2 ^ 63 \<Longrightarrow> sint (of_nat n :: 64 word) = int n"
proof -
  assume "n < 2 ^ 63"
  then have "int n < 2 ^ 63" by simp
  moreover have "(of_nat n :: 64 word) = word_of_int (int n)" by simp
  ultimately show ?thesis using wrap64_id[of "int n"] by (simp only: wrap64_def)
qed

lemma wrap64_over: "2 ^ 63 \<le> x \<Longrightarrow> x < 2 ^ 64 \<Longrightarrow> wrap64 x = x - 2 ^ 64"
proof -
  assume x: "2 ^ 63 \<le> x" "x < 2 ^ 64"
  have "(word_of_int x :: 64 word) = word_of_int (x - 2 ^ 64)"
    by (simp add: word_of_int_eq_iff take_bit_eq_mod)
  then have "wrap64 x = wrap64 (x - 2 ^ 64)" unfolding wrap64_def by (rule arg_cong)
  then show ?thesis using x by (simp add: wrap64_id)
qed

section \<open>Bounded channels\<close>

text \<open>
  A buffered Go channel is the list of the queued values.  \<open>chan_try_send\<close> is the send of a
  \<open>select\<close> with a \<open>default\<close> branch: it fails on a full channel, where the code drops the value
  or reports an error.
\<close>

definition chan_try_send :: "nat \<Rightarrow> 'a list \<Rightarrow> 'a \<Rightarrow> 'a list option" where
  "chan_try_send cap ch x = (if length ch < cap then Some (ch @ [x]) else None)"

lemma chan_try_send_cap:
  "chan_try_send cap ch x = Some ch' \<Longrightarrow> length ch' \<le> cap"
  by (auto simp: chan_try_send_def split: if_splits)

section \<open>JSON values\<close>

text \<open>What a Go \<open>interface{}\<close> holds when it comes from a JSON document.\<close>

datatype json =
    JNull
  | JBool bool
  | JNum int
  | JStr string
  | JArr "json list"
  | JObj "(string \<times> json) list"

end
