(* ===== verification/SafeMap.thy ===== *)
theory SafeMap
  imports Prelude
begin

text \<open>
  The two-level map of \<open>server/service_discovery/common/safemap/sm.go\<close>.  Every method takes the
  mutex for its whole body, so one call is one atomic function on the record.  A \<open>nil\<close> result of
  \<open>HGet\<close> or \<open>Get\<close> is \<^const>\<open>None\<close>.

  The locale \<open>two_level_map\<close> is the contract the clients (cluster membership, endpoint registry)
  rely on; it is interpreted on the operations below as \<open>smap\<close>.
\<close>

section \<open>The operations\<close>

record 'v SafeMap =
  sm_name :: string
  dataMap :: "(string, (string, 'v) gomap) gomap"

definition NewSafeMap :: "string \<Rightarrow> 'v SafeMap" where
  "NewSafeMap nm = \<lparr>sm_name = nm, dataMap = []\<rparr>"

definition HSet :: "'v SafeMap \<Rightarrow> string \<Rightarrow> string \<Rightarrow> 'v \<Rightarrow> 'v SafeMap" where
  "HSet sm key subKey v =
     (case map_of (dataMap sm) key of
        Some inner \<Rightarrow> sm\<lparr>dataMap := mput (dataMap sm) key (mput inner subKey v)\<rparr>
      | None \<Rightarrow> sm\<lparr>dataMap := mput (dataMap sm) key (mput [] subKey v)\<rparr>)"

definition HGet :: "'v SafeMap \<Rightarrow> string \<Rightarrow> string \<Rightarrow> 'v option" where
  "HGet sm key subKey =
     (case map_of (dataMap sm) key of
        Some inner \<Rightarrow> (case map_of inner subKey of Some v \<Rightarrow> Some v | None \<Rightarrow> None)
      | None \<Rightarrow> None)"

definition HDel :: "'v SafeMap \<Rightarrow> string \<Rightarrow> string \<Rightarrow> 'v SafeMap" where
  "HDel sm key subKey =
     (case map_of (dataMap sm) key of
        Some inner \<Rightarrow>
          (case map_of inner subKey of
             Some v \<Rightarrow>
               (let inner' = mdel inner subKey;
                    d' = mput (dataMap sm) key inner'
                in if length inner' = 0 then sm\<lparr>dataMap := mdel d' key\<rparr>
                   else sm\<lparr>dataMap := d'\<rparr>)
           | None \<Rightarrow> sm)
      | None \<Rightarrow> sm)"

definition sm_Del :: "'v SafeMap \<Rightarrow> string \<Rightarrow> 'v SafeMap" where
  "sm_Del sm key = sm\<lparr>dataMap := mdel (dataMap sm) key\<rparr>"

definition sm_Get :: "'v SafeMap \<Rightarrow> string \<Rightarrow> (string, 'v) gomap option" where
  "sm_Get sm key =
     (case map_of (dataMap sm) key of
        Some inner \<Rightarrow> Some (foldl (\<lambda>r (k, v). mput r k v) [] inner)
      | None \<Rightarrow> None)"

definition sm_Keys :: "'v SafeMap \<Rightarrow> string list" where
  "sm_Keys sm = foldl (\<lambda>r (k, inner). r @ [k]) [] (dataMap sm)"

definition HKeys :: "'v SafeMap \<Rightarrow> string \<Rightarrow> string list" where
  "HKeys sm key =
     (case map_of (dataMap sm) key of
        Some inner \<Rightarrow> foldl (\<lambda>r (k, v). r @ [k]) [] inner
      | None \<Rightarrow> [])"

definition sm_Len :: "'v SafeMap \<Rightarrow> nat" where
  "sm_Len sm = length (dataMap sm)"

definition HLen :: "'v SafeMap \<Rightarrow> string \<Rightarrow> nat" where
  "HLen sm key = (case map_of (dataMap sm) key of Some inner \<Rightarrow> length inner | None \<Rightarrow> 0)"

section \<open>The contract\<close>

text \<open>
  \<open>lookup\<close> determines the content: \<open>keys\<close>, \<open>hkeys\<close> and \<open>getall\<close> enumerate it without
  duplicates, and a key is listed exactly when some field of it is set.
\<close>

locale two_level_map =
  fixes inv :: "'m \<Rightarrow> bool"
    and lookup :: "'m \<Rightarrow> string \<Rightarrow> string \<Rightarrow> 'v option"
    and hput :: "'m \<Rightarrow> string \<Rightarrow> string \<Rightarrow> 'v \<Rightarrow> 'm"
    and hrem :: "'m \<Rightarrow> string \<Rightarrow> string \<Rightarrow> 'm"
    and remkey :: "'m \<Rightarrow> string \<Rightarrow> 'm"
    and getall :: "'m \<Rightarrow> string \<Rightarrow> (string, 'v) gomap option"
    and keys :: "'m \<Rightarrow> string list"
    and hkeys :: "'m \<Rightarrow> string \<Rightarrow> string list"
  assumes inv_hput: "inv m \<Longrightarrow> inv (hput m k s v)"
    and inv_hrem: "inv m \<Longrightarrow> inv (hrem m k s)"
    and inv_remkey: "inv m \<Longrightarrow> inv (remkey m k)"
    and lookup_hput: "lookup (hput m k s v) k' s' = (if k' = k \<and> s' = s then Some v else lookup m k' s')"
    and lookup_hrem: "lookup (hrem m k s) k' s' = (if k' = k \<and> s' = s then None else lookup m k' s')"
    and lookup_remkey: "lookup (remkey m k) k' s' = (if k' = k then None else lookup m k' s')"
    and getall_Some: "inv m \<Longrightarrow> getall m k = Some r \<Longrightarrow> wf_gomap r \<and> r \<noteq> [] \<and> map_of r = lookup m k"
    and getall_None: "inv m \<Longrightarrow> getall m k = None \<longleftrightarrow> (\<forall>s. lookup m k s = None)"
    and keys_iff: "inv m \<Longrightarrow> distinct (keys m) \<and> (k \<in> set (keys m) \<longleftrightarrow> (\<exists>s v. lookup m k s = Some v))"
    and hkeys_iff: "inv m \<Longrightarrow> distinct (hkeys m k) \<and> (s \<in> set (hkeys m k) \<longleftrightarrow> (\<exists>v. lookup m k s = Some v))"
begin

lemma inv_foldl_hput: "inv m \<Longrightarrow> inv (foldl (\<lambda>m x. hput m (fk x) (fs x) (fv x)) m xs)"
  by (induction xs arbitrary: m) (auto simp: inv_hput)

text \<open>Writing the elements of a list one after the other: the last writer of a field wins.\<close>

lemma lookup_foldl_hput:
  "lookup (foldl (\<lambda>m x. hput m (fk x) (fs x) (fv x)) m xs) k s =
     (case find (\<lambda>x. fk x = k \<and> fs x = s) (rev xs) of
        Some x \<Rightarrow> Some (fv x) | None \<Rightarrow> lookup m k s)"
proof (induction xs rule: rev_induct)
  case (snoc x xs)
  show ?case using snoc by (auto simp: lookup_hput split: option.splits)
qed simp

text \<open>Replacing the whole content of one key, as a membership refresh does.\<close>

lemma hkeys_reload:
  assumes "inv m"
  shows "set (hkeys (foldl (\<lambda>m h. hput m c h v) (remkey m c) hs) c) = set hs"
proof -
  let ?m = "foldl (\<lambda>m h. hput m c h v) (remkey m c) hs"
  have "inv ?m" using assms inv_remkey inv_foldl_hput[of _ "\<lambda>_. c" "\<lambda>h. h" "\<lambda>_. v"] by simp
  moreover have "lookup ?m c s = (if s \<in> set hs then Some v else None)" for s
    using lookup_foldl_hput[of "\<lambda>_. c" "\<lambda>h. h" "\<lambda>_. v" "remkey m c" hs c s]
    by (auto simp: lookup_remkey find_None_iff dest: find_SomeD split: option.splits)
  ultimately show ?thesis by (auto simp: hkeys_iff split: if_splits)
qed

lemma hkeys_reload_other:
  assumes "inv m" "k \<noteq> c"
  shows "set (hkeys (foldl (\<lambda>m h. hput m c h v) (remkey m c) hs) k) = set (hkeys m k)"
proof -
  let ?m = "foldl (\<lambda>m h. hput m c h v) (remkey m c) hs"
  have "inv ?m" using assms inv_remkey inv_foldl_hput[of _ "\<lambda>_. c" "\<lambda>h. h" "\<lambda>_. v"] by simp
  moreover have "lookup ?m k s = lookup m k s" for s
    using lookup_foldl_hput[of "\<lambda>_. c" "\<lambda>h. h" "\<lambda>_. v" "remkey m c" hs k s] assms
    by (auto simp: lookup_remkey dest: find_SomeD split: option.splits)
  ultimately show ?thesis using hkeys_iff[of ?m k] hkeys_iff[of m k] assms(1) by (simp add: set_eq_iff)
qed

end

section \<open>The operations meet the contract\<close>

text \<open>Well-formed: no duplicate keys on either level, and no key with an empty inner map.\<close>

definition wf_SafeMap :: "'v SafeMap \<Rightarrow> bool" where
  "wf_SafeMap sm \<longleftrightarrow> wf_gomap (dataMap sm) \<and>
     (\<forall>inner \<in> snd ` set (dataMap sm). wf_gomap inner \<and> inner \<noteq> [])"

lemma wf_SafeMap_alt:
  "wf_SafeMap sm \<longleftrightarrow> wf_gomap (dataMap sm) \<and>
     (\<forall>k inner. map_of (dataMap sm) k = Some inner \<longrightarrow> wf_gomap inner \<and> inner \<noteq> [])"
  unfolding wf_SafeMap_def by (rule conj_cong[OF refl]) (auto simp: map_of_Some_iff)

lemma wf_NewSafeMap [simp]: "wf_SafeMap (NewSafeMap nm)"
  by (simp add: wf_SafeMap_def NewSafeMap_def)

lemma HGet_NewSafeMap [simp]: "HGet (NewSafeMap nm) k s = None"
  by (simp add: HGet_def NewSafeMap_def)

lemma HGet_conv: "HGet sm k s = Option.bind (map_of (dataMap sm) k) (\<lambda>inner. map_of inner s)"
  by (auto simp: HGet_def split: option.splits)

lemma wf_HSet: "wf_SafeMap sm \<Longrightarrow> wf_SafeMap (HSet sm k s v)"
  by (auto simp: wf_SafeMap_alt HSet_def split: option.splits if_splits)

lemma wf_HDel: "wf_SafeMap sm \<Longrightarrow> wf_SafeMap (HDel sm k s)"
  by (auto simp: wf_SafeMap_alt HDel_def Let_def split: option.splits if_splits)

lemma wf_Del: "wf_SafeMap sm \<Longrightarrow> wf_SafeMap (sm_Del sm k)"
  by (auto simp: wf_SafeMap_alt sm_Del_def split: if_splits)

lemma HGet_HSet:
  "HGet (HSet sm k s v) k' s' = (if k' = k \<and> s' = s then Some v else HGet sm k' s')"
  by (auto simp: HGet_conv HSet_def split: option.splits)

lemma HGet_HDel:
  "HGet (HDel sm k s) k' s' = (if k' = k \<and> s' = s then None else HGet sm k' s')"
proof (cases "map_of (dataMap sm) k")
  case None
  then show ?thesis by (auto simp: HGet_conv HDel_def)
next
  case (Some inner)
  have "mdel inner s = [] \<Longrightarrow> s' \<noteq> s \<Longrightarrow> map_of inner s' = None"
    using map_of_mdel[of inner s] by (metis fun_upd_other map_of.simps(1))
  with Some show ?thesis by (auto simp: HGet_conv HDel_def Let_def split: option.splits)
qed

lemma HGet_Del: "HGet (sm_Del sm k) k' s' = (if k' = k then None else HGet sm k' s')"
  by (auto simp: HGet_conv sm_Del_def)

lemma foldl_snoc_fst: "foldl (\<lambda>r (k, v). r @ [k]) acc xs = acc @ map fst xs"
  by (induction xs arbitrary: acc) auto

lemma sm_Get_conv: "wf_SafeMap sm \<Longrightarrow> sm_Get sm k = map_of (dataMap sm) k"
  by (auto simp: sm_Get_def wf_SafeMap_alt foldl_mput_copy split: option.splits)

lemma sm_Keys_conv: "sm_Keys sm = map fst (dataMap sm)"
  by (simp add: sm_Keys_def foldl_snoc_fst)

lemma HKeys_conv:
  "HKeys sm k = (case map_of (dataMap sm) k of Some inner \<Rightarrow> map fst inner | None \<Rightarrow> [])"
  by (simp add: HKeys_def foldl_snoc_fst split: option.splits)

lemma Keys_iff:
  assumes "wf_SafeMap sm"
  shows "distinct (sm_Keys sm) \<and> (k \<in> set (sm_Keys sm) \<longleftrightarrow> (\<exists>s v. HGet sm k s = Some v))"
proof -
  have "inner \<noteq> [] \<Longrightarrow> \<exists>s v. map_of inner s = Some v" for inner :: "(string, 'a) gomap"
    by (cases inner) auto
  moreover have "k \<in> fst ` set (dataMap sm) \<longleftrightarrow> (\<exists>inner. map_of (dataMap sm) k = Some inner)"
    by (metis map_of_eq_None_iff not_None_eq)
  ultimately have "k \<in> fst ` set (dataMap sm) \<longleftrightarrow> (\<exists>s v. HGet sm k s = Some v)"
    using assms unfolding wf_SafeMap_alt HGet_conv bind_eq_Some_conv by metis
  with assms show ?thesis by (simp add: sm_Keys_conv wf_SafeMap_alt)
qed

lemma HKeys_iff:
  assumes "wf_SafeMap sm"
  shows "distinct (HKeys sm k) \<and> (s \<in> set (HKeys sm k) \<longleftrightarrow> (\<exists>v. HGet sm k s = Some v))"
proof (cases "map_of (dataMap sm) k")
  case (Some inner)
  have "s \<in> fst ` set inner \<longleftrightarrow> (\<exists>v. map_of inner s = Some v)"
    by (metis map_of_eq_None_iff not_None_eq)
  with Some assms show ?thesis by (auto simp: HKeys_conv HGet_conv wf_SafeMap_alt)
qed (simp add: HKeys_conv HGet_conv)

lemma Get_None:
  assumes "wf_SafeMap sm"
  shows "sm_Get sm k = None \<longleftrightarrow> (\<forall>s. HGet sm k s = None)"
proof (cases "map_of (dataMap sm) k")
  case None
  then show ?thesis by (simp add: sm_Get_conv[OF assms] HGet_conv)
next
  case (Some inner)
  then have "inner \<noteq> []" using assms by (auto simp: wf_SafeMap_alt)
  then have "\<exists>s. map_of inner s \<noteq> None" using gomap_Nil_iff by blast
  then show ?thesis by (simp add: sm_Get_conv[OF assms] HGet_conv Some)
qed

lemma Get_Some:
  "wf_SafeMap sm \<Longrightarrow> sm_Get sm k = Some r \<Longrightarrow> wf_gomap r \<and> r \<noteq> [] \<and> map_of r = HGet sm k"
  by (simp add: sm_Get_conv HGet_conv fun_eq_iff) (simp add: wf_SafeMap_alt)

interpretation smap: two_level_map wf_SafeMap HGet HSet HDel sm_Del sm_Get sm_Keys HKeys
proof (unfold_locales, goal_cases)
  case 1 then show ?case by (rule wf_HSet)
next
  case 2 then show ?case by (rule wf_HDel)
next
  case 3 then show ?case by (rule wf_Del)
next
  case 4 show ?case by (rule HGet_HSet)
next
  case 5 show ?case by (rule HGet_HDel)
next
  case 6 show ?case by (rule HGet_Del)
next
  case 7 then show ?case by (rule Get_Some)
next
  case 8 then show ?case by (rule Get_None)
next
  case 9 then show ?case by (rule Keys_iff)
next
  case 10 then show ?case by (rule HKeys_iff)
qed

lemmas HGet_simps [gomap_simps] = HGet_HSet HGet_HDel HGet_Del
lemmas wf_SafeMap_ops [wf_intros] = wf_HSet wf_HDel wf_Del wf_NewSafeMap

lemma HLen_conv: "HLen sm k = length (HKeys sm k)"
  by (simp add: HLen_def HKeys_conv split: option.splits)

lemma HLen_card: "wf_SafeMap sm \<Longrightarrow> HLen sm k = card {s. HGet sm k s \<noteq> None}"
proof -
  assume wf: "wf_SafeMap sm"
  have "set (HKeys sm k) = {s. HGet sm k s \<noteq> None}" using HKeys_iff[OF wf] by auto
  with HKeys_iff[OF wf] show ?thesis by (metis HLen_conv distinct_card)
qed

lemma Len_card: "wf_SafeMap sm \<Longrightarrow> sm_Len sm = card {k. \<exists>s. HGet sm k s \<noteq> None}"
proof -
  assume wf: "wf_SafeMap sm"
  have "set (sm_Keys sm) = {k. \<exists>s. HGet sm k s \<noteq> None}" using Keys_iff[OF wf] by auto
  moreover have "sm_Len sm = length (sm_Keys sm)" by (simp add: sm_Len_def sm_Keys_conv)
  ultimately show ?thesis using Keys_iff[OF wf] by (metis distinct_card)
qed

section \<open>Sequences of calls\<close>

text \<open>
  The calls that change the map, and an abstract machine that runs the same calls on a plain
  function of two arguments.
\<close>

datatype 'v map_call = CallHSet string string 'v | CallHDel string string | CallDel string

fun map_exec :: "'v SafeMap \<Rightarrow> 'v map_call \<Rightarrow> 'v SafeMap" where
  "map_exec sm (CallHSet k s v) = HSet sm k s v"
| "map_exec sm (CallHDel k s) = HDel sm k s"
| "map_exec sm (CallDel k) = sm_Del sm k"

fun abs_exec :: "(string \<Rightarrow> string \<Rightarrow> 'v option) \<Rightarrow> 'v map_call \<Rightarrow> (string \<Rightarrow> string \<Rightarrow> 'v option)" where
  "abs_exec f (CallHSet k s v) = f(k := (f k)(s := Some v))"
| "abs_exec f (CallHDel k s) = f(k := (f k)(s := None))"
| "abs_exec f (CallDel k) = f(k := (\<lambda>_. None))"

lemma map_exec_refines: "HGet (map_exec sm c) = abs_exec (HGet sm) c"
  by (cases c) (auto simp: fun_eq_iff gomap_simps)

lemma map_exec_wf: "wf_SafeMap sm \<Longrightarrow> wf_SafeMap (map_exec sm c)"
  by (cases c) (auto intro: wf_intros)

lemma foldl_map_exec:
  "wf_SafeMap sm \<Longrightarrow>
     wf_SafeMap (foldl map_exec sm cs) \<and> HGet (foldl map_exec sm cs) = foldl abs_exec (HGet sm) cs"
  by (induction cs arbitrary: sm) (auto simp: map_exec_wf map_exec_refines)

lemma observers_agree:
  assumes "wf_SafeMap sm"
  shows "map_option map_of (sm_Get sm k) = (if \<exists>s. HGet sm k s \<noteq> None then Some (HGet sm k) else None)"
    and "set (sm_Keys sm) = {k. \<exists>s. HGet sm k s \<noteq> None}"
    and "set (HKeys sm k) = {s. HGet sm k s \<noteq> None}"
    and "sm_Len sm = card {k. \<exists>s. HGet sm k s \<noteq> None}"
    and "HLen sm k = card {s. HGet sm k s \<noteq> None}"
proof -
  show "map_option map_of (sm_Get sm k) = (if \<exists>s. HGet sm k s \<noteq> None then Some (HGet sm k) else None)"
    using smap.getall_Some[OF assms, of k] Get_None[OF assms, of k] by (cases "sm_Get sm k") auto
qed (use Keys_iff[OF assms] HKeys_iff[OF assms] Len_card[OF assms] HLen_card[OF assms] in auto)

text \<open>
  C1. Whatever sequence of HSet, HDel and Del calls is made on a new SafeMap, the map stays
  well-formed and every observer agrees with the plain two-argument function that the calls
  describe: HGet returns the last value written and not deleted, Get, Keys and HKeys enumerate
  exactly the live entries, and Len and HLen are their numbers; in particular no key is left with
  an empty inner map.
\<close>

theorem SafeMap_refines:
  "let sm = foldl map_exec (NewSafeMap nm) cs; f = foldl abs_exec (\<lambda>_ _. None) cs
   in wf_SafeMap sm \<and> HGet sm = f
    \<and> (\<forall>k. map_option map_of (sm_Get sm k) = (if \<exists>s. f k s \<noteq> None then Some (f k) else None))
    \<and> set (sm_Keys sm) = {k. \<exists>s. f k s \<noteq> None} \<and> sm_Len sm = card {k. \<exists>s. f k s \<noteq> None}
    \<and> (\<forall>k. set (HKeys sm k) = {s. f k s \<noteq> None} \<and> HLen sm k = card {s. f k s \<noteq> None})"
proof -
  have "HGet (NewSafeMap nm :: 'a SafeMap) = (\<lambda>_ _. None)" by (simp add: fun_eq_iff)
  then have "wf_SafeMap (foldl map_exec (NewSafeMap nm) cs)"
    "HGet (foldl map_exec (NewSafeMap nm) cs) = foldl abs_exec (\<lambda>_ _. None) cs"
    using foldl_map_exec[of "NewSafeMap nm :: 'a SafeMap" cs] by auto
  then show ?thesis unfolding Let_def by (simp add: observers_agree)
qed

end
