(* ===== verification/GoStrings.thy ===== *)
theory GoStrings
  imports Prelude
begin

text \<open>
  The functions of Go's \<open>strings\<close> and \<open>strconv\<close> packages that the program calls.  A Go string is
  its list of bytes (\<^typ>\<open>string\<close>); white space and letter case are those of ASCII.
  Decimal conversion is proved inverse to parsing on the range of a 64-bit integer.
\<close>

section \<open>Searching and splitting\<close>

definition HasPrefix :: "string \<Rightarrow> string \<Rightarrow> bool" where
  "HasPrefix s p \<longleftrightarrow> take (length p) s = p"

definition HasSuffix :: "string \<Rightarrow> string \<Rightarrow> bool" where
  "HasSuffix s p \<longleftrightarrow> length p \<le> length s \<and> drop (length s - length p) s = p"

fun Cut :: "string \<Rightarrow> string \<Rightarrow> (string \<times> string) option" where
  "Cut [] sep = (if sep = [] then Some ([], []) else None)"
| "Cut (c # cs) sep =
     (if HasPrefix (c # cs) sep then Some ([], drop (length sep) (c # cs))
      else map_option (\<lambda>(a, b). (c # a, b)) (Cut cs sep))"

definition Contains :: "string \<Rightarrow> string \<Rightarrow> bool" where
  "Contains s sub \<longleftrightarrow> Cut s sub \<noteq> None"

lemma Cut_Some: "Cut s sep = Some (a, b) \<Longrightarrow> s = a @ sep @ b"
proof (induction s arbitrary: a)
  case (Cons c cs)
  show ?case
  proof (cases "HasPrefix (c # cs) sep")
    case True
    then show ?thesis using Cons.prems append_take_drop_id[of "length sep" "c # cs"]
      by (simp add: HasPrefix_def)
  next
    case False
    then show ?thesis using Cons by auto
  qed
qed (simp split: if_splits)

lemma Cut_length: "Cut s sep = Some (a, b) \<Longrightarrow> sep \<noteq> [] \<Longrightarrow> length b < length s"
  using Cut_Some[of s sep a b] by (cases sep) auto

text \<open>\<open>SplitN\<close> with a negative limit is \<open>Split\<close>: the limit counts the pieces still allowed.\<close>

function Split :: "string \<Rightarrow> string \<Rightarrow> string list" where
  "Split s sep =
     (if sep = [] then map (\<lambda>c. [c]) s
      else (case Cut s sep of None \<Rightarrow> [s] | Some (a, b) \<Rightarrow> a # Split b sep))"
  by pat_completeness auto
termination by (relation "measure (\<lambda>(s, sep). length s)") (auto dest: Cut_length)

declare Split.simps [simp del]

fun SplitN :: "string \<Rightarrow> string \<Rightarrow> nat \<Rightarrow> string list" where
  "SplitN s sep 0 = []"
| "SplitN s sep (Suc 0) = [s]"
| "SplitN s sep (Suc n) =
     (case Cut s sep of None \<Rightarrow> [s] | Some (a, b) \<Rightarrow> a # SplitN b sep n)"

fun Join :: "string list \<Rightarrow> string \<Rightarrow> string" where
  "Join [] sep = []"
| "Join [x] sep = x"
| "Join (x # y # ys) sep = x @ sep @ Join (y # ys) sep"

lemma Join_Cons: "xs \<noteq> [] \<Longrightarrow> Join (x # xs) sep = x @ sep @ Join xs sep"
  by (cases xs) auto

lemma Split_not_Nil: "sep \<noteq> [] \<Longrightarrow> Split s sep \<noteq> []"
  by (subst Split.simps) (auto split: option.splits)

lemma Join_Split: "sep \<noteq> [] \<Longrightarrow> Join (Split s sep) sep = s"
proof (induction s sep rule: Split.induct)
  case (1 s sep)
  show ?case
  proof (cases "Cut s sep")
    case None
    then show ?thesis using 1 by (subst Split.simps) simp
  next
    case (Some p)
    obtain a b where p: "p = (a, b)" by (cases p)
    have "Split s sep = a # Split b sep" using Some p 1(2) by (subst Split.simps) simp
    then show ?thesis using 1 Some p Cut_Some[of s sep a b] Split_not_Nil[of sep b]
      by (simp add: Join_Cons)
  qed
qed

section \<open>White space\<close>

definition is_space :: "char \<Rightarrow> bool" where
  "is_space c \<longleftrightarrow> c \<in> {CHR 0x09, CHR 0x0A, CHR 0x0B, CHR 0x0C, CHR 0x0D, CHR 0x20}"

definition TrimLeftSpace :: "string \<Rightarrow> string" where
  "TrimLeftSpace s = dropWhile is_space s"

definition TrimSpace :: "string \<Rightarrow> string" where
  "TrimSpace s = rev (dropWhile is_space (rev (dropWhile is_space s)))"

function Fields :: "string \<Rightarrow> string list" where
  "Fields s =
     (let t = dropWhile is_space s
      in if t = [] then []
         else takeWhile (\<lambda>c. \<not> is_space c) t # Fields (dropWhile (\<lambda>c. \<not> is_space c) t))"
  by pat_completeness auto
termination
proof (relation "measure length", goal_cases)
  case (2 s t)
  then have "t \<noteq> []" "\<not> is_space (hd t)" using hd_dropWhile[of is_space s] by auto
  then have "length (dropWhile (\<lambda>c. \<not> is_space c) t) < length t"
    by (cases t) (auto simp: length_dropWhile_le le_imp_less_Suc)
  also have "length t \<le> length s" using 2 by (simp add: length_dropWhile_le)
  finally show ?case by simp
qed simp

declare Fields.simps [simp del]

lemma TrimSpace_ends:
  "TrimSpace s \<noteq> [] \<Longrightarrow> \<not> is_space (hd (TrimSpace s)) \<and> \<not> is_space (last (TrimSpace s))"
proof -
  assume ne: "TrimSpace s \<noteq> []"
  let ?t = "dropWhile is_space s" and ?r = "dropWhile is_space (rev (dropWhile is_space s))"
  have l: "\<not> is_space (last (TrimSpace s))"
    using ne hd_dropWhile[of is_space "rev ?t"] by (simp add: TrimSpace_def last_rev)
  have "\<exists>zs. rev ?t = zs @ ?r" by (metis takeWhile_dropWhile_id)
  then obtain zs where "rev ?t = zs @ ?r" ..
  then have "?t = rev ?r @ rev zs" by (metis rev_append rev_rev_ident)
  moreover have "rev ?r \<noteq> []" using ne unfolding TrimSpace_def .
  ultimately have "hd (TrimSpace s) = hd ?t" "?t \<noteq> []"
    unfolding TrimSpace_def by (metis hd_append2, metis append_is_Nil_conv)
  then show ?thesis using l hd_dropWhile[of is_space s] by simp
qed

definition to_lower :: "char \<Rightarrow> char" where
  "to_lower c = (let n = of_char c :: nat in if 65 \<le> n \<and> n \<le> 90 then char_of (n + 32) else c)"

definition ToLower :: "string \<Rightarrow> string" where
  "ToLower s = map to_lower s"

section \<open>Decimal numbers\<close>

definition digit_char :: "nat \<Rightarrow> char" where
  "digit_char d = char_of (48 + d)"

definition is_digit :: "char \<Rightarrow> bool" where
  "is_digit c \<longleftrightarrow> 48 \<le> (of_char c :: nat) \<and> (of_char c :: nat) \<le> 57"

definition digit_val :: "char \<Rightarrow> nat" where
  "digit_val c = of_char c - 48"

fun nat_digits :: "nat \<Rightarrow> string" where
  "nat_digits n = (if n < 10 then [digit_char n] else nat_digits (n div 10) @ [digit_char (n mod 10)])"

declare nat_digits.simps [simp del]

definition Itoa :: "int \<Rightarrow> string" where
  "Itoa i = (if i < 0 then CHR ''-'' # nat_digits (nat (- i)) else nat_digits (nat i))"

datatype num_error = ErrSyntax | ErrRange

text \<open>
  \<open>ParseUint(s, 10, 64)\<close> reads from left to right: an overflow is reported before a later
  character that is not a digit is looked at.
\<close>

fun ParseUint_loop :: "nat \<Rightarrow> string \<Rightarrow> num_error + nat" where
  "ParseUint_loop n [] = Inr n"
| "ParseUint_loop n (c # cs) =
     (if \<not> is_digit c then Inl ErrSyntax
      else if n \<ge> 2 ^ 64 div 10 + 1 then Inl ErrRange
      else if n * 10 + digit_val c \<ge> 2 ^ 64 then Inl ErrRange
      else ParseUint_loop (n * 10 + digit_val c) cs)"

definition ParseUint :: "string \<Rightarrow> num_error + nat" where
  "ParseUint s = (if s = [] then Inl ErrSyntax else ParseUint_loop 0 s)"

text \<open>
  \<open>strconv.ParseInt(s, 10, 64)\<close> (and \<open>Atoi\<close> on a 64-bit machine): the value and the error.  A
  syntax error comes with 0, a range error with the nearest bound.
\<close>

definition ParseInt :: "string \<Rightarrow> int \<times> num_error option" where
  "ParseInt s =
     (if s = [] then (0, Some ErrSyntax)
      else
        let neg = (hd s = CHR ''-'');
            body = (if hd s = CHR ''+'' \<or> hd s = CHR ''-'' then tl s else s)
        in case ParseUint body of
             Inl ErrSyntax \<Rightarrow> (0, Some ErrSyntax)
           | Inl ErrRange \<Rightarrow> (if neg then - (2 ^ 63) else 2 ^ 63 - 1, Some ErrRange)
           | Inr un \<Rightarrow>
               if \<not> neg \<and> un \<ge> 2 ^ 63 then (2 ^ 63 - 1, Some ErrRange)
               else if neg \<and> un > 2 ^ 63 then (- (2 ^ 63), Some ErrRange)
               else (if neg then - int un else int un, None))"

text \<open>The text of a \<open>NumError\<close>; quotes and backslashes are escaped, other characters kept.\<close>

definition Quote :: "string \<Rightarrow> string" where
  "Quote s = [CHR 0x22] @ concat (map (\<lambda>c. if c = CHR 0x22 \<or> c = CHR 0x5C then [CHR 0x5C, c] else [c]) s) @ [CHR 0x22]"

fun ParseInt_Error :: "string \<Rightarrow> num_error \<Rightarrow> string" where
  "ParseInt_Error s ErrSyntax = ''strconv.ParseInt: parsing '' @ Quote s @ '': invalid syntax''"
| "ParseInt_Error s ErrRange = ''strconv.ParseInt: parsing '' @ Quote s @ '': value out of range''"

abbreviation Atoi :: "string \<Rightarrow> int \<times> num_error option" where
  "Atoi \<equiv> ParseInt"

lemma ParseInt_range: "- (2 ^ 63) \<le> fst (ParseInt s) \<and> fst (ParseInt s) < 2 ^ 63"
  by (auto simp: ParseInt_def Let_def split: sum.splits num_error.splits)

lemma of_char_digit_char: "d < 10 \<Longrightarrow> (of_char (digit_char d) :: nat) = 48 + d"
  by (simp add: digit_char_def)

lemma digit_val_char [simp]: "d < 10 \<Longrightarrow> digit_val (digit_char d) = d"
  by (simp add: digit_val_def of_char_digit_char)

lemma is_digit_char [simp]: "d < 10 \<Longrightarrow> is_digit (digit_char d)"
  by (simp add: is_digit_def of_char_digit_char)

lemma nat_digits_not_Nil [simp]: "nat_digits n \<noteq> []" "[] \<noteq> nat_digits n"
  by (subst nat_digits.simps, simp)+

lemma nat_digits_all: "list_all is_digit (nat_digits n)"
  by (induction n rule: nat_digits.induct) (subst nat_digits.simps, simp)

lemma is_digit_neq: "is_digit c \<Longrightarrow> c \<noteq> CHR ''-'' \<and> c \<noteq> CHR ''+'' \<and> c \<noteq> CHR '':''"
  by (auto simp: is_digit_def)

lemma ParseUint_loop_append:
  "ParseUint_loop n (s @ t) =
     (case ParseUint_loop n s of Inl e \<Rightarrow> Inl e | Inr m \<Rightarrow> ParseUint_loop m t)"
  by (induction s arbitrary: n) (auto split: sum.splits)

lemma ParseUint_loop_digits: "n < 2 ^ 64 \<Longrightarrow> ParseUint_loop 0 (nat_digits n) = Inr n"
proof (induction n rule: nat_digits.induct)
  case (1 n)
  show ?case
  proof (cases "n < 10")
    case True
    then show ?thesis by (subst nat_digits.simps) simp
  next
    case False
    have "n div 10 * 10 + n mod 10 = n" by simp
    moreover have "n div 10 < 2 ^ 64 div 10 + 1" using 1(2) by simp
    moreover have "n div 10 < 2 ^ 64" using 1(2) by simp
    ultimately show ?thesis using 1 False
      by (subst nat_digits.simps) (simp add: ParseUint_loop_append)
  qed
qed

lemma ParseInt_Itoa:
  assumes "- (2 ^ 63) \<le> i" "i < 2 ^ 63"
  shows "ParseInt (Itoa i) = (i, None)"
proof (cases "i < 0")
  case True
  have "ParseUint (nat_digits (nat (- i))) = Inr (nat (- i))"
    using assms ParseUint_loop_digits[of "nat (- i)"] by (simp add: ParseUint_def)
  then show ?thesis using True assms by (simp add: ParseInt_def Itoa_def)
next
  case False
  have "is_digit (hd (nat_digits (nat i)))"
    using nat_digits_all[of "nat i"] by (cases "nat_digits (nat i)") auto
  moreover have "ParseUint (nat_digits (nat i)) = Inr (nat i)"
    using assms False ParseUint_loop_digits[of "nat i"] by (simp add: ParseUint_def)
  ultimately show ?thesis using False assms by (auto simp: ParseInt_def Itoa_def dest: is_digit_neq)
qed

lemma nat_digits_inject: "nat_digits m = nat_digits n \<longleftrightarrow> m = n"
proof (induction m arbitrary: n rule: nat_digits.induct)
  case (1 m)
  have dc: "digit_char a = digit_char b \<longleftrightarrow> a = b" if "a < 10" "b < 10" for a b
    using that digit_val_char by metis
  show ?case
  proof
    assume eq: "nat_digits m = nat_digits n"
    show "m = n"
    proof (cases "m < 10"; cases "n < 10")
      assume "m < 10" "n < 10"
      then show ?thesis using eq by (simp add: nat_digits.simps[of m] nat_digits.simps[of n] dc)
    next
      assume "m < 10" "\<not> n < 10"
      then show ?thesis using eq by (simp add: nat_digits.simps[of m] nat_digits.simps[of n])
    next
      assume "\<not> m < 10" "n < 10"
      then show ?thesis using eq by (simp add: nat_digits.simps[of m] nat_digits.simps[of n])
    next
      assume a: "\<not> m < 10" "\<not> n < 10"
      then have "nat_digits (m div 10) = nat_digits (n div 10)" "m mod 10 = n mod 10"
        using eq by (simp_all add: nat_digits.simps[of m] nat_digits.simps[of n] dc)
      then show ?thesis using 1[OF a(1)] by (metis div_mult_mod_eq)
    qed
  qed simp
qed

lemma Itoa_inject: "Itoa i = Itoa j \<longleftrightarrow> i = j"
proof -
  have nd: "nat_digits n \<noteq> CHR ''-'' # s" for n s
    using nat_digits_all[of n] by (auto dest: is_digit_neq)
  show ?thesis using nd[symmetric] nd by (auto simp: Itoa_def nat_digits_inject)
qed

text \<open>\<open>fmt.Sprintf("%s:%d", ip, port)\<close>, the key of a registered instance, determines both.\<close>

definition host_port :: "string \<Rightarrow> int \<Rightarrow> string" where
  "host_port ip port = ip @ '':'' @ Itoa port"

lemma Itoa_no_colon: "CHR '':'' \<notin> set (Itoa i)"
  using nat_digits_all[of "nat i"] nat_digits_all[of "nat (- i)"] is_digit_neq
  by (auto simp: Itoa_def list_all_iff)

lemma split_last_unique:
  assumes "a @ c # b = a' @ c # b'" "c \<notin> set b" "c \<notin> set b'"
  shows "a = a' \<and> b = b'"
proof -
  have "takeWhile (\<lambda>x. x \<noteq> c) (rev (a @ c # b)) = rev b" using assms(2)
    by (simp, subst takeWhile_append2) auto
  moreover have "takeWhile (\<lambda>x. x \<noteq> c) (rev (a' @ c # b')) = rev b'" using assms(3)
    by (simp, subst takeWhile_append2) auto
  ultimately have "b = b'" using assms(1) by (metis rev_rev_ident)
  with assms(1) show ?thesis by simp
qed

lemma host_port_inject: "host_port ip p = host_port ip' p' \<longleftrightarrow> ip = ip' \<and> p = p'"
  using split_last_unique[of ip "CHR '':''" "Itoa p" ip' "Itoa p'"] Itoa_no_colon
  by (auto simp: host_port_def Itoa_inject)

end
