(* ===== verification/Cluster.thy ===== *)
theory Cluster
  imports SafeMap GoStrings
begin

text \<open>
  Cluster membership of the service discovery, \<open>server/service_discovery/cluster\<close>.  The members
  are one key of a SafeMap.  The two goroutines of a cluster are event loops: \<open>refresh\<close> consumes
  configuration changes, ticks and the stop signal, \<open>ping\<close> turns a tick into the requests it
  makes (the requests go over the network, so their result is only logged by the code).
\<close>

definition defaultClusterName :: string where "defaultClusterName = ''FindYou''"

record BaseCluster =
  cl_Mode :: int
  cl_Host :: string
  Members :: "string SafeMap"
  cl_Done :: bool

definition NewConfigCluster :: "string \<Rightarrow> BaseCluster" where
  "NewConfigCluster host =
     \<lparr>cl_Mode = 0, cl_Host = host, Members = NewSafeMap defaultClusterName, cl_Done = False\<rparr>"

datatype refresh_event = ConfigChange bool "string list" | RefreshTick | RefreshDone

text \<open>One round of the \<open>select\<close> in \<open>ConfigCluster.refresh\<close>; \<^const>\<open>None\<close> is the return.\<close>

fun refresh_step :: "BaseCluster \<Rightarrow> refresh_event \<Rightarrow> BaseCluster option" where
  "refresh_step cc (ConfigChange changed members) =
     Some (if changed
           then cc\<lparr>Members := foldl (\<lambda>m host. HSet m defaultClusterName host ''ok'')
                                 (sm_Del (Members cc) defaultClusterName) members\<rparr>
           else cc)"
| "refresh_step cc RefreshTick = Some cc"
| "refresh_step cc RefreshDone = None"

fun cc_refresh :: "BaseCluster \<Rightarrow> refresh_event list \<Rightarrow> BaseCluster" where
  "cc_refresh cc [] = cc"
| "cc_refresh cc (ev # evs) =
     (case refresh_step cc ev of None \<Rightarrow> cc | Some cc' \<Rightarrow> cc_refresh cc' evs)"

definition GetHost :: "BaseCluster \<Rightarrow> string" where
  "GetHost bc = cl_Host bc"

definition GetHosts :: "BaseCluster \<Rightarrow> string list" where
  "GetHosts bc = foldl (\<lambda>hosts host. hosts @ [host]) [] (HKeys (Members bc) defaultClusterName)"

definition GetOtherHosts :: "BaseCluster \<Rightarrow> string list" where
  "GetOtherHosts bc =
     foldl (\<lambda>hosts host. if host \<noteq> cl_Host bc then hosts @ [host] else hosts) []
       (HKeys (Members bc) defaultClusterName)"

text \<open>The URLs one tick of \<open>ping\<close> requests.\<close>

definition ping_tick :: "BaseCluster \<Rightarrow> string list" where
  "ping_tick bc =
     foldl (\<lambda>urls host. if host = cl_Host bc then urls
                         else urls @ [''http://'' @ host @ ''/endpoint/ping'']) []
       (HKeys (Members bc) defaultClusterName)"

definition cl_Stop :: "BaseCluster \<Rightarrow> BaseCluster" where
  "cl_Stop bc = bc\<lparr>cl_Done := True\<rparr>"

section \<open>Membership\<close>

lemma foldl_snoc_id: "foldl (\<lambda>r x. r @ [x]) acc xs = acc @ xs"
  by (induction xs arbitrary: acc) auto

lemma foldl_snoc_filter: "foldl (\<lambda>r x. if P x then r @ [f x] else r) acc xs = acc @ map f (filter P xs)"
  by (induction xs arbitrary: acc) auto

lemma foldl_skip_filter: "foldl (\<lambda>r x. if P x then r else r @ [f x]) acc xs = acc @ map f (filter (\<lambda>x. \<not> P x) xs)"
  by (induction xs arbitrary: acc) auto

lemma GetHosts_conv: "GetHosts bc = HKeys (Members bc) defaultClusterName"
  by (simp add: GetHosts_def foldl_snoc_id)

lemma GetOtherHosts_conv: "GetOtherHosts bc = filter (\<lambda>h. h \<noteq> cl_Host bc) (GetHosts bc)"
  using foldl_snoc_filter[of "\<lambda>h. h \<noteq> cl_Host bc" "\<lambda>h. h"]
  by (simp add: GetOtherHosts_def GetHosts_conv)

lemma ping_tick_conv:
  "ping_tick bc = map (\<lambda>h. ''http://'' @ h @ ''/endpoint/ping'') (GetOtherHosts bc)"
  by (simp add: ping_tick_def foldl_skip_filter GetOtherHosts_conv GetHosts_conv)

lemma wf_refresh_step:
  "wf_SafeMap (Members cc) \<Longrightarrow> refresh_step cc ev = Some cc' \<Longrightarrow>
     wf_SafeMap (Members cc') \<and> cl_Host cc' = cl_Host cc"
  using smap.inv_foldl_hput[of _ "\<lambda>_. defaultClusterName" "\<lambda>h. h" "\<lambda>_. ''ok''"]
  by (cases ev) (auto simp: smap.inv_remkey)

lemma wf_cc_refresh:
  "wf_SafeMap (Members cc) \<Longrightarrow> wf_SafeMap (Members (cc_refresh cc evs)) \<and> cl_Host (cc_refresh cc evs) = cl_Host cc"
  by (induction cc evs rule: cc_refresh.induct) (auto split: option.splits dest: wf_refresh_step)

lemma refresh_step_hosts:
  "wf_SafeMap (Members cc) \<Longrightarrow> refresh_step cc (ConfigChange True ms) = Some cc' \<Longrightarrow>
     set (GetHosts cc') = set ms"
  by (auto simp: GetHosts_conv smap.hkeys_reload)

lemma distinct_GetHosts: "wf_SafeMap (Members cc) \<Longrightarrow> distinct (GetHosts cc)"
  by (simp add: GetHosts_conv smap.hkeys_iff)

text \<open>The last member list among the changes that are processed before the stop signal.\<close>

fun last_members :: "string list \<Rightarrow> refresh_event list \<Rightarrow> string list" where
  "last_members ms [] = ms"
| "last_members ms (ConfigChange changed ms' # evs) = last_members (if changed then ms' else ms) evs"
| "last_members ms (RefreshTick # evs) = last_members ms evs"
| "last_members ms (RefreshDone # evs) = ms"

lemma cc_refresh_hosts:
  "wf_SafeMap (Members cc) \<Longrightarrow> set (GetHosts cc) = set ms \<Longrightarrow>
     set (GetHosts (cc_refresh cc evs)) = set (last_members ms evs)"
proof (induction ms evs arbitrary: cc rule: last_members.induct)
  case (2 ms changed ms' evs)
  let ?cc' = "the (refresh_step cc (ConfigChange changed ms'))"
  have "wf_SafeMap (Members ?cc')" using wf_refresh_step[of cc "ConfigChange changed ms'" ?cc'] 2 by simp
  moreover have "set (GetHosts ?cc') = set (if changed then ms' else ms)"
    using 2 by (auto simp: GetHosts_conv smap.hkeys_reload)
  ultimately show ?case using 2(1)[of ?cc'] by simp
qed auto

text \<open>
  After any sequence of configuration events the member list of a cluster is exactly the last
  configured one, without duplicates; the hosts the node synchronises with and pings are those
  members except the node itself.
\<close>

theorem cluster_members:
  "let cc = cc_refresh (NewConfigCluster host) evs; ms = last_members [] evs
   in distinct (GetHosts cc) \<and> set (GetHosts cc) = set ms
      \<and> distinct (GetOtherHosts cc) \<and> set (GetOtherHosts cc) = set ms - {host}
      \<and> set (ping_tick cc) = {''http://'' @ h @ ''/endpoint/ping'' | h. h \<in> set ms \<and> h \<noteq> host}"
proof -
  have wf: "wf_SafeMap (Members (NewConfigCluster host))" by (simp add: NewConfigCluster_def)
  have h: "set (GetHosts (NewConfigCluster host)) = set []"
    by (simp add: GetHosts_conv NewConfigCluster_def NewSafeMap_def HKeys_def)
  have "cl_Host (NewConfigCluster host) = host" by (simp add: NewConfigCluster_def)
  then show ?thesis
    using cc_refresh_hosts[OF wf h, of evs] wf_cc_refresh[OF wf, of evs]
      distinct_GetHosts[of "cc_refresh (NewConfigCluster host) evs"]
    by (auto simp: Let_def GetOtherHosts_conv ping_tick_conv)
qed

end
