(* ===== verification/FetchAlgorithm.thy ===== *)
theory FetchAlgorithm
  imports Prelude
begin

text \<open>
  The selection algorithms of \<open>server/service_discovery/endpoint/utils.go\<close>.

  \<open>sort.Sort\<close> is not stable; the items come from iterating a Go map, whose order is arbitrary, so
  sorting stably from an arbitrary order gives every outcome the code can have.  Random numbers
  are a parameter: \<open>rnd i b\<close> is the result of the \<open>i\<close>-th call \<open>r.Int31n(b)\<close>.
\<close>

datatype panic = Panic

record 'a Item =
  Score :: int
  Data :: 'a

definition sort_items :: "'a Item list \<Rightarrow> 'a Item list" where
  "sort_items items = sort_key Score items"

fun min_loop :: "int \<Rightarrow> int \<Rightarrow> 'a list \<Rightarrow> 'a list \<Rightarrow> 'a list" where
  "min_loop i n [] r = r"
| "min_loop i n (item # items) r = (if i \<ge> n then r else min_loop (i + 1) n items (r @ [item]))"

definition FetchMinN :: "'a Item list \<Rightarrow> int \<Rightarrow> 'a Item list" where
  "FetchMinN items n = (if length items = 0 then [] else min_loop 0 n (sort_items items) [])"

text \<open>The loop of \<open>FetchMaxN\<close>, counting \<open>i\<close> down from \<open>len(items)-1\<close>: \<open>max_loop k\<close> is at \<open>i = k-1\<close>.\<close>

fun max_loop :: "nat \<Rightarrow> int \<Rightarrow> 'a list \<Rightarrow> 'a list \<Rightarrow> 'a list" where
  "max_loop 0 n items r = r"
| "max_loop (Suc i) n items r = (if int i \<ge> n then r else max_loop i n items (r @ [items ! i]))"

definition FetchMaxN :: "'a Item list \<Rightarrow> int \<Rightarrow> 'a Item list" where
  "FetchMaxN items n =
     (if length items = 0 then [] else max_loop (length items) n (sort_items items) [])"

text \<open>
  The rejection loop.  \<^const>\<open>None\<close> is a loop that never ends, \<open>Inl Panic\<close> the panic of \<open>Int31n\<close>
  on a bound that is not positive (the bound is converted to a signed 32-bit integer).
\<close>

partial_function (option) gen_loop ::
  "(nat \<Rightarrow> int \<Rightarrow> int) \<Rightarrow> nat \<Rightarrow> int \<Rightarrow> int \<Rightarrow> int list \<Rightarrow> int \<Rightarrow> (panic + int list) option" where
  "gen_loop rnd i b lo nums cnt =
     (if int (length nums) < cnt then
        if b \<le> 0 then Some (Inl Panic)
        else
          let num = rnd i b + lo
          in if num \<in> set nums then gen_loop rnd (Suc i) b lo nums cnt
             else gen_loop rnd (Suc i) b lo (nums @ [num]) cnt
      else Some (Inr nums))"

declare gen_loop.simps [code]

definition GenRandomNumbers ::
  "(nat \<Rightarrow> int \<Rightarrow> int) \<Rightarrow> int \<Rightarrow> int \<Rightarrow> int \<Rightarrow> (panic + int list) option" where
  "GenRandomNumbers rnd lo hi cnt =
     (if hi < lo \<or> hi - lo < cnt then Some (Inr [])
      else gen_loop rnd 0 (sint (word_of_int (hi - lo) :: 32 word)) lo [] cnt)"

fun index_all :: "'a list \<Rightarrow> int list \<Rightarrow> 'a list \<Rightarrow> panic + 'a list" where
  "index_all items [] r = Inr r"
| "index_all items (i # is) r =
     (if 0 \<le> i \<and> i < int (length items) then index_all items is (r @ [items ! nat i]) else Inl Panic)"

definition FetchRandomN ::
  "(nat \<Rightarrow> int \<Rightarrow> int) \<Rightarrow> 'a Item list \<Rightarrow> int \<Rightarrow> (panic + 'a Item list) option" where
  "FetchRandomN rnd items n =
     (if int (length items) \<le> n then Some (Inr (foldl (\<lambda>r i. r @ [i]) [] items))
      else case GenRandomNumbers rnd 0 (int (length items)) n of
             None \<Rightarrow> None
           | Some (Inl p) \<Rightarrow> Some (Inl p)
           | Some (Inr nums) \<Rightarrow> Some (index_all items nums []))"

section \<open>The smallest scores\<close>

lemma min_loop_conv: "min_loop i n items r = r @ take (nat (n - i)) items"
proof (induction items arbitrary: i r)
  case (Cons item items)
  have "\<not> i \<ge> n \<Longrightarrow> nat (n - i) = Suc (nat (n - (i + 1)))" by linarith
  then show ?case using Cons by simp
qed simp

lemma FetchMinN_conv: "FetchMinN items n = take (nat n) (sort_items items)"
  by (simp add: FetchMinN_def min_loop_conv sort_items_def)

lemma sorted_take_drop:
  assumes "sorted (map f xs)" "x \<in> set (take k xs)" "y \<in> set (drop k xs)"
  shows "f x \<le> f y"
proof -
  have "sorted (map f (take k xs @ drop k xs))" using assms(1) by simp
  then show ?thesis using assms(2,3) by (simp add: sorted_append del: append_take_drop_id)
qed

lemma mset_take_drop: "mset (take k xs) + mset (drop k xs) = mset xs"
  by (metis append_take_drop_id mset_append)

text \<open>
  FetchMinN returns as many items as were asked for (all of them when there are fewer), in
  ascending order of their score; together with the items left out they are the input, and no
  item left out has a smaller score than one returned.
\<close>

theorem FetchMinN_smallest:
  "\<exists>rest. mset (FetchMinN items n) + mset rest = mset items
     \<and> length (FetchMinN items n) = min (nat n) (length items)
     \<and> sorted (map Score (FetchMinN items n))
     \<and> list_all (\<lambda>x. list_all (\<lambda>y. Score x \<le> Score y) rest) (FetchMinN items n)"
proof -
  let ?s = "sort_items items" and ?k = "nat n"
  have s: "sorted (map Score ?s)" "mset ?s = mset items" by (simp_all add: sort_items_def)
  then have "length ?s = length items" by (metis mset_eq_length)
  moreover have "sorted (map Score (take ?k ?s))" using s(1) by (metis sorted_wrt_take take_map)
  ultimately show ?thesis using s mset_take_drop[of ?k ?s] sorted_take_drop[of Score ?s _ ?k]
    by (intro exI[of _ "drop ?k ?s"]) (auto simp: FetchMinN_conv list_all_iff min.commute)
qed

section \<open>The largest scores\<close>

lemma max_loop_conv:
  "max_loop k n items r = (if int k > n then r else r @ rev (take k items))" if "k \<le> length items" "0 < k"
  using that
proof (induction k arbitrary: r)
  case (Suc k)
  show ?case
  proof (cases "k = 0")
    case True
    then show ?thesis using Suc.prems by (cases items) auto
  next
    case False
    then show ?thesis using Suc by (auto simp: take_Suc_conv_app_nth)
  qed
qed simp

lemma FetchMaxN_conv:
  "FetchMaxN items n = (if int (length items) > n then [] else rev (sort_items items))"
proof (cases "items = []")
  case False
  then have "length (sort_items items) = length items" "0 < length items" by (simp_all add: sort_items_def)
  then show ?thesis using max_loop_conv[of "length items" "sort_items items" n "[]"] False
    by (simp add: FetchMaxN_def)
qed (simp add: FetchMaxN_def sort_items_def)

text \<open>
  FetchMaxN tests the index that it counts down against the limit, so it leaves the loop at
  once when there are more items than asked for: it returns nothing then, and the whole list in
  descending order otherwise.  It never selects the n largest out of more than n.
\<close>

theorem FetchMaxN_all_or_nothing:
  "FetchMaxN items n =
     (if int (length items) > n then [] else rev (sort_key Score items))"
  by (simp add: FetchMaxN_conv sort_items_def)

section \<open>Random selection\<close>

lemma gen_loop_returns:
  assumes rng: "\<And>i. 0 \<le> rnd i b \<and> rnd i b < b" and "0 < b"
    and "distinct nums" "set nums \<subseteq> {lo ..< lo + b}" "int (length nums) \<le> cnt"
    and "int (card (set nums \<union> (\<lambda>j. rnd j b + lo) ` {i ..< i + N})) \<ge> cnt"
  shows "\<exists>ns. gen_loop rnd i b lo nums cnt = Some (Inr ns) \<and> distinct ns
     \<and> set ns \<subseteq> {lo ..< lo + b} \<and> int (length ns) = cnt"
  using assms(3-6)
proof (induction N arbitrary: i nums)
  case 0
  then have "int (length nums) = cnt" by (simp add: distinct_card)
  then show ?case using 0 by (subst gen_loop.simps) simp
next
  case (Suc N)
  show ?case
  proof (cases "int (length nums) < cnt")
    case False
    then show ?thesis using Suc.prems by (subst gen_loop.simps) simp
  next
    case True
    let ?num = "rnd i b + lo"
    have "{i ..< i + Suc N} = insert i {Suc i ..< Suc i + N}" by auto
    then have split: "set nums \<union> (\<lambda>j. rnd j b + lo) ` {i ..< i + Suc N} =
        insert ?num (set nums) \<union> (\<lambda>j. rnd j b + lo) ` {Suc i ..< Suc i + N}" by auto
    let ?nums = "if ?num \<in> set nums then nums else nums @ [?num]"
    have "set ?nums = insert ?num (set nums)" by auto
    then have "\<exists>ns. gen_loop rnd (Suc i) b lo ?nums cnt = Some (Inr ns) \<and> distinct ns
        \<and> set ns \<subseteq> {lo ..< lo + b} \<and> int (length ns) = cnt"
      using Suc.prems rng[of i] True split by (intro Suc.IH) auto
    then show ?thesis using True \<open>0 < b\<close> by (subst gen_loop.simps) (auto simp: Let_def)
  qed
qed

text \<open>Whatever the source of random numbers, a result has at most the length asked for.\<close>

lemma gen_loop_length:
  assumes "gen_loop rnd i b lo nums cnt = Some (Inr ns)" "int (length nums) \<le> max 0 cnt"
  shows "int (length ns) \<le> max 0 cnt"
proof -
  define P where "P = (\<lambda>(rnd :: nat \<Rightarrow> int \<Rightarrow> int) (i :: nat) (b :: int) (lo :: int) (nums :: int list) (cnt :: int) r.
      int (length nums) \<le> max 0 cnt \<longrightarrow> (\<forall>ns :: int list. r = (Inr ns :: panic + int list) \<longrightarrow> int (length ns) \<le> max 0 cnt))"
  have "P rnd i b lo nums cnt (Inr ns)"
  proof (rule gen_loop.raw_induct[where P = P, OF _ assms(1)])
    fix gen and rnd :: "nat \<Rightarrow> int \<Rightarrow> int" and i b lo nums cnt r
    assume ih: "\<And>rnd i b lo nums cnt r. gen rnd i b lo nums cnt = Some r \<Longrightarrow> P rnd i b lo nums cnt r"
      and eq: "(if int (length nums) < cnt then if b \<le> 0 then Some (Inl Panic)
          else let num = rnd i b + lo in if num \<in> set nums then gen rnd (Suc i) b lo nums cnt
             else gen rnd (Suc i) b lo (nums @ [num]) cnt else Some (Inr nums)) = Some r"
    show "P rnd i b lo nums cnt r"
      using eq ih[of rnd "Suc i" b lo nums cnt r] ih[of rnd "Suc i" b lo "nums @ [rnd i b + lo]" cnt r]
      by (auto simp: Let_def P_def split: if_splits)
  qed
  then show ?thesis using assms(2) by (simp add: P_def)
qed

lemma index_all_subset:
  "index_all items is r = Inr r' \<Longrightarrow> set r' \<subseteq> set r \<union> set items \<and> length r' = length r + length is"
  by (induction "is" arbitrary: r) (force split: if_splits)+

lemma FetchRandomN_bounds:
  assumes "FetchRandomN rnd items n = Some (Inr r)"
  shows "int (length r) \<le> max 0 n \<and> set r \<subseteq> set items"
proof (cases "int (length items) \<le> n")
  case True
  have "foldl (\<lambda>r i. r @ [i]) acc xs = acc @ xs" for acc and xs :: "'a Item list"
    by (induction xs arbitrary: acc) auto
  then show ?thesis using assms True by (simp add: FetchRandomN_def)
next
  case False
  then obtain nums where nums: "GenRandomNumbers rnd 0 (int (length items)) n = Some (Inr nums)"
      "index_all items nums [] = Inr r"
    using assms by (auto simp: FetchRandomN_def split: option.splits sum.splits)
  then have "int (length nums) \<le> max 0 n" using False
    by (auto simp: GenRandomNumbers_def dest: gen_loop_length split: if_splits)
  then show ?thesis using index_all_subset[OF nums(2)] by simp
qed

lemma index_all_conv:
  "list_all (\<lambda>i. 0 \<le> i \<and> i < int (length items)) is \<Longrightarrow>
     index_all items is r = Inr (r @ map (\<lambda>i. items ! nat i) is)"
  by (induction "is" arbitrary: r) auto

lemma GenRandomNumbers_returns:
  assumes "0 \<le> cnt" "cnt \<le> b" "b < 2 ^ 31" "0 < b"
    and rng: "\<And>i. 0 \<le> rnd i b \<and> rnd i b < b"
    and draws: "int (card ((\<lambda>j. rnd j b) ` {..< N})) \<ge> cnt"
  shows "\<exists>ns. GenRandomNumbers rnd 0 b cnt = Some (Inr ns) \<and> distinct ns
     \<and> set ns \<subseteq> {0 ..< b} \<and> int (length ns) = cnt"
proof -
  have "sint (word_of_int b :: 32 word) = b"
    using assms by (simp add: sint_sbintrunc' signed_take_bit_int_eq_self)
  then show ?thesis
    using assms gen_loop_returns[of rnd b "[]" 0 cnt 0 N]
    by (simp add: GenRandomNumbers_def atLeast0LessThan)
qed

text \<open>
  C31. FetchRandomN returns as soon as its source has produced enough different values: whenever the
  draws lie below the bound and the first N of them take at least n different values, the call
  ends without a panic and returns n items taken from n different positions of the input (the
  whole input when it has at most n items).
\<close>

theorem FetchRandomN_returns:
  assumes "length items < 2 ^ 31" "0 \<le> n"
    and "\<And>i. 0 \<le> rnd i (int (length items)) \<and> rnd i (int (length items)) < int (length items)"
    and "int (card ((\<lambda>j. rnd j (int (length items))) ` {..< N})) \<ge> n"
  shows "\<exists>ps. FetchRandomN rnd items n = Some (Inr (map (\<lambda>p. items ! p) ps)) \<and> distinct ps
     \<and> set ps \<subseteq> {..< length items} \<and> length ps = min (nat n) (length items)"
proof (cases "int (length items) \<le> n")
  case True
  have "foldl (\<lambda>r i. r @ [i]) acc xs = acc @ xs" for acc and xs :: "'a Item list"
    by (induction xs arbitrary: acc) auto
  then show ?thesis using True
    by (intro exI[of _ "[0 ..< length items]"]) (auto simp: FetchRandomN_def map_nth)
next
  case False
  then obtain ns where ns: "GenRandomNumbers rnd 0 (int (length items)) n = Some (Inr ns)" "distinct ns"
      "set ns \<subseteq> {0 ..< int (length items)}" "int (length ns) = n"
    using assms GenRandomNumbers_returns[of n "int (length items)" rnd N] by force
  have "inj_on nat (set ns)" using ns(3) by (intro inj_onI) (metis atLeastLessThan_iff nat_eq_iff subset_iff)
  moreover have "index_all items ns [] = Inr (map (\<lambda>i. items ! nat i) ns)"
    using ns(3) index_all_conv[of items ns "[]"] by (auto simp: list_all_iff subset_iff)
  moreover have "x \<in> set ns \<Longrightarrow> nat x < length items" for x using ns(3) by (auto simp: subset_iff)
  ultimately show ?thesis using False ns
    by (intro exI[of _ "map nat ns"]) (auto simp: FetchRandomN_def distinct_map comp_def nat_less_iff)
qed

definition rr_draw :: "nat \<Rightarrow> int \<Rightarrow> int" where
  "rr_draw i b = int i mod b"

theorem FetchRandomN_returns_witness:
  "\<exists>ps. FetchRandomN rr_draw (map (\<lambda>d. \<lparr>Score = d, Data = d\<rparr>) [7, 8, 9]) 2 =
      Some (Inr (map (\<lambda>p. map (\<lambda>d. \<lparr>Score = d, Data = d\<rparr>) [7, 8, 9] ! p) ps)) \<and> distinct ps
     \<and> set ps \<subseteq> {..< 3} \<and> length ps = 2"
proof -
  have "{..< 2::nat} = {0, 1}" by auto
  then have "int (card ((\<lambda>j. rr_draw j 3) ` {..< 2})) \<ge> 2" by (simp add: rr_draw_def)
  then show ?thesis
    using FetchRandomN_returns[of "map (\<lambda>d. \<lparr>Score = d, Data = d\<rparr>) [7, 8, 9 :: int]" 2 rr_draw 2]
    by (simp add: rr_draw_def flip: numeral_2_eq_2)
qed

end
