(* ===== verification/Batching.thy ===== *)
theory Batching
  imports Prelude
begin

text \<open>
  The contract of the collect-and-flush loops of the servers: a goroutine that gathers values from
  a channel and hands them on in batches, when a batch is full or when a ticker fires.  One round
  of such a loop is \<open>step pending ev\<close>, where \<open>ev\<close> is \<^term>\<open>Some x\<close> for a received value and
  \<^const>\<open>None\<close> for a tick; it returns the values still pending and the batch handed on, if any.
  The loops of the endpoint synchronisation and of the task reporting interpret it.
\<close>

fun opt_list :: "'a option \<Rightarrow> 'a list" where
  "opt_list None = []"
| "opt_list (Some x) = [x]"

fun run_batches :: "('a list \<Rightarrow> 'a option \<Rightarrow> 'a list \<times> 'a list option) \<Rightarrow> 'a list \<Rightarrow> 'a option list \<Rightarrow> 'a list \<times> 'a list list" where
  "run_batches stp pending [] = (pending, [])"
| "run_batches stp pending (ev # evs) =
     (let (pending', out) = stp pending ev;
          (pending'', outs) = run_batches stp pending' evs
      in (pending'', opt_list out @ outs))"

locale batcher =
  fixes step :: "'a list \<Rightarrow> 'a option \<Rightarrow> 'a list \<times> 'a list option"
    and limit :: nat
  assumes step_conserves: "step pending ev = (pending', out) \<Longrightarrow>
      concat (opt_list out) @ pending' = pending @ opt_list ev"
    and step_pending: "length pending < limit \<Longrightarrow> step pending ev = (pending', out) \<Longrightarrow>
      length pending' < limit"
    and step_batch: "length pending < limit \<Longrightarrow> step pending ev = (pending', Some b) \<Longrightarrow>
      b \<noteq> [] \<and> length b \<le> limit \<and> pending' = []"
    and step_tick: "step pending None = (pending', out) \<Longrightarrow> pending' = []"
begin

lemma run_conserves:
  "run_batches step pending evs = (pending', outs) \<Longrightarrow>
     concat outs @ pending' = pending @ concat (map opt_list evs)"
proof (induction evs arbitrary: pending pending' outs)
  case (Cons ev evs)
  obtain p out where p: "step pending ev = (p, out)" by (cases "step pending ev")
  obtain p' os where q: "run_batches step p evs = (p', os)" by (cases "run_batches step p evs")
  have "concat os @ p' = p @ concat (map opt_list evs)" using Cons.IH q by simp
  moreover have "pending' = p'" "outs = opt_list out @ os" using Cons.prems p q by simp_all
  ultimately have "concat outs @ pending' = (concat (opt_list out) @ p) @ concat (map opt_list evs)" by simp
  then show ?case by (simp add: step_conserves[OF p])
qed simp

lemma run_bounds:
  "run_batches step pending evs = (pending', outs) \<Longrightarrow> length pending < limit \<Longrightarrow>
     length pending' < limit \<and> list_all (\<lambda>b. b \<noteq> [] \<and> length b \<le> limit) outs"
proof (induction evs arbitrary: pending pending' outs)
  case (Cons ev evs)
  obtain p out where p: "step pending ev = (p, out)" by (cases "step pending ev")
  obtain p' os where q: "run_batches step p evs = (p', os)" by (cases "run_batches step p evs")
  have "length p < limit" using step_pending Cons.prems(2) p by blast
  then have "length p' < limit \<and> list_all (\<lambda>b. b \<noteq> [] \<and> length b \<le> limit) os"
    using Cons.IH q by blast
  then show ?case using Cons.prems p q step_batch[of pending ev p]
    by (cases out) auto
qed simp

lemma run_append:
  "run_batches step pending (evs @ evs') =
     (let (p, os) = run_batches step pending evs; (p', os') = run_batches step p evs'
      in (p', os @ os'))"
  by (induction evs arbitrary: pending) (auto simp: Let_def split: prod.splits)

text \<open>A tick at the end hands on everything that has been received.\<close>

lemma run_tick_flushes:
  "run_batches step pending (evs @ [None]) = (pending', outs) \<Longrightarrow>
     pending' = [] \<and> concat outs = pending @ concat (map opt_list evs)"
proof -
  assume run: "run_batches step pending (evs @ [None]) = (pending', outs)"
  obtain p os where r: "run_batches step pending evs = (p, os)" by (cases "run_batches step pending evs")
  obtain p' out where s: "step p None = (p', out)" by (cases "step p None")
  have "pending' = []" using run r s step_tick[OF s] by (simp add: run_append)
  then show ?thesis using run_conserves[OF run] by simp
qed

end

end
