(* ===== verification/Endpoint.thy ===== *)
theory Endpoint
  imports Cluster FetchAlgorithm Batching
begin

text \<open>
  The registry of the service discovery, \<open>server/service_discovery/endpoint/endpoint.go\<close>: an
  instance registers itself by heartbeats, a refresh loop grades it by the age of its last
  heartbeat and evicts it, and every local change is sent to the other nodes of the cluster in
  batches.  \<open>time.Now().Unix()\<close> is an argument of the operations that read the clock.
  A channel is the list of its queued values.
\<close>

section \<open>Data\<close>

record Registry =
  reg_Name :: string
  reg_Ip :: string
  reg_Port :: int
  reg_Status :: int
  reg_CreateAt :: int
  reg_UpdateAt :: int
  reg_Weight :: int
  reg_Extra :: "(string, json) gomap"

record SyncInfo =
  si_Action :: string
  si_Registry :: Registry

record TransInfo =
  ti_Source :: string
  ti_Data :: "SyncInfo list"

record Endpoint =
  ep_cluster :: BaseCluster
  registryMap :: "Registry SafeMap"
  sendChan :: "SyncInfo list"
  recvChan :: "TransInfo list"
  ep_stop :: bool

definition StatusGreen :: int where "StatusGreen = 0"
definition StatusBlue :: int where "StatusBlue = 1"
definition StatusYellow :: int where "StatusYellow = 2"
definition StatusOrange :: int where "StatusOrange = 3"
definition StatusRed :: int where "StatusRed = 4"

definition defaultMergeNum :: nat where "defaultMergeNum = 100"
definition defaultSendChannelLen :: nat where "defaultSendChannelLen = 1024 * 8"
definition defaultRecvChannelLen :: nat where "defaultRecvChannelLen = 1024 * 8"
definition registerAction :: string where "registerAction = ''REGISTER''"
definition evictAction :: string where "evictAction = ''EVICT''"

definition NewEndpoint :: "BaseCluster \<Rightarrow> Endpoint" where
  "NewEndpoint cl = \<lparr>ep_cluster = cl, registryMap = NewSafeMap ''registry'',
     sendChan = [], recvChan = [], ep_stop = False\<rparr>"

section \<open>Operations\<close>

text \<open>The \<open>select\<close> with a default that queues a change for the other nodes, or drops it.\<close>

definition queue_sync :: "Endpoint \<Rightarrow> SyncInfo \<Rightarrow> Endpoint" where
  "queue_sync e si = (case chan_try_send defaultSendChannelLen (sendChan e) si of
     Some ch \<Rightarrow> e\<lparr>sendChan := ch\<rparr> | None \<Rightarrow> e)"

text \<open>The instance a heartbeat stores, given what \<open>HGet\<close> returned for it.\<close>

definition heartbeat_reg ::
  "int \<Rightarrow> string \<Rightarrow> string \<Rightarrow> int \<Rightarrow> int \<Rightarrow> (string, json) gomap \<Rightarrow> Registry option \<Rightarrow> Registry" where
  "heartbeat_reg ts name ip port weight extra old =
     (case old of
        None \<Rightarrow> \<lparr>reg_Name = name, reg_Ip = ip, reg_Port = port, reg_Status = StatusGreen,
                 reg_CreateAt = ts, reg_UpdateAt = ts, reg_Weight = weight, reg_Extra = extra\<rparr>
      | Some r \<Rightarrow> r\<lparr>reg_Weight := weight, reg_UpdateAt := ts\<rparr>)"

declare heartbeat_reg_def [simp]

definition Register ::
  "Endpoint \<Rightarrow> int \<Rightarrow> string \<Rightarrow> string \<Rightarrow> int \<Rightarrow> int \<Rightarrow> (string, json) gomap \<Rightarrow> Endpoint" where
  "Register e ts name ip port weight extra =
     (let key = host_port ip port;
          reg = heartbeat_reg ts name ip port weight extra (HGet (registryMap e) name key);
          e' = e\<lparr>registryMap := HSet (registryMap e) name key reg\<rparr>
      in queue_sync e' \<lparr>si_Action = registerAction, si_Registry = reg\<rparr>)"

definition evict_registry :: "string \<Rightarrow> string \<Rightarrow> int \<Rightarrow> Registry" where
  "evict_registry name ip port =
     \<lparr>reg_Name = name, reg_Ip = ip, reg_Port = port, reg_Status = 0, reg_CreateAt = 0,
      reg_UpdateAt = 0, reg_Weight = 0, reg_Extra = []\<rparr>"

definition Evict :: "Endpoint \<Rightarrow> string \<Rightarrow> string \<Rightarrow> int \<Rightarrow> Endpoint" where
  "Evict e name ip port =
     (let e' = e\<lparr>registryMap := HDel (registryMap e) name (host_port ip port)\<rparr>
      in queue_sync e' \<lparr>si_Action = evictAction, si_Registry = evict_registry name ip port\<rparr>)"

text \<open>The body of the inner loop of \<open>registryRefresh\<close>, for one instance of the snapshot.\<close>

definition refresh_reg :: "int \<Rightarrow> string \<Rightarrow> Endpoint \<Rightarrow> Registry \<Rightarrow> Endpoint" where
  "refresh_reg nowAt name e reg =
     (let d = wrap64 (nowAt - reg_UpdateAt reg); key = host_port (reg_Ip reg) (reg_Port reg);
          put = (\<lambda>st. e\<lparr>registryMap := HSet (registryMap e) name key (reg\<lparr>reg_Status := st\<rparr>)\<rparr>)
      in if d \<le> 45 then put StatusGreen
         else if d > 45 \<and> d \<le> 60 then put StatusBlue
         else if d > 60 \<and> d \<le> 75 then put StatusYellow
         else if d > 75 \<and> d \<le> 90 then put StatusOrange
         else if d > 90 \<and> d \<le> 105 then put StatusRed
         else Evict e name (reg_Ip reg) (reg_Port reg))"

definition refresh_name :: "int \<Rightarrow> Endpoint \<Rightarrow> string \<Rightarrow> Endpoint" where
  "refresh_name nowAt e name =
     (case sm_Get (registryMap e) name of
        None \<Rightarrow> e
      | Some regMap \<Rightarrow> foldl (\<lambda>e (k, r). refresh_reg nowAt name e r) e regMap)"

definition registryRefresh_tick :: "Endpoint \<Rightarrow> int \<Rightarrow> Endpoint" where
  "registryRefresh_tick e nowAt = foldl (refresh_name nowAt) e (sm_Keys (registryMap e))"

text \<open>
  The loop reads the clock before it waits: \<open>nowAt\<close> is the time at which the loop was entered or
  the previous tick had been handled.  \<open>RegTick after\<close> is a tick whose handling ends at \<open>after\<close>.
\<close>

datatype reg_event = RegTick int | RegStop

fun registryRefresh :: "int \<Rightarrow> Endpoint \<Rightarrow> reg_event list \<Rightarrow> Endpoint" where
  "registryRefresh nowAt e [] = e"
| "registryRefresh nowAt e (RegTick after # evs) =
     registryRefresh after (registryRefresh_tick e nowAt) evs"
| "registryRefresh nowAt e (RegStop # evs) = e"

text \<open>One round of \<open>syncSend\<close>: a received change or a tick, the pending list, and the batch sent.\<close>

fun syncSend_step :: "SyncInfo list \<Rightarrow> SyncInfo option \<Rightarrow> SyncInfo list \<times> SyncInfo list option" where
  "syncSend_step syncInfoList (Some syncInfo) =
     (let l = syncInfoList @ [syncInfo]
      in if length l \<ge> defaultMergeNum then ([], Some l) else (l, None))"
| "syncSend_step syncInfoList None =
     (if length syncInfoList > 0 then ([], Some syncInfoList) else (syncInfoList, None))"

text \<open>The posts of one batch: the same \<open>TransInfo\<close> to every other host.\<close>

definition sync_posts :: "BaseCluster \<Rightarrow> SyncInfo list \<Rightarrow> (string \<times> TransInfo) list" where
  "sync_posts cl batch =
     map (\<lambda>host. (''http://'' @ host @ ''/registry/sync'', \<lparr>ti_Source = GetHost cl, ti_Data = batch\<rparr>))
       (GetOtherHosts cl)"

definition Recv :: "Endpoint \<Rightarrow> TransInfo \<Rightarrow> Endpoint option" where
  "Recv e transInfo = (case chan_try_send defaultRecvChannelLen (recvChan e) transInfo of
     Some ch \<Rightarrow> Some (e\<lparr>recvChan := ch\<rparr>) | None \<Rightarrow> None)"

definition apply_sync :: "Endpoint \<Rightarrow> SyncInfo \<Rightarrow> Endpoint" where
  "apply_sync e si =
     (let r = si_Registry si; key = host_port (reg_Ip r) (reg_Port r)
      in if si_Action si = registerAction
         then e\<lparr>registryMap := HSet (registryMap e) (reg_Name r) key r\<rparr>
         else if si_Action si = evictAction
         then e\<lparr>registryMap := HDel (registryMap e) (reg_Name r) key\<rparr>
         else e)"

definition syncRecv_step :: "Endpoint \<Rightarrow> Endpoint" where
  "syncRecv_step e = (case recvChan e of
     [] \<Rightarrow> e | ti # rest \<Rightarrow> foldl apply_sync (e\<lparr>recvChan := rest\<rparr>) (ti_Data ti))"

text \<open>
  The algorithm may panic or loop, as the random one can.  The error return of \<open>Fetch\<close> (a service
  without instances) is the inner \<^const>\<open>None\<close>.
\<close>

type_synonym fetch_algorithm = "Registry Item list \<Rightarrow> int \<Rightarrow> (panic + Registry Item list) option"

definition Fetch ::
  "Endpoint \<Rightarrow> string \<Rightarrow> int \<Rightarrow> fetch_algorithm \<Rightarrow> (panic + Registry list option) option" where
  "Fetch e name n fa =
     (case sm_Get (registryMap e) name of
        None \<Rightarrow> Some (Inr None)
      | Some regMap \<Rightarrow>
          let items = foldl (\<lambda>items (k, reg). items @ [\<lparr>Score = reg_Weight reg, Data = reg\<rparr>]) [] regMap
          in case fa items n of
               None \<Rightarrow> None
             | Some (Inl p) \<Rightarrow> Some (Inl p)
             | Some (Inr r) \<Rightarrow> Some (Inr (Some (foldl (\<lambda>regs i. regs @ [Data i]) [] r))))"

definition ep_RegistrySummary :: "Endpoint \<Rightarrow> (string, nat) gomap" where
  "ep_RegistrySummary e =
     foldl (\<lambda>su name. mput su name (HLen (registryMap e) name)) [] (sm_Keys (registryMap e))"

definition ep_RegistryList :: "Endpoint \<Rightarrow> string list" where
  "ep_RegistryList e = sm_Keys (registryMap e)"

definition ep_RegistryDetail :: "Endpoint \<Rightarrow> string \<Rightarrow> Registry list" where
  "ep_RegistryDetail e name =
     (case sm_Get (registryMap e) name of
        None \<Rightarrow> [] | Some regMap \<Rightarrow> foldl (\<lambda>regs (k, reg). regs @ [reg]) [] regMap)"

definition ep_Stop :: "Endpoint \<Rightarrow> Endpoint" where
  "ep_Stop e = e\<lparr>ep_stop := True\<rparr>"

section \<open>Invariant\<close>

text \<open>
  An instance is stored under its own name and address, the maps are well-formed and the channels
  are within their capacity.
\<close>

definition reg_key :: "Registry \<Rightarrow> string" where
  "reg_key r = host_port (reg_Ip r) (reg_Port r)"

definition wf_Endpoint :: "Endpoint \<Rightarrow> bool" where
  "wf_Endpoint e \<longleftrightarrow> wf_SafeMap (registryMap e)
     \<and> (\<forall>n k r. HGet (registryMap e) n k = Some r \<longrightarrow> reg_Name r = n \<and> k = reg_key r)
     \<and> length (sendChan e) \<le> defaultSendChannelLen \<and> length (recvChan e) \<le> defaultRecvChannelLen"

lemma queue_sync_simps [simp]:
  "registryMap (queue_sync e si) = registryMap e" "recvChan (queue_sync e si) = recvChan e"
  "ep_cluster (queue_sync e si) = ep_cluster e"
  by (simp_all add: queue_sync_def split: option.splits)

lemma queue_sync_cap:
  "length (sendChan e) \<le> defaultSendChannelLen \<Longrightarrow> length (sendChan (queue_sync e si)) \<le> defaultSendChannelLen"
  by (auto simp: queue_sync_def split: option.splits dest: chan_try_send_cap)

lemma wf_NewEndpoint: "wf_Endpoint (NewEndpoint cl)"
  by (simp add: wf_Endpoint_def NewEndpoint_def)

lemma wf_put:
  "wf_Endpoint e \<Longrightarrow> reg_Name r = n \<Longrightarrow> k = reg_key r \<Longrightarrow>
     wf_Endpoint (e\<lparr>registryMap := HSet (registryMap e) n k r\<rparr>)"
  by (auto simp: wf_Endpoint_def HGet_HSet intro: wf_HSet split: if_splits)

lemma wf_rem: "wf_Endpoint e \<Longrightarrow> wf_Endpoint (e\<lparr>registryMap := HDel (registryMap e) n k\<rparr>)"
  by (auto simp: wf_Endpoint_def HGet_HDel intro: wf_HDel split: if_splits)

lemma wf_queue_sync: "wf_Endpoint e \<Longrightarrow> wf_Endpoint (queue_sync e si)"
  by (simp add: wf_Endpoint_def queue_sync_cap)

lemma wf_Register: "wf_Endpoint e \<Longrightarrow> wf_Endpoint (Register e ts name ip port weight extra)"
  unfolding Register_def Let_def
  by (intro wf_queue_sync wf_put) (auto simp: wf_Endpoint_def reg_key_def split: option.splits)

lemma wf_Evict: "wf_Endpoint e \<Longrightarrow> wf_Endpoint (Evict e name ip port)"
  unfolding Evict_def Let_def by (intro wf_queue_sync wf_rem)

lemma wf_refresh_reg: "wf_Endpoint e \<Longrightarrow> reg_Name r = name \<Longrightarrow> wf_Endpoint (refresh_reg now name e r)"
  unfolding refresh_reg_def Let_def by (auto intro!: wf_put wf_Evict simp: reg_key_def)

lemma wf_apply_sync: "wf_Endpoint e \<Longrightarrow> wf_Endpoint (apply_sync e si)"
  unfolding apply_sync_def Let_def by (auto intro!: wf_put wf_rem simp: reg_key_def)

lemma wf_Recv: "wf_Endpoint e \<Longrightarrow> Recv e ti = Some e' \<Longrightarrow> wf_Endpoint e'"
  by (auto simp: Recv_def wf_Endpoint_def split: option.splits dest: chan_try_send_cap)

lemma wf_syncRecv_step: "wf_Endpoint e \<Longrightarrow> wf_Endpoint (syncRecv_step e)"
  unfolding syncRecv_step_def
proof (split list.split, intro conjI impI allI)
  fix ti rest assume "wf_Endpoint e" "recvChan e = ti # rest"
  then have "wf_Endpoint (e\<lparr>recvChan := rest\<rparr>)" by (simp add: wf_Endpoint_def)
  then show "wf_Endpoint (foldl apply_sync (e\<lparr>recvChan := rest\<rparr>) (ti_Data ti))"
    by (rule foldl_invariant) (rule wf_apply_sync)
qed

lemma snapshot_names:
  assumes "wf_Endpoint e" "sm_Get (registryMap e) name = Some regMap"
  shows "wf_gomap regMap" "list_all (\<lambda>(k, r). reg_Name r = name \<and> k = reg_key r) regMap"
    "map_of regMap = HGet (registryMap e) name"
proof -
  have wf: "wf_SafeMap (registryMap e)" using assms(1) by (simp add: wf_Endpoint_def)
  show m: "wf_gomap regMap" "map_of regMap = HGet (registryMap e) name"
    using smap.getall_Some[OF wf assms(2)] by simp_all
  show "list_all (\<lambda>(k, r). reg_Name r = name \<and> k = reg_key r) regMap"
  proof (clarsimp simp: list_all_iff)
    fix k r assume "(k, r) \<in> set regMap"
    then have "HGet (registryMap e) name k = Some r" using m map_of_Some_iff by metis
    then show "reg_Name r = name \<and> k = reg_key r" using assms(1) by (simp add: wf_Endpoint_def)
  qed
qed

lemma wf_refresh_fold:
  "wf_Endpoint e \<Longrightarrow> list_all (\<lambda>(k, r). reg_Name r = name \<and> k = reg_key r) regMap \<Longrightarrow>
     wf_Endpoint (foldl (\<lambda>e (k, r). refresh_reg now name e r) e regMap)"
  by (induction regMap arbitrary: e) (auto intro: wf_refresh_reg)

lemma wf_refresh_name: "wf_Endpoint e \<Longrightarrow> wf_Endpoint (refresh_name now e name)"
  unfolding refresh_name_def
  by (cases "sm_Get (registryMap e) name") (auto intro: wf_refresh_fold dest: snapshot_names)

lemma wf_registryRefresh_tick: "wf_Endpoint e \<Longrightarrow> wf_Endpoint (registryRefresh_tick e now)"
  unfolding registryRefresh_tick_def by (erule foldl_invariant) (rule wf_refresh_name)

lemmas wf_Endpoint_ops [wf_intros] = wf_NewEndpoint wf_Register wf_Evict wf_registryRefresh_tick
  wf_syncRecv_step wf_Recv

section \<open>The refresh tick\<close>

text \<open>What a tick makes of one instance: a grade per started quarter of a minute, or eviction.\<close>

definition refreshed :: "int \<Rightarrow> Registry \<Rightarrow> Registry option" where
  "refreshed now r =
     (let d = wrap64 (now - reg_UpdateAt r)
      in if d > 105 then None
         else Some (r\<lparr>reg_Status := (if d \<le> 45 then 0 else (d - 31) div 15)\<rparr>))"

lemma HGet_refresh_reg:
  "HGet (registryMap (refresh_reg now name e r)) n k =
     (if n = name \<and> k = reg_key r then refreshed now r else HGet (registryMap e) n k)"
proof -
  have q: "(d - 31) div 15 = j" if "15 * j + 31 \<le> d" "d \<le> 15 * j + 45" for d j :: int
    using that by linarith
  show ?thesis
    unfolding refresh_reg_def refreshed_def Let_def
    using q[of 1] q[of 2] q[of 3] q[of 4]
    by (auto simp: HGet_HSet HGet_HDel reg_key_def Evict_def StatusGreen_def StatusBlue_def
        StatusYellow_def StatusOrange_def StatusRed_def)
qed

lemma HGet_refresh_fold:
  assumes "wf_gomap regMap" "list_all (\<lambda>(k, r). reg_Name r = name \<and> k = reg_key r) regMap"
  shows "HGet (registryMap (foldl (\<lambda>e (k, r). refresh_reg now name e r) e regMap)) n k =
     (if n = name then (case map_of regMap k of Some r \<Rightarrow> refreshed now r | None \<Rightarrow> HGet (registryMap e) n k)
      else HGet (registryMap e) n k)"
  using assms
proof (induction regMap arbitrary: e)
  case (Cons p regMap)
  obtain k' r where p: "p = (k', r)" by (cases p)
  have "k' \<notin> dom (map_of regMap)" using Cons.prems p by (simp add: dom_map_of_conv_image_fst)
  then have "map_of regMap k' = None" by blast
  then show ?case using Cons p by (auto simp: HGet_refresh_reg split: option.splits)
qed simp

lemma HGet_refresh_name:
  assumes "wf_Endpoint e"
  shows "HGet (registryMap (refresh_name now e name)) n k =
     (if n = name then Option.bind (HGet (registryMap e) n k) (refreshed now) else HGet (registryMap e) n k)"
proof (cases "sm_Get (registryMap e) name")
  case None
  then have "HGet (registryMap e) name k = None" using assms smap.getall_None wf_Endpoint_def by blast
  then show ?thesis using None by (simp add: refresh_name_def)
next
  case (Some regMap)
  then show ?thesis using HGet_refresh_fold snapshot_names[OF assms Some]
    by (simp add: refresh_name_def split: option.splits)
qed

lemma HGet_refresh_names:
  assumes "wf_Endpoint e" "distinct names"
  shows "HGet (registryMap (foldl (refresh_name now) e names)) n k =
     (if n \<in> set names then Option.bind (HGet (registryMap e) n k) (refreshed now)
      else HGet (registryMap e) n k)"
  using assms
  by (induction names arbitrary: e) (auto simp: HGet_refresh_name wf_refresh_name)

lemma HGet_registryRefresh_tick:
  assumes "wf_Endpoint e"
  shows "HGet (registryMap (registryRefresh_tick e now)) n k =
     Option.bind (HGet (registryMap e) n k) (refreshed now)"
proof -
  have wf: "wf_SafeMap (registryMap e)" using assms by (simp add: wf_Endpoint_def)
  have "n \<notin> set (sm_Keys (registryMap e)) \<Longrightarrow> HGet (registryMap e) n k = None"
    using smap.keys_iff[OF wf, of n] by (metis not_None_eq)
  then show ?thesis using HGet_refresh_names[OF assms] smap.keys_iff[OF wf]
    by (auto simp: registryRefresh_tick_def)
qed

text \<open>
  One tick of registryRefresh at time now grades every instance by the seconds since its last
  heartbeat: green up to 45, then one grade worse for every started 15 seconds, red up to 105, and
  evicted beyond; nothing else of any instance changes and no instance appears.
\<close>

theorem registryRefresh_grades:
  assumes "wf_Endpoint e"
  shows "HGet (registryMap (registryRefresh_tick e now)) n k =
     (case HGet (registryMap e) n k of
        None \<Rightarrow> None
      | Some r \<Rightarrow>
          let d = wrap64 (now - reg_UpdateAt r)
          in if d > 105 then None
             else Some (r\<lparr>reg_Status := (if d \<le> 45 then 0 else (d - 31) div 15)\<rparr>))"
  using HGet_registryRefresh_tick[OF assms] by (simp add: refreshed_def split: option.splits)

theorem registryRefresh_grades_witness:
  "HGet (registryMap (registryRefresh_tick
      (Register (NewEndpoint (NewConfigCluster ''a'')) 1000 ''svc'' ''h'' 80 1 []) 1070)) ''svc'' ''h:80''
   = Some \<lparr>reg_Name = ''svc'', reg_Ip = ''h'', reg_Port = 80, reg_Status = 2, reg_CreateAt = 1000,
       reg_UpdateAt = 1000, reg_Weight = 1, reg_Extra = []\<rparr>"
proof -
  have k: "host_port ''h'' 80 = ''h:80''"
    by code_simp
  have g: "HGet (registryMap (Register (NewEndpoint (NewConfigCluster ''a'')) 1000 ''svc'' ''h'' 80 1 [])) ''svc'' ''h:80''
      = Some \<lparr>reg_Name = ''svc'', reg_Ip = ''h'', reg_Port = 80, reg_Status = 0, reg_CreateAt = 1000,
       reg_UpdateAt = 1000, reg_Weight = 1, reg_Extra = []\<rparr>"
    by (simp add: Register_def Let_def k HGet_HSet NewEndpoint_def StatusGreen_def)
  show ?thesis
    using registryRefresh_grades[OF wf_Register[OF wf_NewEndpoint, of "NewConfigCluster ''a''" 1000 "''svc''" "''h''" 80 1 "[]"],
        of 1070 "''svc''" "''h:80''"] by (simp add: g wrap64_id)
qed

section \<open>Batches of changes\<close>

interpretation sync_batches: batcher syncSend_step defaultMergeNum
proof (unfold_locales, goal_cases)
  case (1 pending ev pending' out)
  then show ?case by (cases ev) (auto simp: Let_def split: if_splits)
next
  case (2 pending ev pending' out)
  then show ?case by (cases ev) (auto simp: Let_def split: if_splits)
next
  case (3 pending ev pending' b)
  then show ?case by (cases ev) (auto simp: Let_def split: if_splits)
next
  case (4 pending pending' out)
  then show ?case by (auto split: if_splits)
qed

text \<open>
  However changes and ticks interleave, syncSend sends every change it received, in order and
  without duplicates, in batches of 1 to 100; fewer than 100 wait for the next tick, and after a
  tick none waits.
\<close>

theorem syncSend_no_loss:
  "case run_batches syncSend_step [] evs of (pending, batches) \<Rightarrow>
     concat batches @ pending = concat (map opt_list evs) \<and> length pending < 100
     \<and> list_all (\<lambda>b. 0 < length b \<and> length b \<le> 100) batches
     \<and> fst (run_batches syncSend_step [] (evs @ [None])) = []"
proof -
  obtain p os where r: "run_batches syncSend_step [] evs = (p, os)"
    by (cases "run_batches syncSend_step [] evs")
  obtain p' os' where t: "run_batches syncSend_step [] (evs @ [None]) = (p', os')"
    by (cases "run_batches syncSend_step [] (evs @ [None])")
  show ?thesis
    using r t sync_batches.run_conserves[OF r] sync_batches.run_bounds[OF r]
      sync_batches.run_tick_flushes[OF t]
    by (auto simp: defaultMergeNum_def list_all_iff)
qed

end
