(* ===== verification/RegistryHandlers.thy ===== *)
theory RegistryHandlers
  imports Endpoint
begin

text \<open>
  The HTTP handlers of \<open>server/service_discovery/server/handler/registry.go\<close> over the endpoint.  The
  outcome of gin's \<open>BindJSON\<close> is an argument (\<^const>\<open>None\<close> is a binding error), as are the query
  parameters.  A reply is its status code, its message and its data.
\<close>

datatype 'a reply = Reply nat string "'a option"

record RegisterInfo =
  ri_Name :: string
  ri_Ip :: string
  ri_Port :: int
  ri_Weight :: int
  ri_Extra :: "(string, json) gomap"

record EvictInfo =
  ei_Name :: string
  ei_Ip :: string
  ei_Port :: int

definition h_Register :: "Endpoint \<Rightarrow> int \<Rightarrow> RegisterInfo option \<Rightarrow> Endpoint \<times> unit reply" where
  "h_Register EI now post =
     (case post of
        None \<Rightarrow> (EI, Reply 400 ''post data error'' None)
      | Some ri \<Rightarrow> (Register EI now (ri_Name ri) (ri_Ip ri) (ri_Port ri) (ri_Weight ri) (ri_Extra ri),
                    Reply 200 ''ok'' None))"

definition h_Evict :: "Endpoint \<Rightarrow> EvictInfo option \<Rightarrow> Endpoint \<times> unit reply" where
  "h_Evict EI post =
     (case post of
        None \<Rightarrow> (EI, Reply 400 ''post data error'' None)
      | Some ei \<Rightarrow> (Evict EI (ei_Name ei) (ei_Ip ei) (ei_Port ei), Reply 200 ''ok'' None))"

definition h_Sync :: "Endpoint \<Rightarrow> TransInfo option \<Rightarrow> Endpoint \<times> unit reply" where
  "h_Sync EI post =
     (case post of
        None \<Rightarrow> (EI, Reply 400 ''post data error'' None)
      | Some ti \<Rightarrow> (case Recv EI ti of
           None \<Rightarrow> (EI, Reply 503 ''recv channel is block'' None)
         | Some EI' \<Rightarrow> (EI', Reply 200 ''ok'' None)))"

definition defaultFetchCount :: int where "defaultFetchCount = 100"

definition h_Fetch ::
  "(nat \<Rightarrow> int \<Rightarrow> int) \<Rightarrow> Endpoint \<Rightarrow> string \<Rightarrow> string \<Rightarrow> string \<Rightarrow> (panic + Registry list reply) option" where
  "h_Fetch rnd EI name mode cnt =
     (if name = [] then Some (Inr (Reply 400 ''no server name'' None))
      else
        let fa = (if mode = ''min'' then (\<lambda>items n. Some (Inr (FetchMinN items n)))
                  else if mode = ''max'' then (\<lambda>items n. Some (Inr (FetchMaxN items n)))
                  else if mode = ''rand'' then FetchRandomN rnd
                  else (\<lambda>items n. Some (Inr (FetchMinN items n))));
            n0 = fst (ParseInt cnt);
            n = (if n0 = 0 then 5 else n0)
        in if n > defaultFetchCount then Some (Inr (Reply 400 ''fetch count out of limit'' None))
           else case Fetch EI name n fa of
                  None \<Rightarrow> None
                | Some (Inl p) \<Rightarrow> Some (Inl p)
                | Some (Inr None) \<Rightarrow>
                    Some (Inr (Reply 503 (''fetch registry error: server '' @ name @ '' no instance'') None))
                | Some (Inr (Some regs)) \<Rightarrow> Some (Inr (Reply 200 ''ok'' (Some regs))))"

definition h_RegistryDetail :: "Endpoint \<Rightarrow> string \<Rightarrow> Registry list reply" where
  "h_RegistryDetail EI name =
     (if name = [] then Reply 400 ''no server name'' None
      else Reply 200 ''ok'' (Some (ep_RegistryDetail EI name)))"

definition h_RegistryList :: "Endpoint \<Rightarrow> string list reply" where
  "h_RegistryList EI = Reply 200 ''ok'' (Some (ep_RegistryList EI))"

definition h_RegistrySummary :: "Endpoint \<Rightarrow> (string, nat) gomap reply" where
  "h_RegistrySummary EI = Reply 200 ''ok'' (Some (ep_RegistrySummary EI))"

section \<open>What the readers see\<close>

lemma foldl_items:
  "foldl (\<lambda>items (k, reg). items @ [\<lparr>Score = reg_Weight reg, Data = reg\<rparr>]) acc regMap =
     acc @ map (\<lambda>(k, reg). \<lparr>Score = reg_Weight reg, Data = reg\<rparr>) regMap"
  by (induction regMap arbitrary: acc) auto

lemma foldl_data: "foldl (\<lambda>regs i. regs @ [Data i]) acc r = acc @ map Data r"
  by (induction r arbitrary: acc) auto

lemma Fetch_registered:
  assumes wf: "wf_Endpoint e"
    and fa: "\<And>items r. fa items n = Some (Inr r) \<Longrightarrow> int (length r) \<le> max 0 n \<and> set r \<subseteq> set items"
    and res: "Fetch e name n fa = Some (Inr (Some regs))"
  shows "int (length regs) \<le> max 0 n"
    "\<forall>r \<in> set regs. reg_Name r = name \<and> HGet (registryMap e) name (reg_key r) = Some r"
proof -
  obtain regMap r where get: "sm_Get (registryMap e) name = Some regMap"
    and r: "fa (map (\<lambda>(k, reg). \<lparr>Score = reg_Weight reg, Data = reg\<rparr>) regMap) n = Some (Inr r)"
    and regs: "regs = map Data r"
    using res by (auto simp: Fetch_def foldl_items foldl_data split: option.splits sum.splits)
  show "int (length regs) \<le> max 0 n" using fa[OF r] regs by simp
  note s = snapshot_names[OF wf get]
  show "\<forall>r \<in> set regs. reg_Name r = name \<and> HGet (registryMap e) name (reg_key r) = Some r"
  proof
    fix x assume "x \<in> set regs"
    then obtain k where "(k, x) \<in> set regMap" using fa[OF r] regs by auto
    then show "reg_Name x = name \<and> HGet (registryMap e) name (reg_key x) = Some x"
      using s map_of_Some_iff[OF s(1)] by (auto simp: list_all_iff)
  qed
qed

lemma FetchMinN_bounds: "int (length (FetchMinN items n)) \<le> max 0 n \<and> set (FetchMinN items n) \<subseteq> set items"
  by (auto simp: FetchMinN_conv sort_items_def dest: in_set_takeD)

lemma FetchMaxN_bounds: "int (length (FetchMaxN items n)) \<le> max 0 n \<and> set (FetchMaxN items n) \<subseteq> set items"
  by (auto simp: FetchMaxN_conv sort_items_def)

text \<open>
  Whatever the name, mode and count parameters and whatever the random numbers are, a
  successful Fetch replies with at most 100 instances, each of which is registered under the
  requested name with the data it replies.
\<close>

theorem h_Fetch_sound:
  assumes "wf_Endpoint EI" "h_Fetch rnd EI name mode cnt = Some (Inr (Reply 200 msg (Some regs)))"
  shows "length regs \<le> 100 \<and>
     list_all (\<lambda>r. reg_Name r = name \<and> HGet (registryMap EI) name (host_port (reg_Ip r) (reg_Port r)) = Some r) regs"
proof -
  define n where "n = (if fst (ParseInt cnt) = 0 then 5 else fst (ParseInt cnt))"
  define fa :: fetch_algorithm where
    "fa = (if mode = ''min'' then (\<lambda>items n. Some (Inr (FetchMinN items n)))
           else if mode = ''max'' then (\<lambda>items n. Some (Inr (FetchMaxN items n)))
           else if mode = ''rand'' then FetchRandomN rnd
           else (\<lambda>items n. Some (Inr (FetchMinN items n))))"
  have f: "Fetch EI name n fa = Some (Inr (Some regs)) \<and> n \<le> 100"
    using assms(2) unfolding h_Fetch_def Let_def n_def[symmetric] fa_def[symmetric] defaultFetchCount_def
    by (auto split: if_splits option.splits sum.splits)
  have fa: "fa items n = Some (Inr r) \<Longrightarrow> int (length r) \<le> max 0 n \<and> set r \<subseteq> set items" for items r
    using FetchMinN_bounds[of items n] FetchMaxN_bounds[of items n] FetchRandomN_bounds[of rnd items n r]
    by (auto simp: fa_def split: if_splits)
  have "int (length regs) \<le> max 0 n"
    "\<forall>r \<in> set regs. reg_Name r = name \<and> HGet (registryMap EI) name (reg_key r) = Some r"
    using Fetch_registered[OF assms(1) fa] f by blast+
  then show ?thesis using f by (auto simp: list_all_iff reg_key_def)
qed

theorem h_Fetch_sound_witness:
  "let EI = Register (NewEndpoint (NewConfigCluster ''a'')) 1000 ''svc'' ''h'' 80 1 [];
       r = \<lparr>reg_Name = ''svc'', reg_Ip = ''h'', reg_Port = 80, reg_Status = 0, reg_CreateAt = 1000,
            reg_UpdateAt = 1000, reg_Weight = 1, reg_Extra = []\<rparr>
   in h_Fetch rr_draw EI ''svc'' ''min'' [] = Some (Inr (Reply 200 ''ok'' (Some [r])))
      \<and> HGet (registryMap EI) ''svc'' (host_port ''h'' 80) = Some r"
proof -
  let ?EI = "Register (NewEndpoint (NewConfigCluster ''a'')) 1000 ''svc'' ''h'' 80 1 []"
  let ?r = "\<lparr>reg_Name = ''svc'', reg_Ip = ''h'', reg_Port = 80, reg_Status = 0, reg_CreateAt = 1000,
            reg_UpdateAt = 1000, reg_Weight = 1, reg_Extra = []\<rparr>"
  have g: "sm_Get (registryMap ?EI) ''svc'' = Some [(host_port ''h'' 80, ?r)]"
    by (simp add: Register_def Let_def NewEndpoint_def HSet_def HGet_def NewSafeMap_def sm_Get_def StatusGreen_def)
  have "h_Fetch rr_draw ?EI ''svc'' ''min'' [] = Some (Inr (Reply 200 ''ok'' (Some [?r])))"
    by (simp add: h_Fetch_def ParseInt_def defaultFetchCount_def Fetch_def g FetchMinN_conv sort_items_def)
  then show ?thesis
    using h_Fetch_sound[OF wf_Register[OF wf_NewEndpoint], of rr_draw "NewConfigCluster ''a''" 1000 "''svc''" "''h''" 80 1 "[]"
        "''svc''" "''min''" "[]" "''ok''" "[?r]"]
    by (simp add: Let_def)
qed

text \<open>The summary of every name is the number of its instances.\<close>

lemma ep_RegistrySummary_spec:
  assumes "wf_Endpoint e"
  shows "map_of (ep_RegistrySummary e) name =
     (if \<exists>k. HGet (registryMap e) name k \<noteq> None then Some (card {k. HGet (registryMap e) name k \<noteq> None}) else None)"
proof -
  have wf: "wf_SafeMap (registryMap e)" using assms by (simp add: wf_Endpoint_def)
  have "map_of (ep_RegistrySummary e) name =
      (if name \<in> set (sm_Keys (registryMap e)) then Some (HLen (registryMap e) name) else None)"
    using foldl_mput_map_of[of "\<lambda>x. x" "\<lambda>x. HLen (registryMap e) x" "[]" "sm_Keys (registryMap e)" name]
    by (auto simp: ep_RegistrySummary_def find_None_iff dest: find_SomeD split: option.splits)
  then show ?thesis using observers_agree(2)[OF wf] HLen_card[OF wf] by simp
qed

lemma ep_RegistryDetail_spec:
  assumes "wf_Endpoint e"
  shows "set (ep_RegistryDetail e name) = {r. \<exists>k. HGet (registryMap e) name k = Some r}"
proof (cases "sm_Get (registryMap e) name")
  case None
  then have "HGet (registryMap e) name k = None" for k
    using assms smap.getall_None unfolding wf_Endpoint_def by blast
  then show ?thesis using None by (simp add: ep_RegistryDetail_def)
next
  case (Some regMap)
  have "foldl (\<lambda>regs (k, reg). regs @ [reg]) acc xs = acc @ map snd xs" for acc and xs :: "(string, Registry) gomap"
    by (induction xs arbitrary: acc) auto
  then have "ep_RegistryDetail e name = map snd regMap" by (simp add: ep_RegistryDetail_def Some)
  then have "set (ep_RegistryDetail e name) = {r. \<exists>k. map_of regMap k = Some r}"
    using map_of_Some_iff[OF snapshot_names(1)[OF assms Some]] by force
  then show ?thesis by (simp add: snapshot_names(3)[OF assms Some])
qed

text \<open>
  Registering through the handler and reading back: after a successful Register request the
  detail reply of the service contains the instance with the posted weight and the current time,
  the name is listed, and an Evict request for it removes exactly that instance again.
\<close>

lemma register_then_read:
  assumes "wf_Endpoint EI" "ri_Name ri \<noteq> []"
  shows "case h_Register EI now (Some ri) of (EI', rep) \<Rightarrow>
     rep = Reply 200 ''ok'' None
     \<and> (\<exists>r regs. h_RegistryDetail EI' (ri_Name ri) = Reply 200 ''ok'' (Some regs) \<and> r \<in> set regs
          \<and> reg_Ip r = ri_Ip ri \<and> reg_Port r = ri_Port ri \<and> reg_Weight r = ri_Weight ri \<and> reg_UpdateAt r = now)
     \<and> (\<exists>names. h_RegistryList EI' = Reply 200 ''ok'' (Some names) \<and> ri_Name ri \<in> set names)
     \<and> (\<forall>n k. HGet (registryMap (fst (h_Evict EI' (Some \<lparr>ei_Name = ri_Name ri, ei_Ip = ri_Ip ri, ei_Port = ri_Port ri\<rparr>)))) n k =
          (if n = ri_Name ri \<and> k = host_port (ri_Ip ri) (ri_Port ri) then None else HGet (registryMap EI) n k))"
proof -
  let ?EI' = "Register EI now (ri_Name ri) (ri_Ip ri) (ri_Port ri) (ri_Weight ri) (ri_Extra ri)"
  let ?k = "host_port (ri_Ip ri) (ri_Port ri)"
  have wf': "wf_Endpoint ?EI'" using assms(1) by (rule wf_Register)
  have old: "HGet (registryMap EI) (ri_Name ri) ?k = Some r \<Longrightarrow> reg_Ip r = ri_Ip ri \<and> reg_Port r = ri_Port ri" for r
    using assms(1) unfolding wf_Endpoint_def reg_key_def by (metis host_port_inject)
  obtain r where r: "\<And>n k. HGet (registryMap ?EI') n k =
      (if n = ri_Name ri \<and> k = ?k then Some r else HGet (registryMap EI) n k)"
    and d: "reg_Ip r = ri_Ip ri \<and> reg_Port r = ri_Port ri \<and> reg_Weight r = ri_Weight ri \<and> reg_UpdateAt r = now"
    using old by (cases "HGet (registryMap EI) (ri_Name ri) ?k") (auto simp: Register_def Let_def HGet_HSet)
  have g: "HGet (registryMap ?EI') (ri_Name ri) ?k = Some r" by (simp add: r)
  then have "r \<in> set (ep_RegistryDetail ?EI' (ri_Name ri))"
    unfolding ep_RegistryDetail_spec[OF wf'] by blast
  moreover have "ri_Name ri \<in> set (ep_RegistryList ?EI')"
    unfolding ep_RegistryList_def using smap.keys_iff wf' g unfolding wf_Endpoint_def by blast
  moreover have "HGet (registryMap (Evict ?EI' (ri_Name ri) (ri_Ip ri) (ri_Port ri))) n k =
      (if n = ri_Name ri \<and> k = ?k then None else HGet (registryMap EI) n k)" for n k
    by (simp add: Evict_def Let_def HGet_HDel r)
  ultimately show ?thesis using d assms(2)
    by (auto simp: h_Register_def h_RegistryDetail_def h_RegistryList_def h_Evict_def)
qed

end
