(* ===== verification/RegistryRace.thy ===== *)
theory RegistryRace
  imports Endpoint
begin

text \<open>
  The goroutines of a service discovery node on one registry: the handler calls (heartbeats and evictions), the refresh loop,
  the loop that works off the received batches and the one that sends.  \<open>reg_step\<close> interleaves them; each rule is one critical
  section of the SafeMap's mutex or one operation on a channel.  So a heartbeat is three steps (\<open>HGet\<close>, \<open>HSet\<close>, the queueing of
  the change), an eviction is two, and the refresh loop reads a service (\<open>Get\<close>) in one step and writes each of its instances
  back in a later one.
\<close>

record RefreshThread =
  rt_now :: int
  rt_names :: "string list"
  rt_cur :: string
  rt_todo :: "Registry list"

text \<open>
  A call under way: a heartbeat that has read the map, or a change that is in the map and not yet queued for the other
  nodes, made by a handler or by the refresh loop.
\<close>

datatype caller = Handler | Refresher

datatype inflight =
    HbGot int string string int int "(string, json) gomap" "Registry option"
  | ToQueue caller SyncInfo

text \<open>The state; \<open>rs_recv\<close> is the rest of the batch that is worked off, \<open>rs_sent\<close> what \<open>syncSend\<close> has taken from the channel.\<close>

record race_state =
  rs_ep :: Endpoint
  rs_refresh :: RefreshThread
  rs_calls :: "inflight list"
  rs_recv :: "SyncInfo list"
  rs_sent :: "SyncInfo list"

definition refresher_free :: "inflight list \<Rightarrow> bool" where
  "refresher_free cs \<longleftrightarrow> list_all (\<lambda>c. case c of ToQueue Refresher _ \<Rightarrow> False | _ \<Rightarrow> True) cs"

abbreviation register_msg :: "Registry \<Rightarrow> SyncInfo" where
  "register_msg r \<equiv> \<lparr>si_Action = registerAction, si_Registry = r\<rparr>"

abbreviation evict_msg :: "string \<Rightarrow> string \<Rightarrow> int \<Rightarrow> SyncInfo" where
  "evict_msg name ip port \<equiv> \<lparr>si_Action = evictAction, si_Registry = evict_registry name ip port\<rparr>"

abbreviation put_reg :: "Endpoint \<Rightarrow> string \<Rightarrow> string \<Rightarrow> Registry \<Rightarrow> Endpoint" where
  "put_reg e n k r \<equiv> e\<lparr>registryMap := HSet (registryMap e) n k r\<rparr>"

abbreviation del_reg :: "Endpoint \<Rightarrow> string \<Rightarrow> string \<Rightarrow> Endpoint" where
  "del_reg e n k \<equiv> e\<lparr>registryMap := HDel (registryMap e) n k\<rparr>"

inductive reg_step :: "race_state \<Rightarrow> race_state \<Rightarrow> bool" where
  hb_get: "reg_step s (s\<lparr>rs_calls := rs_calls s @
      [HbGot ts name ip port weight extra (HGet (registryMap (rs_ep s)) name (host_port ip port))]\<rparr>)"
| hb_set: "rs_calls s = as @ HbGot ts name ip port weight extra old # bs \<Longrightarrow>
    reg = heartbeat_reg ts name ip port weight extra old \<Longrightarrow>
    reg_step s (s\<lparr>rs_ep := put_reg (rs_ep s) name (host_port ip port) reg,
      rs_calls := as @ bs @ [ToQueue Handler (register_msg reg)]\<rparr>)"
| evict_del: "reg_step s (s\<lparr>rs_ep := del_reg (rs_ep s) name (host_port ip port),
      rs_calls := rs_calls s @ [ToQueue Handler (evict_msg name ip port)]\<rparr>)"
| queue: "rs_calls s = as @ ToQueue c si # bs \<Longrightarrow>
    reg_step s (s\<lparr>rs_ep := queue_sync (rs_ep s) si, rs_calls := as @ bs\<rparr>)"
| wake: "t = rs_refresh s \<Longrightarrow> refresher_free (rs_calls s) \<Longrightarrow> rt_names t = [] \<Longrightarrow> rt_todo t = [] \<Longrightarrow>
    reg_step s (s\<lparr>rs_refresh := t\<lparr>rt_now := now, rt_names := sm_Keys (registryMap (rs_ep s))\<rparr>\<rparr>)"
| snapshot: "t = rs_refresh s \<Longrightarrow> refresher_free (rs_calls s) \<Longrightarrow> rt_names t = n # ns \<Longrightarrow> rt_todo t = [] \<Longrightarrow>
    sm_Get (registryMap (rs_ep s)) n = Some regMap \<Longrightarrow>
    reg_step s (s\<lparr>rs_refresh := t\<lparr>rt_names := ns, rt_cur := n, rt_todo := map snd regMap\<rparr>\<rparr>)"
| gone: "t = rs_refresh s \<Longrightarrow> refresher_free (rs_calls s) \<Longrightarrow> rt_names t = n # ns \<Longrightarrow> rt_todo t = [] \<Longrightarrow>
    sm_Get (registryMap (rs_ep s)) n = None \<Longrightarrow>
    reg_step s (s\<lparr>rs_refresh := t\<lparr>rt_names := ns\<rparr>\<rparr>)"
| grade: "t = rs_refresh s \<Longrightarrow> refresher_free (rs_calls s) \<Longrightarrow> rt_todo t = r # rs \<Longrightarrow>
    wrap64 (rt_now t - reg_UpdateAt r) \<le> 105 \<Longrightarrow>
    reg_step s (s\<lparr>rs_ep := refresh_reg (rt_now t) (rt_cur t) (rs_ep s) r, rs_refresh := t\<lparr>rt_todo := rs\<rparr>\<rparr>)"
| expire: "t = rs_refresh s \<Longrightarrow> refresher_free (rs_calls s) \<Longrightarrow> rt_todo t = r # rs \<Longrightarrow>
    wrap64 (rt_now t - reg_UpdateAt r) > 105 \<Longrightarrow>
    reg_step s (s\<lparr>rs_ep := del_reg (rs_ep s) (rt_cur t) (host_port (reg_Ip r) (reg_Port r)),
      rs_calls := rs_calls s @ [ToQueue Refresher (evict_msg (rt_cur t) (reg_Ip r) (reg_Port r))],
      rs_refresh := t\<lparr>rt_todo := rs\<rparr>\<rparr>)"
| receive: "Recv (rs_ep s) ti = Some e' \<Longrightarrow> reg_step s (s\<lparr>rs_ep := e'\<rparr>)"
| recv_take: "rs_recv s = [] \<Longrightarrow> recvChan (rs_ep s) = ti # rest \<Longrightarrow>
    reg_step s (s\<lparr>rs_ep := (rs_ep s)\<lparr>recvChan := rest\<rparr>, rs_recv := ti_Data ti\<rparr>)"
| recv_apply: "rs_recv s = si # sis \<Longrightarrow> reg_step s (s\<lparr>rs_ep := apply_sync (rs_ep s) si, rs_recv := sis\<rparr>)"
| sent: "sendChan (rs_ep s) = si # rest \<Longrightarrow>
    reg_step s (s\<lparr>rs_ep := (rs_ep s)\<lparr>sendChan := rest\<rparr>, rs_sent := rs_sent s @ [si]\<rparr>)"

inductive_cases reg_stepE: "reg_step s s'"

inductive reg_reach :: "race_state \<Rightarrow> race_state \<Rightarrow> bool" where
  reach_refl: "reg_reach s s"
| reach_step: "reg_reach s s' \<Longrightarrow> reg_step s' s'' \<Longrightarrow> reg_reach s s''"

definition race_init :: "BaseCluster \<Rightarrow> race_state" where
  "race_init cl = \<lparr>rs_ep = NewEndpoint cl, rs_refresh = \<lparr>rt_now = 0, rt_names = [], rt_cur = [], rt_todo = []\<rparr>,
     rs_calls = [], rs_recv = [], rs_sent = []\<rparr>"

text \<open>A call that is not interrupted is the handler's operation.\<close>

lemma reach_Register:
  assumes "reg_reach s0 s" "rs_calls s = []"
  shows "reg_reach s0 (s\<lparr>rs_ep := Register (rs_ep s) ts name ip port weight extra\<rparr>)"
proof -
  let ?old = "HGet (registryMap (rs_ep s)) name (host_port ip port)"
  let ?reg = "heartbeat_reg ts name ip port weight extra ?old"
  let ?s1 = "s\<lparr>rs_calls := [HbGot ts name ip port weight extra ?old]\<rparr>"
  let ?s2 = "s\<lparr>rs_ep := put_reg (rs_ep s) name (host_port ip port) ?reg, rs_calls := [ToQueue Handler (register_msg ?reg)]\<rparr>"
  have 1: "reg_step s ?s1" using reg_step.hb_get[of s ts name ip port weight extra] assms(2) by (simp del: heartbeat_reg_def)
  have 2: "reg_step ?s1 ?s2"
    using reg_step.hb_set[of ?s1 "[]" ts name ip port weight extra ?old "[]" ?reg] by (simp del: heartbeat_reg_def)
  have 3: "reg_step ?s2 (s\<lparr>rs_ep := Register (rs_ep s) ts name ip port weight extra\<rparr>)"
    using reg_step.queue[of ?s2 "[]" Handler "register_msg ?reg" "[]"] assms(2)
    by (cases s) (simp add: Register_def Let_def del: heartbeat_reg_def)
  show ?thesis using assms(1) 1 2 3 by (meson reach_step)
qed

section \<open>The invariant holds under every interleaving\<close>

fun inflight_ok :: "inflight \<Rightarrow> bool" where
  "inflight_ok (HbGot ts name ip port weight extra old) \<longleftrightarrow>
     (\<forall>r. old = Some r \<longrightarrow> reg_Name r = name \<and> reg_key r = host_port ip port)"
| "inflight_ok (ToQueue c si) \<longleftrightarrow> True"

definition race_inv :: "race_state \<Rightarrow> bool" where
  "race_inv s \<longleftrightarrow> wf_Endpoint (rs_ep s) \<and> list_all inflight_ok (rs_calls s)
     \<and> list_all (\<lambda>r. reg_Name r = rt_cur (rs_refresh s)) (rt_todo (rs_refresh s))"

lemma race_inv_snapshot:
  "wf_Endpoint e \<Longrightarrow> sm_Get (registryMap e) n = Some regMap \<Longrightarrow>
     list_all (\<lambda>r. reg_Name r = n) (map snd regMap)"
  using snapshot_names(2)[of e n regMap] by (auto simp: list_all_iff)

lemma heartbeat_reg_key:
  "inflight_ok (HbGot ts name ip port weight extra old) \<Longrightarrow>
     reg_Name (heartbeat_reg ts name ip port weight extra old) = name
     \<and> reg_key (heartbeat_reg ts name ip port weight extra old) = host_port ip port"
  by (auto simp: reg_key_def split: option.splits)

lemma race_inv_step: "reg_step s s' \<Longrightarrow> race_inv s \<Longrightarrow> race_inv s'"
proof (induction rule: reg_step.induct)
  case (hb_get s ts name ip port weight extra)
  then show ?case by (auto simp: race_inv_def wf_Endpoint_def)
next
  case (hb_set s as ts name ip port weight extra old bs reg)
  have "reg_Name reg = name" "reg_key reg = host_port ip port"
    using heartbeat_reg_key[of ts name ip port weight extra old] hb_set by (auto simp: race_inv_def simp del: heartbeat_reg_def)
  then show ?case using hb_set by (auto simp: race_inv_def intro!: wf_put simp del: heartbeat_reg_def)
next
  case (snapshot t s n ns regMap)
  then show ?case using race_inv_snapshot[of "rs_ep s" n regMap] by (simp add: race_inv_def)
next
  case (grade t s r rs)
  then show ?case by (simp add: race_inv_def wf_refresh_reg)
next
  case (recv_take s ti rest)
  then show ?case by (simp add: race_inv_def wf_Endpoint_def)
next
  case (sent s si rest)
  then show ?case by (simp add: race_inv_def wf_Endpoint_def)
qed (auto simp: race_inv_def intro: wf_intros wf_rem wf_queue_sync wf_apply_sync)

lemma race_inv_reach: "reg_reach s s' \<Longrightarrow> race_inv s \<Longrightarrow> race_inv s'"
  by (induction rule: reg_reach.induct) (auto intro: race_inv_step)

lemma race_inv_init: "race_inv (race_init cl)"
  by (simp add: race_inv_def race_init_def wf_NewEndpoint)

text \<open>
  C9. Under every interleaving of the critical sections of heartbeats, evictions, received changes and
  the refresh loop, the registry stays well-formed: each instance is stored under its own service
  name and address, no service is left without instances, and neither channel exceeds its
  capacity.
\<close>

theorem registry_wf_interleaved:
  "reg_reach (race_init cl) s \<Longrightarrow>
     wf_SafeMap (registryMap (rs_ep s))
     \<and> (\<forall>n k r. HGet (registryMap (rs_ep s)) n k = Some r \<longrightarrow> reg_Name r = n \<and> k = host_port (reg_Ip r) (reg_Port r))
     \<and> length (sendChan (rs_ep s)) \<le> 8192 \<and> length (recvChan (rs_ep s)) \<le> 8192"
  using race_inv_reach[OF _ race_inv_init]
  by (fastforce simp: race_inv_def wf_Endpoint_def reg_key_def defaultSendChannelLen_def defaultRecvChannelLen_def)

section \<open>A heartbeat can be lost\<close>

definition hb_reg :: "int \<Rightarrow> int \<Rightarrow> Registry" where
  "hb_reg created updated =
     \<lparr>reg_Name = ''svc'', reg_Ip = ''h'', reg_Port = 80, reg_Status = 0, reg_CreateAt = created,
      reg_UpdateAt = updated, reg_Weight = 1, reg_Extra = []\<rparr>"

definition hb_call :: "Endpoint \<Rightarrow> int \<Rightarrow> Endpoint" where
  "hb_call e ts = Register e ts ''svc'' ''h'' 80 1 []"

lemma hb_key: "host_port ''h'' 80 = ''h:80''"
  by code_simp

lemma hb_call_new:
  "HGet (registryMap e) ''svc'' ''h:80'' = None \<Longrightarrow>
     registryMap (hb_call e ts) = HSet (registryMap e) ''svc'' ''h:80'' (hb_reg ts ts)"
  by (simp add: hb_call_def Register_def Let_def hb_key hb_reg_def StatusGreen_def)

lemma hb_call_again:
  "HGet (registryMap e) ''svc'' ''h:80'' = Some (hb_reg c u) \<Longrightarrow>
     registryMap (hb_call e ts) = HSet (registryMap e) ''svc'' ''h:80'' (hb_reg c ts)"
  by (simp add: hb_call_def Register_def Let_def hb_key hb_reg_def)

theorem registry_wf_interleaved_witness:
  "let e = hb_call (NewEndpoint (NewConfigCluster ''a'')) 1000
   in HGet (registryMap e) ''svc'' ''h:80'' = Some (hb_reg 1000 1000)
      \<and> wf_SafeMap (registryMap e) \<and> length (sendChan e) \<le> 8192"
proof -
  let ?e = "hb_call (NewEndpoint (NewConfigCluster ''a'')) 1000"
  have "reg_reach (race_init (NewConfigCluster ''a'')) ((race_init (NewConfigCluster ''a''))\<lparr>rs_ep := ?e\<rparr>)"
    using reach_Register[OF reach_refl, of "race_init (NewConfigCluster ''a'')" 1000 "''svc''" "''h''" 80 1 "[]"]
    by (simp add: race_init_def hb_call_def)
  moreover have "HGet (registryMap ?e) ''svc'' ''h:80'' = Some (hb_reg 1000 1000)"
    by (subst hb_call_new) (simp_all add: NewEndpoint_def HGet_HSet)
  ultimately show ?thesis
    using registry_wf_interleaved[of "NewConfigCluster ''a''" "(race_init (NewConfigCluster ''a''))\<lparr>rs_ep := ?e\<rparr>"]
    by (simp add: Let_def)
qed

text \<open>
  A heartbeat can be lost: there is a run in which an instance that registered at 1000 sends a
  heartbeat at 1040 while the refresh loop works on its snapshot, and after the loop has written
  the snapshot back the instance is stored as last seen at 1000; at 1110 it is evicted although
  its last heartbeat is only 70 seconds old.
\<close>

theorem heartbeat_lost:
  "\<exists>s s' e2. reg_reach (race_init cl) s
     \<and> reg_reach s (s\<lparr>rs_ep := Register (rs_ep s) 1040 ''svc'' ''h'' 80 1 []\<rparr>)
     \<and> reg_step (s\<lparr>rs_ep := Register (rs_ep s) 1040 ''svc'' ''h'' 80 1 []\<rparr>) s' \<and> e2 = rs_ep s'
     \<and> map_option reg_UpdateAt (HGet (registryMap (Register (rs_ep s) 1040 ''svc'' ''h'' 80 1 [])) ''svc'' ''h:80'') = Some 1040
     \<and> map_option reg_UpdateAt (HGet (registryMap e2) ''svc'' ''h:80'') = Some 1000
     \<and> HGet (registryMap (registryRefresh_tick e2 1110)) ''svc'' ''h:80'' = None"
proof -
  let ?e1 = "hb_call (NewEndpoint cl) 1000"
  let ?sa = "(race_init cl)\<lparr>rs_ep := ?e1\<rparr>"
  let ?t1 = "\<lparr>rt_now = 1030, rt_names = [''svc''], rt_cur = [], rt_todo = []\<rparr>"
  let ?t2 = "\<lparr>rt_now = 1030, rt_names = [], rt_cur = ''svc'', rt_todo = [hb_reg 1000 1000]\<rparr>"
  let ?s = "?sa\<lparr>rs_refresh := ?t2\<rparr>"
  have m1: "registryMap ?e1 = \<lparr>sm_name = ''registry'', dataMap = [(''svc'', [(''h:80'', hb_reg 1000 1000)])]\<rparr>"
    by (subst hb_call_new) (simp_all add: NewEndpoint_def HGet_def HSet_def NewSafeMap_def)
  have "reg_reach (race_init cl) ?sa"
    using reach_Register[OF reach_refl, of "race_init cl" 1000 "''svc''" "''h''" 80 1 "[]"] by (simp add: race_init_def hb_call_def)
  moreover have "reg_step ?sa (?sa\<lparr>rs_refresh := ?t1\<rparr>)"
    using reg_step.wake[of "rs_refresh ?sa" ?sa 1030] by (simp add: m1 sm_Keys_def race_init_def refresher_free_def)
  moreover have "reg_step (?sa\<lparr>rs_refresh := ?t1\<rparr>) ?s"
    using reg_step.snapshot[of ?t1 "?sa\<lparr>rs_refresh := ?t1\<rparr>" "''svc''" "[]" "[(''h:80'', hb_reg 1000 1000)]"]
    by (simp add: m1 sm_Get_def race_init_def refresher_free_def)
  ultimately have reach: "reg_reach (race_init cl) ?s" by (meson reach_step)
  let ?e2 = "hb_call ?e1 1040" and ?e3 = "refresh_reg 1030 ''svc'' (hb_call ?e1 1040) (hb_reg 1000 1000)"
  have hb: "reg_reach ?s (?s\<lparr>rs_ep := Register (rs_ep ?s) 1040 ''svc'' ''h'' 80 1 []\<rparr>)"
    by (rule reach_Register[OF reach_refl]) (simp add: race_init_def)
  have r: "Register (rs_ep ?s) 1040 ''svc'' ''h'' 80 1 [] = ?e2" by (simp add: hb_call_def)
  let ?s3 = "?s\<lparr>rs_ep := ?e3, rs_refresh := ?t2\<lparr>rt_todo := []\<rparr>\<rparr>"
  have wb: "reg_step (?s\<lparr>rs_ep := Register (rs_ep ?s) 1040 ''svc'' ''h'' 80 1 []\<rparr>) ?s3"
    using reg_step.grade[of ?t2 "?s\<lparr>rs_ep := ?e2\<rparr>" "hb_reg 1000 1000" "[]"] unfolding r
    by (simp add: race_init_def refresher_free_def hb_reg_def wrap64_id)
  have g1: "HGet (registryMap ?e1) ''svc'' ''h:80'' = Some (hb_reg 1000 1000)" by (simp add: m1 HGet_def)
  have g2: "HGet (registryMap ?e2) ''svc'' ''h:80'' = Some (hb_reg 1000 1040)"
    using hb_call_again[OF g1] by (simp add: HGet_HSet)
  have g3: "HGet (registryMap ?e3) ''svc'' ''h:80'' = Some (hb_reg 1000 1000)"
    using HGet_refresh_reg[of 1030 "''svc''" ?e2 "hb_reg 1000 1000" "''svc''" "''h:80''"] hb_key
    by (simp add: reg_key_def refreshed_def hb_reg_def wrap64_id)
  have "wf_Endpoint ?e3"
    unfolding hb_call_def by (intro wf_refresh_reg wf_Register wf_NewEndpoint) (simp add: hb_reg_def)
  then have g4: "HGet (registryMap (registryRefresh_tick ?e3 1110)) ''svc'' ''h:80'' = None"
    by (simp add: HGet_registryRefresh_tick g3) (simp add: refreshed_def hb_reg_def wrap64_id)
  have "map_option reg_UpdateAt (HGet (registryMap ?e2) ''svc'' ''h:80'') = Some 1040" by (simp add: g2 hb_reg_def)
  moreover have "map_option reg_UpdateAt (HGet (registryMap (rs_ep ?s3)) ''svc'' ''h:80'') = Some 1000"
    using g3 by (simp add: hb_reg_def)
  ultimately show ?thesis using reach hb wb g4 unfolding r
    by (intro exI[of _ ?s] exI[of _ ?s3] exI[of _ ?e3]) (simp add: hb_call_def)
qed

end
