(* ===== verification/Replication.thy ===== *)
theory Replication
  imports RegistryRace
begin

text \<open>
  Replication between service discovery nodes: what one node changes and queues, another node
  applies through \<open>Recv\<close> and \<open>syncRecv\<close>.  Two nodes agree when they know the same instances up to
  the grade (\<open>Status\<close>), which every node computes for itself.  The changing node runs its goroutines interleaved, as in
  \<open>RegistryRace\<close>.
\<close>

definition ungraded :: "Registry \<Rightarrow> Registry" where
  "ungraded r = r\<lparr>reg_Status := 0\<rparr>"

definition view :: "Endpoint \<Rightarrow> string \<Rightarrow> string \<Rightarrow> Registry option" where
  "view e n k = map_option ungraded (HGet (registryMap e) n k)"

section \<open>Messages on views\<close>

definition sync_key :: "SyncInfo \<Rightarrow> string \<times> string" where
  "sync_key si = (reg_Name (si_Registry si), reg_key (si_Registry si))"

definition view_sync :: "(string \<Rightarrow> string \<Rightarrow> Registry option) \<Rightarrow> SyncInfo \<Rightarrow> string \<Rightarrow> string \<Rightarrow> Registry option" where
  "view_sync V si n k =
     (if (n, k) = sync_key si
      then if si_Action si = registerAction then Some (ungraded (si_Registry si))
           else if si_Action si = evictAction then None else V n k
      else V n k)"

lemma view_simps [simp]:
  "view (e\<lparr>recvChan := x\<rparr>) = view e" "view (e\<lparr>sendChan := y\<rparr>) = view e" "view (queue_sync e si) = view e"
  by (simp_all add: view_def fun_eq_iff)

lemma view_apply_sync: "view (apply_sync e si) = view_sync (view e) si"
  by (auto simp: view_def fun_eq_iff apply_sync_def Let_def HGet_HSet HGet_HDel view_sync_def sync_key_def reg_key_def)

lemma view_foldl: "view (foldl apply_sync B ms) = foldl view_sync (view B) ms"
  by (induction ms arbitrary: B) (simp_all add: view_apply_sync)

lemma view_put: "reg_Name r = n \<Longrightarrow> reg_key r = k \<Longrightarrow> view (put_reg e n k r) = view_sync (view e) (register_msg r)"
  by (auto simp: view_def fun_eq_iff HGet_HSet view_sync_def sync_key_def)

lemma view_del: "view (del_reg e n (host_port ip port)) = view_sync (view e) (evict_msg n ip port)"
  by (auto simp: view_def fun_eq_iff HGet_HDel view_sync_def sync_key_def reg_key_def evict_registry_def
      evictAction_def registerAction_def)

lemma view_sync_commute:
  "sync_key a \<noteq> sync_key b \<Longrightarrow> view_sync (view_sync V a) b = view_sync (view_sync V b) a"
  by (auto simp: fun_eq_iff view_sync_def)

lemma view_sync_bubble:
  "sync_key si \<notin> sync_key ` set ms \<Longrightarrow> foldl view_sync V (ms @ [si]) = foldl view_sync (view_sync V si) ms"
  by (induction ms arbitrary: V) (auto simp: view_sync_commute)

lemma view_sync_other: "sync_key si \<noteq> (n, k) \<Longrightarrow> view_sync V si n k = V n k"
  by (auto simp: view_sync_def)

lemma evict_key [simp]: "sync_key (evict_msg n ip port) = (n, host_port ip port)"
  by (simp add: sync_key_def reg_key_def evict_registry_def)

section \<open>Calm runs\<close>

text \<open>
  In a calm state nothing is received, the outgoing channel has room, no two changes of one instance wait between the map and the
  channel, and no call is under way about an instance the refresh loop has read and not yet written back.  Without the last two
  the nodes may differ: the channel can order two changes differently from the map, and the loop can write back an older value.
\<close>

fun inflight_key :: "inflight \<Rightarrow> string \<times> string" where
  "inflight_key (HbGot ts name ip port weight extra old) = (name, host_port ip port)"
| "inflight_key (ToQueue c si) = sync_key si"

fun waiting_msgs :: "inflight list \<Rightarrow> SyncInfo list" where
  "waiting_msgs [] = []"
| "waiting_msgs (ToQueue c si # cs) = si # waiting_msgs cs"
| "waiting_msgs (HbGot ts name ip port weight extra old # cs) = waiting_msgs cs"

lemma waiting_msgs_append [simp]: "waiting_msgs (as @ bs) = waiting_msgs as @ waiting_msgs bs"
  by (induction as rule: waiting_msgs.induct) auto

definition calm :: "race_state \<Rightarrow> bool" where
  "calm s \<longleftrightarrow> recvChan (rs_ep s) = [] \<and> rs_recv s = [] \<and> length (sendChan (rs_ep s)) < defaultSendChannelLen
     \<and> distinct (map sync_key (waiting_msgs (rs_calls s)))
     \<and> list_all (\<lambda>c. list_all (\<lambda>r. inflight_key c \<noteq> (rt_cur (rs_refresh s), reg_key r)) (rt_todo (rs_refresh s))) (rs_calls s)"

inductive calm_reach :: "race_state \<Rightarrow> race_state \<Rightarrow> bool" where
  calm_refl: "calm s \<Longrightarrow> calm_reach s s"
| calm_step: "calm_reach s s' \<Longrightarrow> reg_step s' s'' \<Longrightarrow> calm s'' \<Longrightarrow> calm_reach s s''"

text \<open>
  What the other node is told so far, and what still waits for the channel, makes of the view at the beginning the view of
  this node; what the refresh loop still has to write back is up to date.
\<close>

definition todo_ok :: "race_state \<Rightarrow> bool" where
  "todo_ok s \<longleftrightarrow> distinct (map reg_key (rt_todo (rs_refresh s)))
     \<and> list_all (\<lambda>r. view (rs_ep s) (rt_cur (rs_refresh s)) (reg_key r) = Some (ungraded r)) (rt_todo (rs_refresh s))"

definition told :: "race_state \<Rightarrow> SyncInfo list" where
  "told s = rs_sent s @ sendChan (rs_ep s) @ waiting_msgs (rs_calls s)"

definition rep_inv :: "(string \<Rightarrow> string \<Rightarrow> Registry option) \<Rightarrow> race_state \<Rightarrow> bool" where
  "rep_inv V s \<longleftrightarrow> race_inv s \<and> todo_ok s \<and> foldl view_sync V (told s) = view (rs_ep s)"

text \<open>A change of the map that leaves its message behind.\<close>

lemma rep_inv_change:
  assumes "rep_inv V s" "race_inv s'" "calm s'" "view (rs_ep s') = view_sync (view (rs_ep s)) si" "told s' = told s @ [si]"
    and "si \<in> set (waiting_msgs (rs_calls s'))" "rt_cur (rs_refresh s') = rt_cur (rs_refresh s)"
    and "\<exists>xs. rt_todo (rs_refresh s) = xs @ rt_todo (rs_refresh s')"
  shows "rep_inv V s'"
proof -
  have *: "\<exists>c\<in>set cs. inflight_key c = sync_key si" if "si \<in> set (waiting_msgs cs)" for cs
    using that by (induction cs rule: waiting_msgs.induct) auto
  obtain c where c: "c \<in> set (rs_calls s')" "inflight_key c = sync_key si" using *[OF assms(6)] by blast
  have "sync_key si \<noteq> (rt_cur (rs_refresh s), reg_key r)" if "r \<in> set (rt_todo (rs_refresh s'))" for r
    using assms(3) c that unfolding calm_def list_all_iff assms(7)[symmetric] by force
  then have "todo_ok s'" using assms(1,4,7,8) by (auto simp: rep_inv_def todo_ok_def list_all_iff view_sync_other)
  then show ?thesis using assms(1,2,4,5) by (simp add: rep_inv_def)
qed

lemma rep_inv_queue:
  assumes "rep_inv V s" "calm s" "race_inv s'" "rs_calls s = as @ ToQueue c si # bs"
    and "s' = s\<lparr>rs_ep := queue_sync (rs_ep s) si, rs_calls := as @ bs\<rparr>"
  shows "rep_inv V s'"
proof -
  let ?W = "rs_sent s @ sendChan (rs_ep s)"
  have chan: "sendChan (queue_sync (rs_ep s) si) = sendChan (rs_ep s) @ [si]"
    using assms(2) by (simp add: calm_def queue_sync_def chan_try_send_def)
  have d: "sync_key si \<notin> sync_key ` set (waiting_msgs as)" using assms(2,4) by (auto simp: calm_def)
  have "foldl view_sync V (told s') = foldl view_sync (foldl view_sync (view_sync (foldl view_sync V ?W) si) (waiting_msgs as)) (waiting_msgs bs)"
    by (simp add: told_def assms(5) chan)
  also have "\<dots> = foldl view_sync V (told s)"
    using view_sync_bubble[OF d, of "foldl view_sync V ?W"] by (simp add: told_def assms(4))
  finally show ?thesis using assms(1,3,5) by (simp add: rep_inv_def todo_ok_def)
qed

lemma rep_inv_grade:
  assumes "rep_inv V s" "race_inv s'" "rt_todo (rs_refresh s) = r # rs" "wrap64 (rt_now (rs_refresh s) - reg_UpdateAt r) \<le> 105"
    and "s' = s\<lparr>rs_ep := refresh_reg (rt_now (rs_refresh s)) (rt_cur (rs_refresh s)) (rs_ep s) r,
          rs_refresh := (rs_refresh s)\<lparr>rt_todo := rs\<rparr>\<rparr>"
  shows "rep_inv V s'"
proof -
  have stored: "view (rs_ep s) (rt_cur (rs_refresh s)) (reg_key r) = Some (ungraded r)"
    using assms(1,3) by (simp add: rep_inv_def todo_ok_def)
  have "view (rs_ep s') = view (rs_ep s)"
  proof (intro ext)
    fix n k show "view (rs_ep s') n k = view (rs_ep s) n k"
      using assms(4) stored
      by (cases "n = rt_cur (rs_refresh s) \<and> k = reg_key r")
        (auto simp: assms(5) view_def HGet_refresh_reg refreshed_def Let_def ungraded_def)
  qed
  moreover have "sendChan (rs_ep s') = sendChan (rs_ep s)" using assms(4) by (auto simp: assms(5) refresh_reg_def Let_def)
  ultimately show ?thesis using assms(1,2,3,5) by (simp add: rep_inv_def todo_ok_def told_def)
qed

lemma rep_inv_snapshot:
  assumes "rep_inv V s" "race_inv s'" "sm_Get (registryMap (rs_ep s)) n = Some regMap"
    and "s' = s\<lparr>rs_refresh := (rs_refresh s)\<lparr>rt_names := ns, rt_cur := n, rt_todo := map snd regMap\<rparr>\<rparr>"
  shows "rep_inv V s'"
proof -
  have wf: "wf_Endpoint (rs_ep s)" using assms(1) by (simp add: rep_inv_def race_inv_def)
  note sn = snapshot_names[OF wf assms(3)]
  have k: "map (reg_key \<circ> snd) regMap = map fst regMap" using sn(2) by (auto simp: list_all_iff)
  have d: "distinct (map (reg_key \<circ> snd) regMap)" using sn(1) unfolding k by simp
  have "view (rs_ep s) n (reg_key (snd p)) = Some (ungraded (snd p))" if "p \<in> set regMap" for p
    using that sn(2,3) map_of_Some_iff[OF sn(1), of "fst p" "snd p"] by (cases p) (auto simp: view_def list_all_iff)
  then have "todo_ok s'" using d by (simp add: todo_ok_def assms(4) list_all_iff)
  then show ?thesis using assms by (simp add: rep_inv_def told_def)
qed

lemma rep_inv_step:
  assumes "reg_step s s'" "calm s" "calm s'" "rep_inv V s"
  shows "rep_inv V s'"
proof -
  have inv: "race_inv s'" using race_inv_step[OF assms(1)] assms(4) by (simp add: rep_inv_def)
  from assms(1) show ?thesis
  proof cases
    case (hb_set as ts name ip port weight extra old bs reg)
    have "inflight_ok (HbGot ts name ip port weight extra old)"
      using assms(4) hb_set(2) by (simp add: rep_inv_def race_inv_def)
    then have "view (put_reg (rs_ep s) name (host_port ip port) reg) = view_sync (view (rs_ep s)) (register_msg reg)"
      unfolding hb_set(3) by (intro view_put heartbeat_reg_key[THEN conjunct1] heartbeat_reg_key[THEN conjunct2])
    then show ?thesis using hb_set
      by (intro rep_inv_change[OF assms(4) inv assms(3), of "register_msg reg"]) (auto simp: told_def simp del: heartbeat_reg_def)
  next
    case (evict_del name ip port)
    then show ?thesis
      by (intro rep_inv_change[OF assms(4) inv assms(3), of "evict_msg name ip port"]) (auto simp: told_def view_del)
  next
    case (expire t r rs)
    then show ?thesis
      by (intro rep_inv_change[OF assms(4) inv assms(3), of "evict_msg (rt_cur t) (reg_Ip r) (reg_Port r)"])
        (auto simp: told_def view_del)
  next
    case (queue as c si bs)
    show ?thesis by (rule rep_inv_queue[OF assms(4,2) inv queue(2,1)])
  next
    case (grade t r rs)
    show ?thesis using grade by (intro rep_inv_grade[OF assms(4) inv, of r rs]) simp_all
  next
    case (snapshot t n ns regMap)
    show ?thesis using snapshot by (intro rep_inv_snapshot[OF assms(4) inv, of n regMap ns]) simp_all
  next
    case (receive ti e')
    then have "recvChan (rs_ep s') \<noteq> []" by (auto simp: Recv_def chan_try_send_def split: option.splits if_splits)
    then show ?thesis using assms(3) by (simp add: calm_def)
  next
    case (recv_take ti rest)
    then show ?thesis using assms(2) by (simp add: calm_def)
  next
    case (recv_apply si sis)
    then show ?thesis using assms(2) by (simp add: calm_def)
  qed (use assms(4) inv in \<open>auto simp: rep_inv_def todo_ok_def told_def\<close>)
qed

lemma calm_reach_calm: "calm_reach s s' \<Longrightarrow> calm s'"
  by (induction rule: calm_reach.induct) auto

lemma rep_inv_reach: "calm_reach s s' \<Longrightarrow> rep_inv V s \<Longrightarrow> rep_inv V s'"
  by (induction rule: calm_reach.induct) (auto intro: rep_inv_step dest: calm_reach_calm)

section \<open>Delivery\<close>

text \<open>Queueing the received batches and applying all of them.\<close>

fun deliver :: "Endpoint \<Rightarrow> TransInfo list \<Rightarrow> Endpoint option" where
  "deliver e [] = Some e"
| "deliver e (ti # tis) = Option.bind (Recv e ti) (\<lambda>e'. deliver e' tis)"

lemma deliver_queue:
  "length (recvChan e) + length tis \<le> defaultRecvChannelLen \<Longrightarrow>
     deliver e tis = Some (e\<lparr>recvChan := recvChan e @ tis\<rparr>)"
  by (induction tis arbitrary: e) (auto simp: Recv_def chan_try_send_def)

lemma foldl_apply_sync_recv:
  "foldl apply_sync (e\<lparr>recvChan := rs\<rparr>) ms = (foldl apply_sync e ms)\<lparr>recvChan := rs\<rparr>"
proof (induction ms arbitrary: e)
  case (Cons m ms)
  have "apply_sync (e\<lparr>recvChan := rs\<rparr>) m = (apply_sync e m)\<lparr>recvChan := rs\<rparr>"
    by (simp add: apply_sync_def Let_def)
  then show ?case using Cons by simp
qed simp

lemma drain_recv:
  "recvChan e = tis \<Longrightarrow>
     (syncRecv_step ^^ length tis) e = (foldl apply_sync e (concat (map ti_Data tis)))\<lparr>recvChan := []\<rparr>"
proof (induction tis arbitrary: e)
  case (Cons ti tis)
  have "syncRecv_step e = (foldl apply_sync e (ti_Data ti))\<lparr>recvChan := tis\<rparr>"
    using Cons.prems by (simp add: syncRecv_step_def foldl_apply_sync_recv)
  then have "(syncRecv_step ^^ length tis) (syncRecv_step e) =
      (foldl apply_sync ((foldl apply_sync e (ti_Data ti))\<lparr>recvChan := tis\<rparr>) (concat (map ti_Data tis)))\<lparr>recvChan := []\<rparr>"
    using Cons.IH[of "syncRecv_step e"] by simp
  then show ?case by (simp add: foldl_apply_sync_recv funpow_swap1)
qed (cases e; simp)

text \<open>
  C2. Replication converges.  The goroutines of a node run interleaved in any way that is calm: heartbeats and evictions from handlers and
  the refresh loop, the channel never full, and nothing received meanwhile; no two changes of the same instance wait for the channel at once,
  and no call is about an instance between the refresh loop's reading and writing it back.  At the end no call is under way and
  \<open>syncSend\<close> has taken every change and forwards them, cut into batches by
  any interleaving with its ticks, to a node that had the same view at the beginning.  When that node has received
  the batches and worked them off, it has the same view as the first one: the same
  instances with the same data, only the grade may differ.
\<close>

theorem replication_converges:
  assumes "calm_reach s s'" "wf_Endpoint (rs_ep s)" "rs_calls s = []" "rt_todo (rs_refresh s) = []"
    and "sendChan (rs_ep s) = []" "rs_sent s = []" "rs_calls s' = []" "sendChan (rs_ep s') = []"
    and "view B = view (rs_ep s)" "recvChan B = []"
    and "concat (map opt_list evs) = rs_sent s'"
    and "run_batches syncSend_step [] (evs @ [None]) = (pending, batches)"
    and "length batches \<le> defaultRecvChannelLen"
  shows "\<exists>B'. deliver B (map (\<lambda>b. \<lparr>ti_Source = src, ti_Data = b\<rparr>) batches) = Some B'
     \<and> view ((syncRecv_step ^^ length batches) B') = view (rs_ep s')"
proof -
  let ?tis = "map (\<lambda>b. \<lparr>ti_Source = src, ti_Data = b\<rparr>) batches"
  let ?B' = "B\<lparr>recvChan := ?tis\<rparr>"
  have d: "deliver B ?tis = Some ?B'" using assms(10,13) by (simp add: deliver_queue)
  have "rep_inv (view (rs_ep s)) s"
    using assms(2-6) by (simp add: rep_inv_def race_inv_def todo_ok_def told_def)
  then have v: "foldl view_sync (view B) (rs_sent s') = view (rs_ep s')"
    using rep_inv_reach[OF assms(1)] assms(7-9) by (auto simp: rep_inv_def told_def)
  have "concat batches = rs_sent s'"
    using sync_batches.run_tick_flushes[OF assms(12)] assms(11) by simp
  moreover have "concat (map ti_Data ?tis) = concat batches" by (simp add: comp_def)
  ultimately have "(syncRecv_step ^^ length batches) ?B' = (foldl apply_sync ?B' (rs_sent s'))\<lparr>recvChan := []\<rparr>"
    using drain_recv[of ?B' ?tis] by simp
  then show ?thesis using d v by (simp add: view_foldl)
qed

text \<open>A heartbeat of a new instance that is sent to a second, empty node.\<close>

definition demo_s :: race_state where
  "demo_s = race_init (NewConfigCluster ''a'')"

definition demo_sent :: race_state where
  "demo_sent = demo_s\<lparr>rs_ep := put_reg (NewEndpoint (NewConfigCluster ''a'')) ''svc'' ''h:80'' (hb_reg 1000 1000),
     rs_sent := [register_msg (hb_reg 1000 1000)]\<rparr>"

lemma demo_run: "calm_reach demo_s demo_sent"
proof -
  let ?e = "NewEndpoint (NewConfigCluster ''a'')" and ?r = "hb_reg 1000 1000"
  let ?p = "put_reg ?e ''svc'' ''h:80'' ?r"
  let ?sa = "demo_s\<lparr>rs_calls := [HbGot 1000 ''svc'' ''h'' 80 1 [] None]\<rparr>"
  let ?sb = "demo_s\<lparr>rs_ep := ?p, rs_calls := [ToQueue Handler (register_msg ?r)]\<rparr>"
  let ?sc = "demo_s\<lparr>rs_ep := ?p\<lparr>sendChan := [register_msg ?r]\<rparr>\<rparr>"
  have "reg_step demo_s ?sa"
    using reg_step.hb_get[of demo_s 1000 "''svc''" "''h''" 80 1 "[]"] by (simp add: demo_s_def race_init_def NewEndpoint_def)
  moreover have "reg_step ?sa ?sb"
    using reg_step.hb_set[of ?sa "[]" 1000 "''svc''" "''h''" 80 1 "[]" None "[]" ?r]
    by (simp add: demo_s_def race_init_def hb_key hb_reg_def StatusGreen_def)
  moreover have "reg_step ?sb ?sc"
    using reg_step.queue[of ?sb "[]" Handler "register_msg ?r" "[]"]
    by (simp add: demo_s_def race_init_def queue_sync_def chan_try_send_def NewEndpoint_def defaultSendChannelLen_def)
  moreover have "reg_step ?sc demo_sent"
    using reg_step.sent[of ?sc "register_msg ?r" "[]"] by (simp add: demo_s_def demo_sent_def race_init_def NewEndpoint_def)
  moreover have "calm demo_s" "calm ?sa" "calm ?sb" "calm ?sc" "calm demo_sent"
    by (simp_all add: calm_def demo_s_def demo_sent_def race_init_def NewEndpoint_def defaultSendChannelLen_def)
  ultimately show ?thesis by (meson calm_refl calm_step)
qed

theorem replication_converges_witness:
  "\<exists>B'. deliver (NewEndpoint (NewConfigCluster ''b'')) [\<lparr>ti_Source = ''a'', ti_Data = [register_msg (hb_reg 1000 1000)]\<rparr>] = Some B'
     \<and> view ((syncRecv_step ^^ 1) B') = view (rs_ep demo_sent)
     \<and> view (rs_ep demo_sent) ''svc'' ''h:80'' = Some (hb_reg 1000 1000)"
proof -
  let ?m = "register_msg (hb_reg 1000 1000)" and ?B = "NewEndpoint (NewConfigCluster ''b'')"
  have b: "run_batches syncSend_step [] ([Some ?m] @ [None]) = ([], [[?m]])" by (simp add: defaultMergeNum_def)
  have "view ?B = view (rs_ep demo_s)" by (simp add: view_def fun_eq_iff NewEndpoint_def demo_s_def race_init_def)
  then show ?thesis
    using replication_converges[OF demo_run _ _ _ _ _ _ _ _ _ _ b, of ?B "''a''"] wf_NewEndpoint
    by (simp add: demo_s_def demo_sent_def race_init_def NewEndpoint_def defaultRecvChannelLen_def view_def HGet_HSet ungraded_def hb_reg_def)
qed

end
