(* ===== verification/AkskAuth.thy ===== *)
theory AkskAuth
  imports GoStrings Sha256
begin

text \<open>
  Request signing between the servers: the AK/SK middleware that the service discovery, the manager
  and the agent center each carry (\<open>server/service_discovery/server/midware/akskAuth.go\<close>,
  \<open>server/manager/biz/midware/akskAuth.go\<close>, \<open>server/agent_center/httptrans/midware/auth.go\<close>).  The
  three copies agree but for the texts of two messages and the lower-casing of the access key in
  the service discovery, whose configuration keeps its keys in lower case.

  \<open>time.Now().Unix()\<close> is an argument.  A request's header is the list of its fields in the order in
  which they were added, so that \<open>Header.Get\<close> is \<^const>\<open>map_of\<close>.  The locale \<open>signed_requests\<close> is
  the contract between the signing and the checking side.
\<close>

section \<open>Signatures\<close>

datatype body = NilBody | Body string | BrokenBody string

record request =
  rq_Method :: string
  rq_Path :: string
  rq_RawQuery :: string
  rq_Header :: "(string \<times> string) list"
  rq_Body :: body

definition sha256byteArr :: "string \<Rightarrow> string" where
  "sha256byteArr inp = (if inp = [] then [] else hex_encode (sha256 inp))"

definition hmacSha256 :: "string \<Rightarrow> string \<Rightarrow> string" where
  "hmacSha256 dat secret = hex_encode (hmac_sha256 secret dat)"

text \<open>The format string is a raw one: the separator is a backslash followed by the letter n.\<close>

definition raw_nl :: string where
  "raw_nl = [CHR 0x5C, CHR ''n'']"

definition sign_input :: "string \<Rightarrow> string \<Rightarrow> string \<Rightarrow> string \<Rightarrow> string \<Rightarrow> string \<Rightarrow> string" where
  "sign_input mth url query ak timestamp bodyhash =
     mth @ raw_nl @ url @ raw_nl @ query @ raw_nl @ ak @ raw_nl @ timestamp @ raw_nl @ bodyhash"

definition generateSign :: "string \<Rightarrow> string \<Rightarrow> string \<Rightarrow> string \<Rightarrow> string \<Rightarrow> string \<Rightarrow> string \<Rightarrow> string" where
  "generateSign mth url query ak timestamp sk requestBody =
     hmacSha256 (sign_input mth url query ak timestamp (sha256byteArr requestBody)) sk"

definition formatURLPath :: "string \<Rightarrow> string" where
  "formatURLPath inp = (let s = TrimSpace inp in if HasSuffix s ''/'' then butlast s else s)"

definition Header_Add :: "request \<Rightarrow> string \<Rightarrow> string \<Rightarrow> request" where
  "Header_Add rq k v = rq\<lparr>rq_Header := rq_Header rq @ [(k, v)]\<rparr>"

definition Header_Get :: "request \<Rightarrow> string \<Rightarrow> string" where
  "Header_Get rq k = (case map_of (rq_Header rq) k of Some v \<Rightarrow> v | None \<Rightarrow> [])"

definition getSecKec :: "(string, string) gomap \<Rightarrow> string \<Rightarrow> string" where
  "getSecKec keys ak = (case map_of keys ak of Some sk \<Rightarrow> sk | None \<Rightarrow> [])"

section \<open>The signing side\<close>

text \<open>\<^const>\<open>None\<close> is the error return: the body could not be read and nothing is sent.\<close>

definition beforeRequestFuncWithKey :: "int \<Rightarrow> string \<Rightarrow> string \<Rightarrow> request \<Rightarrow> request option" where
  "beforeRequestFuncWithKey now ak sk req =
     (let timestamp = Itoa now;
          signed = (\<lambda>requestBody.
            let sign = generateSign (rq_Method req) (formatURLPath (rq_Path req)) (rq_RawQuery req) ak timestamp sk requestBody
            in Header_Add (Header_Add (Header_Add req ''AccessKey'' ak) ''Signature'' sign) ''TimeStamp'' timestamp)
      in case rq_Body req of
           NilBody \<Rightarrow> Some (signed [])
         | Body b \<Rightarrow> Some (signed b)
         | BrokenBody err \<Rightarrow> None)"

text \<open>The service discovery takes the first key its map iteration meets, as does the manager's inner client.\<close>

definition sd_key :: "(string, string) gomap \<Rightarrow> string \<times> string" where
  "sd_key authKeys = (case authKeys of [] \<Rightarrow> ([], []) | (k, v) # _ \<Rightarrow> (k, v))"

definition sd_beforeRequestFunc :: "(string, string) gomap \<Rightarrow> int \<Rightarrow> request \<Rightarrow> request option" where
  "sd_beforeRequestFunc authKeys now req =
     beforeRequestFuncWithKey now (fst (sd_key authKeys)) (snd (sd_key authKeys)) req"

definition innerBeforeRequestFunc :: "(string, string) gomap \<Rightarrow> int \<Rightarrow> request \<Rightarrow> request option" where
  "innerBeforeRequestFunc innerAuth now req =
     (case innerAuth of [] \<Rightarrow> Some req | (k, v) # _ \<Rightarrow> beforeRequestFuncWithKey now k v req)"

definition ac_beforeRequestFunc :: "string \<Rightarrow> string \<Rightarrow> int \<Rightarrow> request \<Rightarrow> request option" where
  "ac_beforeRequestFunc ak sk now req = beforeRequestFuncWithKey now ak sk req"

section \<open>The checking side\<close>

datatype auth_result = AuthNext | AuthAbort string

text \<open>
  The middleware with its access key already normalised.  Unix times are 64-bit, so the difference
  of the clock and the claimed time may wrap around.
\<close>

definition aksk_check :: "string \<Rightarrow> string \<Rightarrow> (string, string) gomap \<Rightarrow> int \<Rightarrow> string \<Rightarrow> request \<Rightarrow> auth_result" where
  "aksk_check timeMsg signMsg keys now ak req =
     (let sign = Header_Get req ''Signature''; timeStamp = Header_Get req ''TimeStamp''
      in if ak = [] \<or> sign = [] \<or> timeStamp = []
         then AuthAbort ''header missed: AccessKey|Signature|TimeStamp''
         else case ParseInt timeStamp of
           (_, Some err) \<Rightarrow> AuthAbort (''TimeStamp Error '' @ ParseInt_Error timeStamp err)
         | (iTime, None) \<Rightarrow>
             (let timeDiff = wrap64 (now - iTime)
              in if timeDiff \<ge> 60 \<or> timeDiff \<le> -60 then AuthAbort timeMsg
                 else
                   let sk = getSecKec keys ak
                   in if sk = [] then AuthAbort ''User not exist''
                      else case rq_Body req of
                        BrokenBody err \<Rightarrow> AuthAbort err
                      | bdy \<Rightarrow>
                          let requestBody = (case bdy of Body b \<Rightarrow> b | _ \<Rightarrow> []);
                              serverSign = generateSign (rq_Method req) (formatURLPath (rq_Path req))
                                (rq_RawQuery req) ak timeStamp sk requestBody
                          in if serverSign \<noteq> sign then AuthAbort signMsg else AuthNext))"

definition sd_AKSKAuth :: "(string, string) gomap \<Rightarrow> int \<Rightarrow> request \<Rightarrow> auth_result" where
  "sd_AKSKAuth authKeys now req =
     aksk_check ''TimeStamp Error'' ''Signature Error'' authKeys now (ToLower (Header_Get req ''AccessKey'')) req"

definition mgr_AKSKAuth :: "(string, string) gomap \<Rightarrow> int \<Rightarrow> request \<Rightarrow> auth_result" where
  "mgr_AKSKAuth innerAuth now req =
     aksk_check ''timestamp error'' ''signature error'' innerAuth now (Header_Get req ''AccessKey'') req"

definition ac_AKSKAuth :: "(string, string) gomap \<Rightarrow> int \<Rightarrow> request \<Rightarrow> auth_result" where
  "ac_AKSKAuth httpAkSkMap now req =
     aksk_check ''timestamp error'' ''signature error'' httpAkSkMap now (Header_Get req ''AccessKey'') req"

section \<open>The contract\<close>

text \<open>
  \<open>stamp\<close> reads the time a signed request claims.  A checker lets a request pass that was signed
  less than a minute ago with a key it knows, and lets pass only requests of that age that carry
  the signature for their claimed key.
\<close>

definition unsigned :: "request \<Rightarrow> bool" where
  "unsigned rq \<longleftrightarrow> map_of (rq_Header rq) ''AccessKey'' = None
     \<and> map_of (rq_Header rq) ''Signature'' = None \<and> map_of (rq_Header rq) ''TimeStamp'' = None"

definition clock :: "int \<Rightarrow> bool" where
  "clock now \<longleftrightarrow> 0 \<le> now \<and> now < 2 ^ 62"

locale signed_requests =
  fixes sign :: "int \<Rightarrow> string \<Rightarrow> string \<Rightarrow> request \<Rightarrow> request option"
    and check :: "(string, string) gomap \<Rightarrow> int \<Rightarrow> request \<Rightarrow> auth_result"
    and claimed :: "request \<Rightarrow> string"
  assumes accepts: "sign now ak sk rq = Some rq' \<Longrightarrow> unsigned rq \<Longrightarrow> clock now \<Longrightarrow> clock now' \<Longrightarrow>
      \<bar>now' - now\<bar> < 60 \<Longrightarrow> ak \<noteq> [] \<Longrightarrow> claimed rq' = ak \<Longrightarrow> map_of keys ak = Some sk \<Longrightarrow> sk \<noteq> [] \<Longrightarrow>
      check keys now' rq' = AuthNext"
    and accepted_fresh: "check keys now' rq' = AuthNext \<Longrightarrow> clock now' \<Longrightarrow>
      \<exists>t. ParseInt (Header_Get rq' ''TimeStamp'') = (t, None) \<and> \<bar>now' - t\<bar> < 60"
    and accepted_signed: "check keys now' rq' = AuthNext \<Longrightarrow>
      \<exists>sk b. map_of keys (claimed rq') = Some sk \<and> sk \<noteq> [] \<and> rq_Body rq' \<in> {NilBody, Body b} \<and>
        Header_Get rq' ''Signature'' = generateSign (rq_Method rq') (formatURLPath (rq_Path rq'))
          (rq_RawQuery rq') (claimed rq') (Header_Get rq' ''TimeStamp'') sk
          (case rq_Body rq' of Body b' \<Rightarrow> b' | _ \<Rightarrow> [])"
    and stamped: "sign now ak sk rq = Some rq' \<Longrightarrow> unsigned rq \<Longrightarrow> Header_Get rq' ''TimeStamp'' = Itoa now"
begin

text \<open>A captured request is worthless once a minute has passed.\<close>

lemma replay_window:
  assumes "sign now ak sk rq = Some rq'" "unsigned rq" "clock now" "clock now'"
    and "check keys now' rq' = AuthNext"
  shows "\<bar>now' - now\<bar> < 60"
proof -
  have "ParseInt (Itoa now) = (now, None)" using assms(3) by (simp add: ParseInt_Itoa clock_def)
  then show ?thesis using accepted_fresh[OF assms(5,4)] stamped[OF assms(1,2)] by auto
qed

lemma accepts_iff:
  assumes "sign now ak sk rq = Some rq'" "unsigned rq" "clock now" "clock now'"
    and "ak \<noteq> []" "claimed rq' = ak" "map_of keys ak = Some sk" "sk \<noteq> []"
  shows "check keys now' rq' = AuthNext \<longleftrightarrow> \<bar>now' - now\<bar> < 60"
  using assms accepts replay_window by blast

text \<open>A key that the checker does not know is of no use.\<close>

lemma unknown_key_rejected: "map_of keys (claimed rq') = None \<Longrightarrow> check keys now' rq' \<noteq> AuthNext"
  using accepted_signed by fastforce

end

section \<open>The three middlewares meet it\<close>

lemma signed_headers:
  assumes "beforeRequestFuncWithKey now ak sk rq = Some rq'" "unsigned rq"
  shows "Header_Get rq' ''AccessKey'' = ak" "Header_Get rq' ''TimeStamp'' = Itoa now"
    "Header_Get rq' ''Signature'' = generateSign (rq_Method rq) (formatURLPath (rq_Path rq)) (rq_RawQuery rq) ak
        (Itoa now) sk (case rq_Body rq of Body b \<Rightarrow> b | _ \<Rightarrow> [])"
    "rq_Method rq' = rq_Method rq" "rq_Path rq' = rq_Path rq" "rq_RawQuery rq' = rq_RawQuery rq"
    "rq_Body rq' = rq_Body rq" "\<forall>err. rq_Body rq \<noteq> BrokenBody err"
  using assms
  by (auto simp: beforeRequestFuncWithKey_def Let_def Header_Add_def Header_Get_def unsigned_def
      map_add_def split: body.splits option.splits)

lemma Itoa_not_Nil [simp]: "Itoa i \<noteq> []"
  by (simp add: Itoa_def)

lemma generateSign_not_Nil [simp]: "generateSign a b c d e f g \<noteq> []"
proof -
  have "length (generateSign a b c d e f g) = 64" by (simp add: generateSign_def hmacSha256_def)
  then show ?thesis by (metis length_0_conv zero_neq_numeral)
qed

lemma time_window:
  assumes "clock now" "- (2 ^ 63) \<le> t" "t < 2 ^ 63"
  shows "(wrap64 (now - t) \<ge> 60 \<or> wrap64 (now - t) \<le> -60) \<longleftrightarrow> \<not> \<bar>now - t\<bar> < 60"
proof (cases "now - t < 2 ^ 63")
  case True
  then have "wrap64 (now - t) = now - t" using assms by (intro wrap64_id) (auto simp: clock_def)
  then show ?thesis by auto
next
  case False
  then have "wrap64 (now - t) = now - t - 2 ^ 64" using assms by (intro wrap64_over) (auto simp: clock_def)
  then show ?thesis using assms False by (auto simp: clock_def)
qed

lemma aksk_check_accepts:
  assumes "beforeRequestFuncWithKey now ak sk rq = Some rq'" "unsigned rq" "clock now" "clock now'"
    and "\<bar>now' - now\<bar> < 60" "ak \<noteq> []" "map_of keys ak = Some sk" "sk \<noteq> []"
  shows "aksk_check m1 m2 keys now' ak rq' = AuthNext"
proof -
  have "ParseInt (Itoa now) = (now, None)" using assms(3) by (simp add: ParseInt_Itoa clock_def)
  moreover have "\<not> (wrap64 (now' - now) \<ge> 60 \<or> wrap64 (now' - now) \<le> -60)"
    using time_window[of now' now] assms by (simp add: clock_def)
  moreover have "getSecKec keys ak = sk" using assms(7) by (simp add: getSecKec_def)
  ultimately show ?thesis using signed_headers[OF assms(1,2)] assms(6,8)
    by (auto simp: aksk_check_def Let_def split: body.splits)
qed

lemma aksk_check_fresh:
  assumes "aksk_check m1 m2 keys now' ak rq' = AuthNext" "clock now'"
  shows "\<exists>t. ParseInt (Header_Get rq' ''TimeStamp'') = (t, None) \<and> \<bar>now' - t\<bar> < 60"
proof -
  obtain t where t: "ParseInt (Header_Get rq' ''TimeStamp'') = (t, None)"
      "\<not> (wrap64 (now' - t) \<ge> 60 \<or> wrap64 (now' - t) \<le> -60)"
    using assms(1)
    by (cases "ParseInt (Header_Get rq' ''TimeStamp'')"; cases "snd (ParseInt (Header_Get rq' ''TimeStamp''))")
      (auto simp: aksk_check_def Let_def split: if_splits)
  have "- (2 ^ 63) \<le> t \<and> t < 2 ^ 63" using ParseInt_range[of "Header_Get rq' ''TimeStamp''"] t(1) by simp
  then show ?thesis using t time_window[OF assms(2), of t] by auto
qed

lemma aksk_check_signed:
  assumes "aksk_check m1 m2 keys now' ak rq' = AuthNext"
  shows "\<exists>sk b. map_of keys ak = Some sk \<and> sk \<noteq> [] \<and> rq_Body rq' \<in> {NilBody, Body b} \<and>
     Header_Get rq' ''Signature'' = generateSign (rq_Method rq') (formatURLPath (rq_Path rq'))
       (rq_RawQuery rq') ak (Header_Get rq' ''TimeStamp'') sk (case rq_Body rq' of Body b' \<Rightarrow> b' | _ \<Rightarrow> [])"
  using assms
  by (auto simp: aksk_check_def Let_def getSecKec_def split: if_splits option.splits prod.splits body.splits)

interpretation sd_auth: signed_requests beforeRequestFuncWithKey sd_AKSKAuth "\<lambda>rq. ToLower (Header_Get rq ''AccessKey'')"
proof (unfold_locales, goal_cases)
  case 1 then show ?case unfolding sd_AKSKAuth_def using aksk_check_accepts by metis
next
  case 2 then show ?case unfolding sd_AKSKAuth_def by (rule aksk_check_fresh)
next
  case 3 then show ?case unfolding sd_AKSKAuth_def by (rule aksk_check_signed)
next
  case 4 then show ?case by (rule signed_headers(2))
qed

interpretation mgr_auth: signed_requests beforeRequestFuncWithKey mgr_AKSKAuth "\<lambda>rq. Header_Get rq ''AccessKey''"
proof (unfold_locales, goal_cases)
  case 1 then show ?case unfolding mgr_AKSKAuth_def using aksk_check_accepts by metis
next
  case 2 then show ?case unfolding mgr_AKSKAuth_def by (rule aksk_check_fresh)
next
  case 3 then show ?case unfolding mgr_AKSKAuth_def by (rule aksk_check_signed)
next
  case 4 then show ?case by (rule signed_headers(2))
qed

interpretation ac_auth: signed_requests beforeRequestFuncWithKey ac_AKSKAuth "\<lambda>rq. Header_Get rq ''AccessKey''"
proof (unfold_locales, goal_cases)
  case 1 then show ?case unfolding ac_AKSKAuth_def using aksk_check_accepts by metis
next
  case 2 then show ?case unfolding ac_AKSKAuth_def by (rule aksk_check_fresh)
next
  case 3 then show ?case unfolding ac_AKSKAuth_def by (rule aksk_check_signed)
next
  case 4 then show ?case by (rule signed_headers(2))
qed

section \<open>Properties\<close>

text \<open>
  C4. A request that the manager, the agent center or the service discovery signs is let through by
  a server that knows the key exactly when the two clocks differ by less than 60 seconds: a valid
  request is never refused in that window and a captured one is never accepted outside it.  (The
  service discovery compares lower-cased access keys, so the key has to be in lower case there.)
\<close>

theorem aksk_sign_check:
  assumes "beforeRequestFuncWithKey now ak sk rq = Some rq'" "unsigned rq"
    and "clock now" "clock now'" "ak \<noteq> []" "sk \<noteq> []" "map_of keys ak = Some sk"
  shows "(mgr_AKSKAuth keys now' rq' = AuthNext \<longleftrightarrow> \<bar>now' - now\<bar> < 60)
     \<and> (ac_AKSKAuth keys now' rq' = AuthNext \<longleftrightarrow> \<bar>now' - now\<bar> < 60)
     \<and> (ToLower ak = ak \<longrightarrow> (sd_AKSKAuth keys now' rq' = AuthNext \<longleftrightarrow> \<bar>now' - now\<bar> < 60))"
  using assms signed_headers(1)[OF assms(1,2)] mgr_auth.accepts_iff[OF assms(1-5)]
    ac_auth.accepts_iff[OF assms(1-5)] sd_auth.accepts_iff[OF assms(1-5)] by simp

definition demo_request :: request where
  "demo_request = \<lparr>rq_Method = ''GET'', rq_Path = ''/registry/list'', rq_RawQuery = [],
     rq_Header = [], rq_Body = NilBody\<rparr>"

theorem aksk_sign_check_witness:
  "mgr_AKSKAuth [(''ak'', ''sk'')] 1059 (the (beforeRequestFuncWithKey 1000 ''ak'' ''sk'' demo_request)) = AuthNext
   \<and> mgr_AKSKAuth [(''ak'', ''sk'')] 1060 (the (beforeRequestFuncWithKey 1000 ''ak'' ''sk'' demo_request)) \<noteq> AuthNext"
proof -
  have "beforeRequestFuncWithKey 1000 ''ak'' ''sk'' demo_request =
      Some (the (beforeRequestFuncWithKey 1000 ''ak'' ''sk'' demo_request))"
    by (simp add: beforeRequestFuncWithKey_def demo_request_def Let_def)
  moreover have "unsigned demo_request" by (simp add: unsigned_def demo_request_def)
  ultimately show ?thesis
    using aksk_sign_check[of 1000 "''ak''" "''sk''" demo_request _ 1059 "[(''ak'', ''sk'')]"]
      aksk_sign_check[of 1000 "''ak''" "''sk''" demo_request _ 1060 "[(''ak'', ''sk'')]"]
    by (simp add: clock_def)
qed

text \<open>
  C25. No request passes the middleware of the service discovery (the other two agree) unless its
  time stamp is a 64-bit decimal number within 60 seconds of the server's clock, even where the
  subtraction of the time stamp wraps around, its access key is known with a non-empty secret, its
  body could be read, and its signature is the one computed with that secret over the method, the
  path, the query, the key, the time stamp and the body.
\<close>

theorem aksk_no_bypass:
  assumes "sd_AKSKAuth keys now rq = AuthNext" "clock now"
  shows "\<exists>t sk b. ParseInt (Header_Get rq ''TimeStamp'') = (t, None) \<and> \<bar>now - t\<bar> < 60
     \<and> map_of keys (ToLower (Header_Get rq ''AccessKey'')) = Some sk \<and> sk \<noteq> []
     \<and> rq_Body rq \<in> {NilBody, Body b}
     \<and> Header_Get rq ''Signature'' = hmacSha256 (sign_input (rq_Method rq) (formatURLPath (rq_Path rq)) (rq_RawQuery rq)
           (ToLower (Header_Get rq ''AccessKey'')) (Header_Get rq ''TimeStamp'')
           (sha256byteArr (case rq_Body rq of Body b' \<Rightarrow> b' | _ \<Rightarrow> []))) sk"
  using sd_auth.accepted_fresh[OF assms] sd_auth.accepted_signed[OF assms(1)]
  by (auto simp: generateSign_def)

theorem aksk_no_bypass_witness:
  "\<exists>rq. sd_AKSKAuth [(''ak'', ''sk'')] 1059 rq = AuthNext \<and>
     (\<exists>t. ParseInt (Header_Get rq ''TimeStamp'') = (t, None) \<and> \<bar>1059 - t\<bar> < 60)"
proof -
  have "ToLower ''ak'' = ''ak''" by code_simp
  moreover have "unsigned demo_request" by (simp add: unsigned_def demo_request_def)
  moreover obtain rq where rq: "beforeRequestFuncWithKey 1000 ''ak'' ''sk'' demo_request = Some rq"
    by (simp add: beforeRequestFuncWithKey_def demo_request_def Let_def)
  ultimately have "sd_AKSKAuth [(''ak'', ''sk'')] 1059 rq = AuthNext"
    using sd_auth.accepts_iff[OF rq, of 1059 "[(''ak'', ''sk'')]"] signed_headers(1)[OF rq]
    by (simp add: clock_def)
  then show ?thesis using aksk_no_bypass[of "[(''ak'', ''sk'')]" 1059 rq] by (auto simp: clock_def)
qed

text \<open>
  The signed text does not determine the request: its separator is the two characters backslash
  and n of a raw string, which may occur in a path or a query.  One and the same signature is valid
  for different requests.
\<close>

theorem sign_input_ambiguous:
  "generateSign ''GET'' (formatURLPath ''/a'') (''b'' @ raw_nl @ ''c'') ak ts sk body =
   generateSign ''GET'' (formatURLPath (''/a'' @ raw_nl @ ''b'')) ''c'' ak ts sk body"
proof -
  have "formatURLPath ''/a'' = ''/a''" by code_simp
  moreover have "formatURLPath (''/a'' @ raw_nl @ ''b'') = ''/a'' @ raw_nl @ ''b''" by code_simp
  ultimately show ?thesis by (simp add: generateSign_def sign_input_def)
qed

end
