(* ===== verification/Varint.thy ===== *)
theory Varint
  imports Prelude
begin

text \<open>
  The variable-length integers of the protocol buffer wire format: the encoder of the plugin
  library (\<open>plugins/lib/go/bridge.pb.go\<close>), the decoding loop that its generated \<open>Unmarshal\<close>
  functions repeat, and \<open>readVarint\<close> of \<open>agent/plugin/protocol.go\<close>, which reads the same format
  from a stream.  Bytes are 8-bit words; values are words of the width the code accumulates in, so
  that shifting beyond the width drops bits as in Go.
\<close>

unbundle bit_operations_syntax

type_synonym byte = "8 word"

datatype proto_error =
    ErrIntOverflow
  | ErrInvalidLength
  | ErrUnexpectedEndOfGroup
  | UnexpectedEOF
  | ProtoError string

section \<open>Encoding\<close>

fun bitlen :: "nat \<Rightarrow> nat" where
  "bitlen n = (if n = 0 then 0 else Suc (bitlen (n div 2)))"

declare bitlen.simps [simp del]

lemma bitlen_numeral [simp]:
  "bitlen 0 = 0" "bitlen (Suc 0) = 1" "bitlen (numeral (Num.Bit0 n)) = Suc (bitlen (numeral n))"
  "bitlen (numeral (Num.Bit1 n)) = Suc (bitlen (numeral n))" "bitlen (numeral num.One) = 1"
  by (subst bitlen.simps, simp add: bitlen.simps[of 0])+

definition Len64 :: "64 word \<Rightarrow> nat" where
  "Len64 w = bitlen (unat w)"

definition sovBridge :: "64 word \<Rightarrow> nat" where
  "sovBridge x = (Len64 (x OR 1) + 6) div 7"

function encodeVarintBridge :: "64 word \<Rightarrow> byte list" where
  "encodeVarintBridge v =
     (if v \<ge> push_bit 7 1 then ucast (v AND 0x7f OR 0x80) # encodeVarintBridge (drop_bit 7 v)
      else [ucast v])"
  by pat_completeness auto

lemma unat_drop7: "unat (drop_bit 7 (v :: 64 word)) = unat v div 128"
  by (simp add: drop_bit_eq_div unat_div)

lemma varint_limit: "(128 :: 64 word) \<le> v \<longleftrightarrow> 128 \<le> unat v"
  by (simp add: word_le_nat_alt)

termination encodeVarintBridge
  by (relation "measure unat") (auto simp: unat_drop7 varint_limit simp flip: drop_bit_eq_div)

declare encodeVarintBridge.simps [simp del]

section \<open>Decoding\<close>

text \<open>The loop over an index into the data; \<open>'a\<close> is the width of the variable it accumulates in.\<close>

function varint_loop :: "byte list \<Rightarrow> nat \<Rightarrow> nat \<Rightarrow> 'a :: len word \<Rightarrow> proto_error + ('a word \<times> nat)" where
  "varint_loop d i shift acc =
     (if shift \<ge> 64 then Inl ErrIntOverflow
      else if i \<ge> length d then Inl UnexpectedEOF
      else
        let b = d ! i; acc' = acc OR push_bit shift (ucast (b AND 0x7F))
        in if b < 0x80 then Inr (acc', i + 1) else varint_loop d (i + 1) (shift + 7) acc')"
  by pat_completeness auto
termination by (relation "measure (\<lambda>(d, i, shift, acc). 64 - shift)") auto

declare varint_loop.simps [simp del]

definition get_varint :: "byte list \<Rightarrow> nat \<Rightarrow> proto_error + ('a :: len word \<times> nat)" where
  "get_varint d i = varint_loop d i 0 0"

text \<open>
  \<open>readVarint\<close> on a reader, given by the bytes it still delivers: the value, the number of bytes
  eaten and the rest.  \<open>UnexpectedEOF\<close> stands for the error of \<open>ReadByte\<close> at the end of the stream.
\<close>

fun readVarint_loop :: "nat \<Rightarrow> 64 word \<Rightarrow> nat \<Rightarrow> byte list \<Rightarrow> (proto_error + 64 word) \<times> nat \<times> byte list" where
  "readVarint_loop shift varint eaten bs =
     (if shift \<ge> 64 then (Inl ErrIntOverflow, eaten, bs)
      else case bs of
        [] \<Rightarrow> (Inl UnexpectedEOF, eaten, [])
      | b # bs' \<Rightarrow>
          let varint' = varint OR push_bit shift (ucast (b AND 0x7F))
          in if b < 0x80 then (Inr varint', eaten + 1, bs')
             else readVarint_loop (shift + 7) varint' (eaten + 1) bs')"

declare readVarint_loop.simps [simp del]

definition readVarint :: "byte list \<Rightarrow> (proto_error + 64 word) \<times> nat \<times> byte list" where
  "readVarint bs = readVarint_loop 0 0 0 bs"

section \<open>Length of an encoding\<close>

lemma bitlen_or_1: "bitlen (n OR 1) = (if n = 0 then 1 else bitlen n)"
proof (cases "n = 0")
  case True
  then show ?thesis by (simp add: bitlen.simps)
next
  case False
  have "(n OR Suc 0) div 2 = n div 2" by (auto simp: or_Suc_0_eq elim!: evenE)
  moreover have "n OR Suc 0 \<noteq> 0" using False by (simp add: or_Suc_0_eq)
  ultimately show ?thesis using False by (subst (1 2) bitlen.simps) simp
qed

lemma bitlen_shift: "n \<ge> 2 ^ k \<Longrightarrow> bitlen n = k + bitlen (n div 2 ^ k)"
proof (induction k arbitrary: n)
  case (Suc k)
  have n: "n \<noteq> 0" using Suc.prems by (metis le_zero_eq power_not_zero zero_neq_numeral)
  have "n div 2 \<ge> 2 ^ k" using Suc.prems by simp
  then have "bitlen (n div 2) = k + bitlen (n div 2 div 2 ^ k)" by (rule Suc.IH)
  then show ?case using n by (subst bitlen.simps) (simp add: div_mult2_eq)
qed simp

lemma bitlen_le: "n < 2 ^ k \<Longrightarrow> bitlen n \<le> k"
proof (induction k arbitrary: n)
  case (Suc k)
  then have "bitlen (n div 2) \<le> k" by simp
  then show ?case by (subst bitlen.simps) simp
qed (simp add: bitlen.simps)

lemma sovBridge_conv: "sovBridge x = (if x = 0 then 1 else (bitlen (unat x) + 6) div 7)"
  using bitlen_or_1[of "unat x"] by (auto simp: sovBridge_def Len64_def unsigned_or_eq unat_eq_zero)

lemma length_encodeVarint: "length (encodeVarintBridge v) = sovBridge v"
proof (induction v rule: encodeVarintBridge.induct)
  case (1 v)
  show ?case
  proof (cases "v \<ge> push_bit 7 1")
    case True
    then have v: "unat v \<ge> 2 ^ 7" by (simp add: varint_limit)
    then have "unat (drop_bit 7 v) \<noteq> 0" "unat v \<noteq> 0" by (simp_all add: unat_drop7 div_eq_0_iff)
    then have nz: "drop_bit 7 v \<noteq> 0" "v \<noteq> 0" by auto
    then show ?thesis using 1[OF True] True bitlen_shift[OF v]
      by (subst encodeVarintBridge.simps) (simp add: sovBridge_conv unat_drop7)
  next
    case False
    then have "unat v < 2 ^ 7" by (simp add: varint_limit)
    then have "bitlen (unat v) \<le> 7" by (rule bitlen_le)
    moreover have "v \<noteq> 0 \<Longrightarrow> bitlen (unat v) > 0" by (subst bitlen.simps) (simp add: unat_eq_zero)
    ultimately show ?thesis using False
      by (subst encodeVarintBridge.simps) (auto simp: sovBridge_conv)
  qed
qed

lemma encodeVarint_not_Nil [simp]: "encodeVarintBridge v \<noteq> []"
  by (subst encodeVarintBridge.simps) simp

lemma sovBridge_bounds: "1 \<le> sovBridge v \<and> sovBridge v \<le> 10"
proof -
  have "unat v < 2 ^ 64" using unsigned_less[of v] by simp
  then have "bitlen (unat v) \<le> 64" by (rule bitlen_le)
  moreover have "sovBridge v = length (encodeVarintBridge v)" by (simp add: length_encodeVarint)
  moreover have "0 < length (encodeVarintBridge v)" by simp
  moreover have "sovBridge v \<le> (64 + 6) div 7"
    using calculation(1) by (auto simp: sovBridge_conv intro: div_le_mono)
  ultimately show ?thesis by (simp add: Suc_le_eq)
qed

section \<open>Decoding what was encoded\<close>

text \<open>The low seven bits first, the rest seven bits further up.\<close>

lemma bit_0x80_64: "bit (0x80 :: 64 word) n \<longleftrightarrow> n = 7"
proof -
  have e: "(0x80 :: 64 word) = 2 ^ 7" by simp
  show ?thesis unfolding e by (auto simp only: bit_exp_iff) simp_all
qed

lemma bit_0x7f_64: "bit (0x7F :: 64 word) n \<longleftrightarrow> n < 7"
proof -
  have e: "(0x7F :: 64 word) = mask 7" by (simp add: mask_eq_exp_minus_1)
  show ?thesis unfolding e by (auto simp only: bit_mask_iff) simp_all
qed

lemma bit_0x7f_8: "bit (0x7F :: byte) n \<longleftrightarrow> n < 7"
proof -
  have e: "(0x7F :: byte) = mask 7" by (simp add: mask_eq_exp_minus_1)
  show ?thesis unfolding e by (auto simp only: bit_mask_iff) simp_all
qed

lemma bit_127: "bit (127 :: int) n \<longleftrightarrow> n < 7" "bit (127 :: nat) n \<longleftrightarrow> n < 7"
proof -
  have "(127 :: int) = mask 7" "(127 :: nat) = mask 7" by (simp_all add: mask_eq_exp_minus_1)
  then show "bit (127 :: int) n \<longleftrightarrow> n < 7" "bit (127 :: nat) n \<longleftrightarrow> n < 7"
    by (simp_all only: bit_mask_iff) simp_all
qed

lemma bit_128: "bit (128 :: int) n \<longleftrightarrow> n = 7" "bit (128 :: nat) n \<longleftrightarrow> n = 7"
proof -
  have "(128 :: int) = 2 ^ 7" "(128 :: nat) = 2 ^ 7" by simp_all
  then show "bit (128 :: int) n \<longleftrightarrow> n = 7" "bit (128 :: nat) n \<longleftrightarrow> n = 7"
    by (simp_all only: bit_exp_iff) auto
qed

lemmas byte_bits = bit_0x80_64 bit_0x7f_64 bit_0x7f_8 bit_127 bit_128

lemma bit_below: "unat (v :: 'a :: len word) < 128 \<Longrightarrow> bit v n \<Longrightarrow> n < 7"
proof (rule ccontr)
  assume v: "unat v < 128" "bit v n" "\<not> n < 7"
  have "(2 :: nat) ^ 7 \<le> 2 ^ n" using v(3) by (intro power_increasing) auto
  then have "unat v div 2 ^ n = 0" using v(1) by simp
  moreover have "bit (unat v) n" using v(2) by (simp add: bit_simps)
  ultimately show False by (simp add: bit_iff_odd)
qed

lemma ucast_low7:
  "ucast ((ucast (v AND 0x7f OR 0x80 :: 64 word) :: byte) AND 0x7F) = (ucast (v AND 0x7f) :: 'a :: len word)"
  by (rule bit_word_eqI) (auto simp: bit_simps byte_bits)

lemma ucast_last7:
  "unat v < 128 \<Longrightarrow> ucast ((ucast (v :: 64 word) :: byte) AND 0x7F) = (ucast v :: 'a :: len word)"
  by (rule bit_word_eqI) (auto simp: bit_simps byte_bits dest: bit_below)

lemma more_flag: "\<not> (ucast (v AND 0x7f OR 0x80 :: 64 word) :: byte) < 0x80"
proof
  let ?b = "ucast (v AND 0x7f OR 0x80 :: 64 word) :: byte"
  assume "?b < 0x80"
  then have "unat ?b < 128" by (simp add: word_less_nat_alt)
  moreover have "bit ?b 7" by (simp add: bit_simps byte_bits)
  ultimately show False using bit_below by blast
qed

lemma last_flag: "unat v < 128 \<Longrightarrow> (ucast (v :: 64 word) :: byte) < 0x80"
  by (simp add: word_less_nat_alt unsigned_ucast_eq take_bit_nat_eq_self)

lemma push_split7:
  "push_bit s (ucast (v AND 0x7f)) OR push_bit (s + 7) (ucast (drop_bit 7 v)) =
     (push_bit s (ucast (v :: 64 word)) :: 'a :: len word)"
proof (rule bit_word_eqI)
  fix n assume "n < LENGTH('a)"
  moreover have "\<not> n < s + 7 \<Longrightarrow> 7 + (n - (s + 7)) = n - s" by simp
  moreover have "bit v k \<Longrightarrow> k < 64" for k using bit_imp_le_length[of v k] by simp
  ultimately show "bit (push_bit s (ucast (v AND 0x7f)) OR push_bit (s + 7) (ucast (drop_bit 7 v)) :: 'a word) n =
      bit (push_bit s (ucast v) :: 'a word) n"
    by (cases "n < s + 7") (auto simp: bit_simps byte_bits)
qed

text \<open>An encoding inside the data is decoded to the value, whatever surrounds it.\<close>

lemma varint_loop_encode:
  assumes "drop i d = encodeVarintBridge v @ rest" "unat v < 2 ^ (64 - s)" "s < 64" "i \<le> length d"
  shows "varint_loop d i s acc = Inr (acc OR push_bit s (ucast v), i + length (encodeVarintBridge v))"
  using assms
proof (induction v arbitrary: i s acc rule: encodeVarintBridge.induct)
  case (1 v)
  have i: "i < length d" using "1.prems"(1) by (metis append_is_Nil_conv drop_eq_Nil encodeVarint_not_Nil not_le)
  then have di: "drop i d = d ! i # drop (Suc i) d" by (simp add: Cons_nth_drop_Suc)
  show ?case
  proof (cases "v \<ge> push_bit 7 1")
    case True
    let ?b = "ucast (v AND 0x7f OR 0x80) :: byte"
    have enc: "encodeVarintBridge v = ?b # encodeVarintBridge (drop_bit 7 v)"
      using True by (subst encodeVarintBridge.simps) simp
    have b: "d ! i = ?b" and rest: "drop (Suc i) d = encodeVarintBridge (drop_bit 7 v) @ rest"
      using "1.prems"(1) di enc by simp_all
    have big: "128 \<le> unat v" using True by (simp add: varint_limit)
    have s: "s + 7 < 64"
    proof (rule ccontr)
      assume "\<not> s + 7 < 64"
      then have "(2 :: nat) ^ (64 - s) \<le> 2 ^ 7" by (intro power_increasing) auto
      then show False using "1.prems"(2) big by simp
    qed
    have "64 - s = (64 - (s + 7)) + 7" using s by simp
    then have "(2 :: nat) ^ (64 - s) = 2 ^ (64 - (s + 7)) * 2 ^ 7" by (metis power_add)
    then have "unat v < 2 ^ (64 - (s + 7)) * 128" using "1.prems"(2) by simp
    then have small: "unat (drop_bit 7 v) < 2 ^ (64 - (s + 7))"
      using unat_drop7[of v] by (simp add: less_mult_imp_div_less)
    have "varint_loop d (Suc i) (s + 7) (acc OR push_bit s (ucast (v AND 0x7f))) =
        Inr ((acc OR push_bit s (ucast (v AND 0x7f))) OR push_bit (s + 7) (ucast (drop_bit 7 v)),
          Suc i + length (encodeVarintBridge (drop_bit 7 v)))"
      using "1.IH"[OF True rest small s] i by simp
    then show ?thesis using i s b more_flag[of v] enc
      by (subst varint_loop.simps) (simp add: ucast_low7 or.assoc push_split7)
  next
    case False
    then have v: "unat v < 128" by (simp add: varint_limit)
    have enc: "encodeVarintBridge v = [ucast v]" using False by (subst encodeVarintBridge.simps) simp
    then have "d ! i = ucast v" using "1.prems"(1) di by simp
    then show ?thesis using i "1.prems"(3) enc last_flag[OF v]
      by (subst varint_loop.simps) (simp add: ucast_last7[OF v])
  qed
qed

lemma get_varint_encode:
  assumes "drop i d = encodeVarintBridge v @ rest" "i \<le> length d"
  shows "get_varint d i = Inr (ucast v, i + length (encodeVarintBridge v))"
proof -
  have "unat v < 2 ^ (64 - 0)" using unsigned_less[of v] by simp
  then show ?thesis using varint_loop_encode[OF assms(1), of 0 0] assms(2) by (simp add: get_varint_def)
qed

text \<open>The stream reader agrees with the index loop on the bytes it reads.\<close>

lemma readVarint_loop_conv:
  "i \<le> length d \<Longrightarrow>
     (\<forall>v j. varint_loop d i s acc = Inr (v, j) \<longrightarrow>
        readVarint_loop s acc e (drop i d) = (Inr v, e + (j - i), drop j d) \<and> i < j)
   \<and> (\<forall>err. varint_loop d i s acc = Inl err \<longrightarrow> fst (readVarint_loop s acc e (drop i d)) = Inl err)"
proof (induction d i s acc arbitrary: e rule: varint_loop.induct)
  case (1 d i s acc)
  show ?case
  proof (cases "s \<ge> 64 \<or> i \<ge> length d")
    case True
    then have "\<exists>err. varint_loop d i s acc = Inl err \<and> fst (readVarint_loop s acc e (drop i d)) = Inl err"
      by (subst varint_loop.simps, subst readVarint_loop.simps) auto
    then show ?thesis by auto
  next
    case False
    let ?acc = "acc OR push_bit s (ucast (d ! i AND 0x7F))"
    have d: "drop i d = d ! i # drop (Suc i) d" using False by (simp add: Cons_nth_drop_Suc)
    have v: "varint_loop d i s acc =
        (if d ! i < 0x80 then Inr (?acc, i + 1) else varint_loop d (i + 1) (s + 7) ?acc)"
      using False by (subst varint_loop.simps) (simp add: Let_def)
    have r: "readVarint_loop s acc e (drop i d) =
        (if d ! i < 0x80 then (Inr ?acc, e + 1, drop (Suc i) d)
         else readVarint_loop (s + 7) ?acc (e + 1) (drop (Suc i) d))" for e
      using False by (subst readVarint_loop.simps) (simp add: Let_def d)
    show ?thesis
    proof (cases "d ! i < 0x80")
      case True
      then show ?thesis using False by (simp add: v r)
    next
      case b: False
      have "Suc i \<le> length d" using False by simp
      from "1.IH"[of "d ! i" ?acc "e + 1"] this False b show ?thesis
        by (simp add: v r) force
    qed
  qed
qed

lemma readVarint_encode:
  "readVarint (encodeVarintBridge v @ rest) = (Inr v, length (encodeVarintBridge v), rest)"
proof -
  have g: "get_varint (encodeVarintBridge v @ rest) 0 = Inr (v, length (encodeVarintBridge v))"
    using get_varint_encode[of 0 "encodeVarintBridge v @ rest" v rest, where ?'a = 64] by simp
  show ?thesis
    using readVarint_loop_conv[of 0 "encodeVarintBridge v @ rest" 0 0 0] g
    by (simp add: readVarint_def get_varint_def)
qed

text \<open>Neither loop reads more than ten bytes.\<close>

lemma varint_loop_eaten: "varint_loop d i s acc = Inr (v, j) \<Longrightarrow> 7 * (j - i) \<le> 70 - s \<and> i < j \<and> j \<le> length d"
proof (induction d i s acc rule: varint_loop.induct)
  case (1 d i s acc)
  let ?acc = "acc OR push_bit s (ucast (d ! i AND 0x7F))"
  have nz: "s < 64" "i < length d" using "1.prems" by (auto simp: varint_loop.simps[of d i s] split: if_splits)
  show ?case
  proof (cases "d ! i < 0x80")
    case True
    then show ?thesis using "1.prems" nz by (subst (asm) varint_loop.simps) (auto simp: Let_def)
  next
    case False
    then have "varint_loop d (i + 1) (s + 7) ?acc = Inr (v, j)"
      using "1.prems" nz by (subst (asm) varint_loop.simps) (simp add: Let_def)
    then have "7 * (j - (i + 1)) \<le> 70 - (s + 7) \<and> i + 1 < j \<and> j \<le> length d"
      using "1.IH"[of "d ! i" ?acc] nz False by simp
    then show ?thesis using nz by auto
  qed
qed

lemma get_varint_eaten: "get_varint d i = Inr (v, j) \<Longrightarrow> i < j \<and> j \<le> i + 10 \<and> j \<le> length d"
  using varint_loop_eaten[of d i 0 0 v j] by (auto simp: get_varint_def)

end
