(* ===== verification/Bridge.thy ===== *)
theory Bridge
  imports Varint GoStrings
begin

text \<open>
  The messages between the agent and its plugins, \<open>plugins/lib/go/bridge.pb.go\<close>: \<open>Record\<close> with its
  \<open>Payload\<close> (plugin to agent) and \<open>Task\<close> (agent to plugin).  Go strings are byte lists here.

  The marshallers fill a buffer of \<open>Size()\<close> bytes from its end; \<open>sized_buffer\<close> is that buffer, and
  writing more than fits is the out-of-range panic \<^const>\<open>None\<close>.  The unmarshallers walk an index
  through the data and are modelled with it, since the loop over a map entry may read past the end
  of the entry before it is reset.  Indices are below \<open>2 ^ 63\<close>, so a sum that reaches it has
  overflowed to a negative number.

  The locale \<open>wire_message\<close> is what the framing code relies on.
\<close>

type_synonym bytes = "byte list"

record Payload =
  pl_Fields :: "(bytes, bytes) gomap"

record Record =
  rec_DataType :: "32 word"
  rec_Timestamp :: "64 word"
  rec_Data :: "Payload option"

record Task =
  tk_DataType :: "32 word"
  tk_ObjectName :: bytes
  tk_Data :: bytes
  tk_Token :: bytes

section \<open>Marshalling\<close>

abbreviation enc_len :: "'a list \<Rightarrow> bytes" where
  "enc_len xs \<equiv> encodeVarintBridge (of_nat (length xs))"

definition sized_buffer :: "nat \<Rightarrow> bytes \<Rightarrow> bytes option" where
  "sized_buffer n content =
     (if length content \<le> n then Some (replicate (n - length content) 0 @ content) else None)"

definition map_entry :: "bytes \<Rightarrow> bytes \<Rightarrow> bytes" where
  "map_entry k v = 0x0a # enc_len k @ k @ 0x12 # enc_len v @ v"

definition Payload_bytes :: "Payload \<Rightarrow> bytes" where
  "Payload_bytes m =
     foldl (\<lambda>dAtA (k, v). 0x0a # enc_len (map_entry k v) @ map_entry k v @ dAtA) [] (pl_Fields m)"

definition Payload_Size :: "Payload \<Rightarrow> nat" where
  "Payload_Size m =
     foldl (\<lambda>n (k, v).
       let mapEntrySize = 1 + length k + sovBridge (of_nat (length k)) + 1 + length v + sovBridge (of_nat (length v))
       in n + mapEntrySize + 1 + sovBridge (of_nat mapEntrySize)) 0 (pl_Fields m)"

definition Record_bytes :: "Record \<Rightarrow> bytes" where
  "Record_bytes m =
     (if rec_DataType m \<noteq> 0 then 0x08 # encodeVarintBridge (scast (rec_DataType m)) else []) @
     (if rec_Timestamp m \<noteq> 0 then 0x10 # encodeVarintBridge (rec_Timestamp m) else []) @
     (case rec_Data m of None \<Rightarrow> [] | Some p \<Rightarrow> 0x1a # enc_len (Payload_bytes p) @ Payload_bytes p)"

definition Record_Size :: "Record \<Rightarrow> nat" where
  "Record_Size m =
     (if rec_DataType m \<noteq> 0 then 1 + sovBridge (scast (rec_DataType m)) else 0) +
     (if rec_Timestamp m \<noteq> 0 then 1 + sovBridge (rec_Timestamp m) else 0) +
     (case rec_Data m of None \<Rightarrow> 0 | Some p \<Rightarrow> let l = Payload_Size p in 1 + l + sovBridge (of_nat l))"

definition Task_bytes :: "Task \<Rightarrow> bytes" where
  "Task_bytes m =
     (if tk_DataType m \<noteq> 0 then 0x08 # encodeVarintBridge (scast (tk_DataType m)) else []) @
     (if length (tk_ObjectName m) > 0 then 0x12 # enc_len (tk_ObjectName m) @ tk_ObjectName m else []) @
     (if length (tk_Data m) > 0 then 0x1a # enc_len (tk_Data m) @ tk_Data m else []) @
     (if length (tk_Token m) > 0 then 0x22 # enc_len (tk_Token m) @ tk_Token m else [])"

definition str_size :: "bytes \<Rightarrow> nat" where
  "str_size s = (let l = length s in if l > 0 then 1 + l + sovBridge (of_nat l) else 0)"

definition Task_Size :: "Task \<Rightarrow> nat" where
  "Task_Size m =
     (if tk_DataType m \<noteq> 0 then 1 + sovBridge (scast (tk_DataType m)) else 0) +
     str_size (tk_ObjectName m) + str_size (tk_Data m) + str_size (tk_Token m)"

definition Payload_Marshal :: "Payload \<Rightarrow> bytes option" where
  "Payload_Marshal m = map_option (take (length (Payload_bytes m))) (sized_buffer (Payload_Size m) (Payload_bytes m))"

definition Record_Marshal :: "Record \<Rightarrow> bytes option" where
  "Record_Marshal m = map_option (take (length (Record_bytes m))) (sized_buffer (Record_Size m) (Record_bytes m))"

definition Task_Marshal :: "Task \<Rightarrow> bytes option" where
  "Task_Marshal m = map_option (take (length (Task_bytes m))) (sized_buffer (Task_Size m) (Task_bytes m))"

section \<open>Unmarshalling\<close>

text \<open>A length and the span it announces: the index behind the length and the end of the span.\<close>

definition get_span :: "bytes \<Rightarrow> nat \<Rightarrow> proto_error + (nat \<times> nat)" where
  "get_span d i =
     (case (get_varint d i :: proto_error + (64 word \<times> nat)) of
        Inl e \<Rightarrow> Inl e
      | Inr (w, j) \<Rightarrow>
          (let n = sint w
           in if n < 0 then Inl ErrInvalidLength
              else if int j + n \<ge> 2 ^ 63 then Inl ErrInvalidLength
              else if int j + n > int (length d) then Inl UnexpectedEOF
              else Inr (j, j + nat n)))"

definition slice :: "bytes \<Rightarrow> nat \<Rightarrow> nat \<Rightarrow> bytes" where
  "slice d i j = take (j - i) (drop i d)"

text \<open>Where one field ends, by its wire type; \<^const>\<open>None\<close> for the depth of an unopened group.\<close>

definition skip_body :: "bytes \<Rightarrow> nat \<Rightarrow> nat \<Rightarrow> nat \<Rightarrow> proto_error + (nat \<times> nat)" where
  "skip_body d j wireType depth =
     (if wireType = 0 then
        (case (get_varint d j :: proto_error + (64 word \<times> nat)) of Inl e \<Rightarrow> Inl e | Inr (_, k) \<Rightarrow> Inr (k, depth))
      else if wireType = 1 then Inr (j + 8, depth)
      else if wireType = 2 then
        (case (get_varint d j :: proto_error + (64 word \<times> nat)) of
           Inl e \<Rightarrow> Inl e
         | Inr (w, k) \<Rightarrow>
             if sint w < 0 then Inl ErrInvalidLength
             else if int k + sint w \<ge> 2 ^ 63 then Inl ErrInvalidLength
             else Inr (k + nat (sint w), depth))
      else if wireType = 3 then Inr (j, depth + 1)
      else if wireType = 4 then (if depth = 0 then Inl ErrUnexpectedEndOfGroup else Inr (j, depth - 1))
      else if wireType = 5 then Inr (j + 4, depth)
      else Inl (ProtoError (''proto: illegal wireType '' @ Itoa (int wireType))))"

lemma skip_body_ge: "skip_body d j wt depth = Inr (k, depth') \<Longrightarrow> j \<le> k"
  by (auto simp: skip_body_def split: if_splits sum.splits dest: get_varint_eaten)

function skip_loop :: "bytes \<Rightarrow> nat \<Rightarrow> nat \<Rightarrow> proto_error + nat" where
  "skip_loop d i depth =
     (if i < length d then
        (case (get_varint d i :: proto_error + (64 word \<times> nat)) of
           Inl e \<Rightarrow> Inl e
         | Inr (wire, j) \<Rightarrow>
             (case skip_body d j (unat (wire AND 7)) depth of
                Inl e \<Rightarrow> Inl e
              | Inr (k, depth') \<Rightarrow> if depth' = 0 then Inr k else skip_loop d k depth'))
      else Inl UnexpectedEOF)"
  by pat_completeness auto
termination
  by (relation "measure (\<lambda>(d, i, depth). length d - i)")
    (auto dest!: get_varint_eaten skip_body_ge)

declare skip_loop.simps [simp del]

definition skipBridge :: "bytes \<Rightarrow> proto_error + nat" where
  "skipBridge d = skip_loop d 0 0"

lemma skip_loop_gt: "skip_loop d i depth = Inr k \<Longrightarrow> i < k"
proof (induction d i depth rule: skip_loop.induct)
  case (1 d i depth)
  obtain wire :: "64 word" and j k' depth' where g: "i < length d" "get_varint d i = Inr (wire, j)"
      "skip_body d j (unat (wire AND 7)) depth = Inr (k', depth')"
      "if depth' = 0 then k = k' else skip_loop d k' depth' = Inr k"
    using "1.prems" by (subst (asm) skip_loop.simps) (auto split: if_splits sum.splits)
  then have "i < j" "j \<le> k'" using get_varint_eaten skip_body_ge by blast+
  then show ?case using g "1.IH"[OF g(1,2) refl g(3) refl] by (fastforce split: if_splits)
qed

text \<open>The default branch of the decoders: skip one unknown field that has to end before \<open>bound\<close>.\<close>

definition skip_field :: "bytes \<Rightarrow> nat \<Rightarrow> nat \<Rightarrow> proto_error + nat" where
  "skip_field d i bound =
     (case skipBridge (drop i d) of
        Inl e \<Rightarrow> Inl e
      | Inr skippy \<Rightarrow>
          if i + skippy \<ge> 2 ^ 63 then Inl ErrInvalidLength
          else if i + skippy > bound then Inl UnexpectedEOF
          else Inr (i + skippy))"

lemma skip_field_gt: "skip_field d i bound = Inr k \<Longrightarrow> i < k \<and> k \<le> bound"
  by (auto simp: skip_field_def skipBridge_def split: sum.splits if_splits dest!: skip_loop_gt)

lemma get_span_bounds: "get_span d i = Inr (j, k) \<Longrightarrow> i < j \<and> j \<le> k \<and> k \<le> length d"
  by (auto simp: get_span_def Let_def split: sum.splits if_splits dest!: get_varint_eaten)

definition field_num :: "64 word \<Rightarrow> int" where
  "field_num wire = sint (ucast (drop_bit 3 wire) :: 32 word)"

definition wire_type :: "64 word \<Rightarrow> nat" where
  "wire_type wire = unat (wire AND 7)"

definition wrong_wire :: "nat \<Rightarrow> string \<Rightarrow> proto_error" where
  "wrong_wire wt field = ProtoError (''proto: wrong wireType = '' @ Itoa (int wt) @ '' for field '' @ field)"

definition illegal_tag :: "string \<Rightarrow> int \<Rightarrow> 64 word \<Rightarrow> proto_error" where
  "illegal_tag msg fnum wire =
     ProtoError (''proto: '' @ msg @ '': illegal tag '' @ Itoa fnum @ '' (wire type '' @ Itoa (uint wire) @ '')'')"

definition end_group :: "string \<Rightarrow> proto_error" where
  "end_group msg = ProtoError (''proto: '' @ msg @ '': wiretype end group for non-group'')"

function entry_loop :: "bytes \<Rightarrow> nat \<Rightarrow> nat \<Rightarrow> bytes \<Rightarrow> bytes \<Rightarrow> proto_error + (bytes \<times> bytes)" where
  "entry_loop d i postIndex mapkey mapvalue =
     (if i < postIndex then
        (case (get_varint d i :: proto_error + (64 word \<times> nat)) of
           Inl e \<Rightarrow> Inl e
         | Inr (wire, j) \<Rightarrow>
             if field_num wire = 1 then
               (case get_span d j of
                  Inl e \<Rightarrow> Inl e
                | Inr (a, b) \<Rightarrow> entry_loop d b postIndex (slice d a b) mapvalue)
             else if field_num wire = 2 then
               (case get_span d j of
                  Inl e \<Rightarrow> Inl e
                | Inr (a, b) \<Rightarrow> entry_loop d b postIndex mapkey (slice d a b))
             else
               (case skip_field d i postIndex of
                  Inl e \<Rightarrow> Inl e
                | Inr k \<Rightarrow> entry_loop d k postIndex mapkey mapvalue))
      else Inr (mapkey, mapvalue))"
  by pat_completeness auto
termination
  by (relation "measure (\<lambda>(d, i, postIndex, _, _). postIndex - i)")
    (auto dest!: get_varint_eaten get_span_bounds skip_field_gt)

declare entry_loop.simps [simp del]

function Payload_loop :: "bytes \<Rightarrow> nat \<Rightarrow> Payload \<Rightarrow> proto_error + Payload" where
  "Payload_loop d i m =
     (if i < length d then
        (case (get_varint d i :: proto_error + (64 word \<times> nat)) of
           Inl e \<Rightarrow> Inl e
         | Inr (wire, j) \<Rightarrow>
             if wire_type wire = 4 then Inl (end_group ''Payload'')
             else if field_num wire \<le> 0 then Inl (illegal_tag ''Payload'' (field_num wire) wire)
             else if field_num wire = 1 then
               (if wire_type wire \<noteq> 2 then Inl (wrong_wire (wire_type wire) ''Fields'')
                else case get_span d j of
                  Inl e \<Rightarrow> Inl e
                | Inr (a, postIndex) \<Rightarrow>
                    (case entry_loop d a postIndex [] [] of
                       Inl e \<Rightarrow> Inl e
                     | Inr (mapkey, mapvalue) \<Rightarrow>
                         Payload_loop d postIndex (m\<lparr>pl_Fields := mput (pl_Fields m) mapkey mapvalue\<rparr>)))
             else
               (case skip_field d i (length d) of
                  Inl e \<Rightarrow> Inl e
                | Inr k \<Rightarrow> Payload_loop d k m))
      else if i > length d then Inl UnexpectedEOF else Inr m)"
  by pat_completeness auto
termination
  by (relation "measure (\<lambda>(d, i, _). length d - i)")
    (auto dest!: get_varint_eaten get_span_bounds skip_field_gt)

declare Payload_loop.simps [simp del]

definition Payload_Unmarshal :: "Payload \<Rightarrow> bytes \<Rightarrow> proto_error + Payload" where
  "Payload_Unmarshal m d = Payload_loop d 0 m"

function Record_loop :: "bytes \<Rightarrow> nat \<Rightarrow> Record \<Rightarrow> proto_error + Record" where
  "Record_loop d i m =
     (if i < length d then
        (case (get_varint d i :: proto_error + (64 word \<times> nat)) of
           Inl e \<Rightarrow> Inl e
         | Inr (wire, j) \<Rightarrow>
             if wire_type wire = 4 then Inl (end_group ''Record'')
             else if field_num wire \<le> 0 then Inl (illegal_tag ''Record'' (field_num wire) wire)
             else if field_num wire = 1 then
               (if wire_type wire \<noteq> 0 then Inl (wrong_wire (wire_type wire) ''DataType'')
                else case get_varint d j of
                  Inl e \<Rightarrow> Inl e | Inr (v, k) \<Rightarrow> Record_loop d k (m\<lparr>rec_DataType := v\<rparr>))
             else if field_num wire = 2 then
               (if wire_type wire \<noteq> 0 then Inl (wrong_wire (wire_type wire) ''Timestamp'')
                else case get_varint d j of
                  Inl e \<Rightarrow> Inl e | Inr (v, k) \<Rightarrow> Record_loop d k (m\<lparr>rec_Timestamp := v\<rparr>))
             else if field_num wire = 3 then
               (if wire_type wire \<noteq> 2 then Inl (wrong_wire (wire_type wire) ''Data'')
                else case get_span d j of
                  Inl e \<Rightarrow> Inl e
                | Inr (a, postIndex) \<Rightarrow>
                    (case Payload_Unmarshal
                            (case rec_Data m of None \<Rightarrow> \<lparr>pl_Fields = []\<rparr> | Some p \<Rightarrow> p) (slice d a postIndex) of
                       Inl e \<Rightarrow> Inl e
                     | Inr p \<Rightarrow> Record_loop d postIndex (m\<lparr>rec_Data := Some p\<rparr>)))
             else
               (case skip_field d i (length d) of
                  Inl e \<Rightarrow> Inl e
                | Inr k \<Rightarrow> Record_loop d k m))
      else if i > length d then Inl UnexpectedEOF else Inr m)"
  by pat_completeness auto
termination
  by (relation "measure (\<lambda>(d, i, _). length d - i)")
    (auto dest!: get_varint_eaten get_span_bounds skip_field_gt)

declare Record_loop.simps [simp del]

definition Record_Unmarshal :: "Record \<Rightarrow> bytes \<Rightarrow> proto_error + Record" where
  "Record_Unmarshal m d = Record_loop d 0 m"

function Task_loop :: "bytes \<Rightarrow> nat \<Rightarrow> Task \<Rightarrow> proto_error + Task" where
  "Task_loop d i m =
     (if i < length d then
        (case (get_varint d i :: proto_error + (64 word \<times> nat)) of
           Inl e \<Rightarrow> Inl e
         | Inr (wire, j) \<Rightarrow>
             if wire_type wire = 4 then Inl (end_group ''Task'')
             else if field_num wire \<le> 0 then Inl (illegal_tag ''Task'' (field_num wire) wire)
             else if field_num wire = 1 then
               (if wire_type wire \<noteq> 0 then Inl (wrong_wire (wire_type wire) ''DataType'')
                else case get_varint d j of
                  Inl e \<Rightarrow> Inl e | Inr (v, k) \<Rightarrow> Task_loop d k (m\<lparr>tk_DataType := v\<rparr>))
             else if field_num wire = 2 then
               (if wire_type wire \<noteq> 2 then Inl (wrong_wire (wire_type wire) ''ObjectName'')
                else case get_span d j of
                  Inl e \<Rightarrow> Inl e | Inr (a, b) \<Rightarrow> Task_loop d b (m\<lparr>tk_ObjectName := slice d a b\<rparr>))
             else if field_num wire = 3 then
               (if wire_type wire \<noteq> 2 then Inl (wrong_wire (wire_type wire) ''Data'')
                else case get_span d j of
                  Inl e \<Rightarrow> Inl e | Inr (a, b) \<Rightarrow> Task_loop d b (m\<lparr>tk_Data := slice d a b\<rparr>))
             else if field_num wire = 4 then
               (if wire_type wire \<noteq> 2 then Inl (wrong_wire (wire_type wire) ''Token'')
                else case get_span d j of
                  Inl e \<Rightarrow> Inl e | Inr (a, b) \<Rightarrow> Task_loop d b (m\<lparr>tk_Token := slice d a b\<rparr>))
             else
               (case skip_field d i (length d) of
                  Inl e \<Rightarrow> Inl e
                | Inr k \<Rightarrow> Task_loop d k m))
      else if i > length d then Inl UnexpectedEOF else Inr m)"
  by pat_completeness auto
termination
  by (relation "measure (\<lambda>(d, i, _). length d - i)")
    (auto dest!: get_varint_eaten get_span_bounds skip_field_gt)

declare Task_loop.simps [simp del]

definition Task_Unmarshal :: "Task \<Rightarrow> bytes \<Rightarrow> proto_error + Task" where
  "Task_Unmarshal m d = Task_loop d 0 m"

end
