(* ===== verification/BridgeCodec.thy ===== *)
theory BridgeCodec
  imports Bridge
begin

text \<open>
  The marshallers and unmarshallers of the plugin messages are inverse to each other: buffer sizes
  are exact and decoding an encoded message gives the message back (the entries of a payload come
  back in another order, which a Go map does not show).
\<close>

section \<open>Sizes\<close>

lemma length_map_entry:
  "length (map_entry k v) = 1 + length k + sovBridge (of_nat (length k)) + 1 + length v + sovBridge (of_nat (length v))"
  by (simp add: map_entry_def length_encodeVarint)

lemma Payload_Size_exact: "length (Payload_bytes m) = Payload_Size m"
proof -
  have "length (foldl (\<lambda>dAtA (k, v). 0x0a # enc_len (map_entry k v) @ map_entry k v @ dAtA) acc fs) =
      foldl (\<lambda>n (k, v). n + length (map_entry k v) + 1 + sovBridge (of_nat (length (map_entry k v)))) (length acc) fs" for acc fs
  proof (induction fs arbitrary: acc)
    case (Cons p fs)
    obtain k v where p: "p = (k, v)" by (cases p)
    let ?acc = "0x0a # enc_len (map_entry k v) @ map_entry k v @ acc"
    have "length ?acc = length acc + length (map_entry k v) + 1 + sovBridge (of_nat (length (map_entry k v)))"
      by (simp add: length_encodeVarint)
    then show ?case using Cons[of ?acc] by (simp add: p ac_simps)
  qed simp
  from this[of "[]" "pl_Fields m"] show ?thesis
    by (simp add: Payload_bytes_def Payload_Size_def Let_def length_map_entry[symmetric, simplified])
qed

lemma Record_Size_exact: "length (Record_bytes m) = Record_Size m"
  by (simp add: Record_bytes_def Record_Size_def length_encodeVarint Payload_Size_exact Let_def split: option.splits)

lemma Task_Size_exact: "length (Task_bytes m) = Task_Size m"
  by (simp add: Task_bytes_def Task_Size_def str_size_def length_encodeVarint Let_def)

lemma Marshal_conv:
  "Payload_Marshal p = Some (Payload_bytes p)" "Record_Marshal r = Some (Record_bytes r)"
  "Task_Marshal t = Some (Task_bytes t)"
  by (simp_all add: Payload_Marshal_def Record_Marshal_def Task_Marshal_def sized_buffer_def
      Payload_Size_exact Record_Size_exact Task_Size_exact)

section \<open>Tags and spans\<close>

lemma encode_tags:
  "encodeVarintBridge 0x08 = [0x08]" "encodeVarintBridge 0x0a = [0x0a]" "encodeVarintBridge 0x10 = [0x10]"
  "encodeVarintBridge 0x12 = [0x12]" "encodeVarintBridge 0x1a = [0x1a]" "encodeVarintBridge 0x22 = [0x22]"
  by (simp_all add: encodeVarintBridge.simps)

lemma tag_nums [simp]:
  "field_num 0x08 = 1" "field_num 0x0a = 1" "field_num 0x10 = 2" "field_num 0x12 = 2" "field_num 0x1a = 3" "field_num 0x22 = 4"
  "wire_type 0x08 = 0" "wire_type 0x0a = 2" "wire_type 0x10 = 0" "wire_type 0x12 = 2" "wire_type 0x1a = 2" "wire_type 0x22 = 2"
  by code_simp+

lemma get_tag:
  assumes "drop i d = encodeVarintBridge (t :: 64 word) @ rest" "i \<le> length d"
  shows "get_varint d i = Inr (t, i + length (encodeVarintBridge t))"
proof -
  have "get_varint d i = Inr (ucast t :: 64 word, i + length (encodeVarintBridge t))"
    by (rule get_varint_encode[OF assms])
  then show ?thesis by simp
qed

lemma get_tags:
  assumes "drop i d = tag # rest"
  shows "tag = 0x08 \<Longrightarrow> get_varint d i = Inr (0x08 :: 64 word, Suc i)"
    "tag = 0x0a \<Longrightarrow> get_varint d i = Inr (0x0a :: 64 word, Suc i)"
    "tag = 0x10 \<Longrightarrow> get_varint d i = Inr (0x10 :: 64 word, Suc i)"
    "tag = 0x12 \<Longrightarrow> get_varint d i = Inr (0x12 :: 64 word, Suc i)"
    "tag = 0x1a \<Longrightarrow> get_varint d i = Inr (0x1a :: 64 word, Suc i)"
    "tag = 0x22 \<Longrightarrow> get_varint d i = Inr (0x22 :: 64 word, Suc i)"
proof -
  have i: "i \<le> length d" using assms by (metis drop_all list.discI nat_le_linear)
  show "tag = 0x08 \<Longrightarrow> get_varint d i = Inr (0x08 :: 64 word, Suc i)"
    "tag = 0x0a \<Longrightarrow> get_varint d i = Inr (0x0a :: 64 word, Suc i)"
    "tag = 0x10 \<Longrightarrow> get_varint d i = Inr (0x10 :: 64 word, Suc i)"
    "tag = 0x12 \<Longrightarrow> get_varint d i = Inr (0x12 :: 64 word, Suc i)"
    "tag = 0x1a \<Longrightarrow> get_varint d i = Inr (0x1a :: 64 word, Suc i)"
    "tag = 0x22 \<Longrightarrow> get_varint d i = Inr (0x22 :: 64 word, Suc i)"
    using get_tag[of i d "0x08" rest] get_tag[of i d "0x0a" rest] get_tag[of i d "0x10" rest]
      get_tag[of i d "0x12" rest] get_tag[of i d "0x1a" rest] get_tag[of i d "0x22" rest] assms i
    by (simp_all add: encode_tags)
qed

lemma drop_Suc_Cons: "drop i d = x # xs \<Longrightarrow> drop (Suc i) d = xs \<and> i < length d"
  by (metis drop_Suc drop_tl list.sel(3) drop_eq_Nil list.discI not_le)

lemma drop_append_len: "drop i d = xs @ ys \<Longrightarrow> drop (i + length xs) d = ys"
  by (metis add.commute append_eq_conv_conj drop_drop)

lemma get_span_encode:
  assumes "drop i d = enc_len s @ s @ rest" "length d < 2 ^ 63"
  shows "get_span d i = Inr (i + length (enc_len s), i + length (enc_len s) + length s)"
    "slice d (i + length (enc_len s)) (i + length (enc_len s) + length s) = s"
    "drop (i + length (enc_len s) + length s) d = rest"
proof -
  have i: "i \<le> length d" using assms(1) by (metis append_is_Nil_conv drop_all encodeVarint_not_Nil nat_le_linear)
  have d: "drop (i + length (enc_len s)) d = s @ rest" using drop_append_len[OF assms(1)] .
  then show "drop (i + length (enc_len s) + length s) d = rest" by (rule drop_append_len)
  show "slice d (i + length (enc_len s)) (i + length (enc_len s) + length s) = s" by (simp add: slice_def d)
  have len: "i + length (enc_len s) + length s \<le> length d"
    using assms(1) i by (metis add.assoc append_assoc diff_diff_cancel le_add1 le_diff_conv2 length_append length_drop add_le_cancel_left le_add_diff_inverse)
  then have "sint (of_nat (length s) :: 64 word) = int (length s)" using assms(2) by (intro sint_of_nat_64) simp
  moreover have "int (i + length (enc_len s)) + int (length s) < 2 ^ 63" using len assms(2)
    by (simp flip: of_nat_add)
  ultimately show "get_span d i = Inr (i + length (enc_len s), i + length (enc_len s) + length s)"
    using get_tag[OF assms(1) i] len by (simp add: get_span_def Let_def)
qed

section \<open>Payloads\<close>

definition frame_entry :: "bytes \<times> bytes \<Rightarrow> bytes" where
  "frame_entry e = 0x0a # enc_len (map_entry (fst e) (snd e)) @ map_entry (fst e) (snd e)"

lemma Payload_bytes_conv: "Payload_bytes m = concat (map frame_entry (rev (pl_Fields m)))"
proof -
  have "foldl (\<lambda>dAtA (k, v). 0x0a # enc_len (map_entry k v) @ map_entry k v @ dAtA) acc fs =
      concat (map frame_entry (rev fs)) @ acc" for acc fs
    by (induction fs arbitrary: acc) (auto simp: frame_entry_def)
  then show ?thesis by (simp add: Payload_bytes_def)
qed

lemma entry_loop_encode:
  assumes "drop i d = map_entry k v @ rest" "length d < 2 ^ 63"
  shows "entry_loop d i (i + length (map_entry k v)) [] [] = Inr (k, v)"
proof -
  define P where "P = i + length (map_entry k v)"
  define A where "A = Suc i + length (enc_len k)"
  define J where "J = A + length k"
  define B where "B = Suc J + length (enc_len v)"
  have d0: "drop i d = 0x0a # enc_len k @ k @ 0x12 # enc_len v @ v @ rest"
    using assms(1) by (simp add: map_entry_def)
  then have d1: "drop (Suc i) d = enc_len k @ k @ 0x12 # enc_len v @ v @ rest" by (simp add: drop_Suc_Cons)
  note s1 = get_span_encode[OF d1 assms(2), folded A_def, folded J_def]
  have d2: "drop (Suc J) d = enc_len v @ v @ rest" using drop_Suc_Cons[OF s1(3)] by simp
  have P: "P = B + length v" by (simp add: P_def B_def J_def A_def map_entry_def)
  note s2 = get_span_encode[OF d2 assms(2), folded B_def, folded P]
  have lt: "i < P" "J < P" by (simp_all add: P_def J_def A_def map_entry_def)
  have "entry_loop d i P [] [] = entry_loop d J P k []"
    using get_tags(2)[OF d0 refl] s1 lt by (subst entry_loop.simps) simp
  also have "\<dots> = entry_loop d P P k v"
    using get_tags(4)[OF s1(3) refl] s2 lt by (subst entry_loop.simps) simp
  also have "\<dots> = Inr (k, v)" by (subst entry_loop.simps) simp
  finally show ?thesis by (simp add: P_def)
qed

lemma Payload_loop_encode:
  assumes "drop i d = concat (map frame_entry es)" "length d < 2 ^ 63" "i \<le> length d"
  shows "Payload_loop d i m = Inr (m\<lparr>pl_Fields := foldl (\<lambda>f (k, v). mput f k v) (pl_Fields m) es\<rparr>)"
  using assms
proof (induction es arbitrary: i m)
  case Nil
  then have "i = length d" by simp
  then show ?case by (subst Payload_loop.simps) simp
next
  case (Cons e es)
  obtain k v where e: "e = (k, v)" by (cases e)
  let ?en = "map_entry k v" and ?rest = "concat (map frame_entry es)"
  have d0: "drop i d = 0x0a # enc_len ?en @ ?en @ ?rest" using Cons.prems(1) e by (simp add: frame_entry_def[of "(k, v)"])
  have i: "i < length d" and d1: "drop (Suc i) d = enc_len ?en @ ?en @ ?rest"
    using drop_Suc_Cons[OF d0] by simp_all
  note s1 = get_span_encode[OF d1 Cons.prems(2)]
  let ?a = "Suc i + length (enc_len ?en)"
  have "drop ?a d = ?en @ ?rest" using drop_append_len[OF d1] .
  then have entry: "entry_loop d ?a (?a + length ?en) [] [] = Inr (k, v)"
    using Cons.prems(2) by (rule entry_loop_encode)
  have le: "?a + length ?en \<le> length d" using get_span_bounds[OF s1(1)] by simp
  have "Payload_loop d i m = Payload_loop d (?a + length ?en) (m\<lparr>pl_Fields := mput (pl_Fields m) k v\<rparr>)"
    using get_tags(2)[OF d0 refl] s1 entry i by (subst Payload_loop.simps) simp
  then show ?case using Cons.IH[OF s1(3) Cons.prems(2) le] e by simp
qed

lemma Payload_roundtrip:
  assumes "wf_gomap (pl_Fields m)" "Payload_Size m < 2 ^ 63"
  shows "Payload_Unmarshal \<lparr>pl_Fields = []\<rparr> (Payload_bytes m) = Inr \<lparr>pl_Fields = rev (pl_Fields m)\<rparr>"
proof -
  have "wf_gomap ([] @ rev (pl_Fields m))" using assms(1) by (simp add: rev_map[symmetric])
  then have "foldl (\<lambda>f (k, v). mput f k v) [] (rev (pl_Fields m)) = rev (pl_Fields m)"
    using foldl_mput_copy[of "[]" "rev (pl_Fields m)"] by simp
  moreover have d: "drop 0 (Payload_bytes m) = concat (map frame_entry (rev (pl_Fields m)))"
    using Payload_bytes_conv by simp
  moreover have "length (Payload_bytes m) < 2 ^ 63" using assms(2) by (simp only: Payload_Size_exact)
  ultimately show ?thesis
    using Payload_loop_encode[OF d, of "\<lparr>pl_Fields = []\<rparr>"] by (simp add: Payload_Unmarshal_def)
qed

section \<open>Records and tasks\<close>

lemma ucast_scast_32: "ucast (scast (v :: 32 word) :: 64 word) = v"
  by (rule bit_word_eqI) (auto simp: bit_simps)

lemma get_int32:
  assumes "drop i d = encodeVarintBridge (scast (v :: 32 word)) @ rest" "i \<le> length d"
  shows "get_varint d i = Inr (v, i + length (encodeVarintBridge (scast v)))"
proof -
  have "get_varint d i = Inr (ucast (scast v :: 64 word) :: 32 word, i + length (encodeVarintBridge (scast v)))"
    by (rule get_varint_encode[OF assms])
  then show ?thesis by (simp only: ucast_scast_32)
qed

lemma Record_loop_DataType:
  assumes "drop i d = 0x08 # encodeVarintBridge (scast v) @ rest"
  shows "Record_loop d i m = Record_loop d (Suc i + length (encodeVarintBridge (scast v))) (m\<lparr>rec_DataType := v\<rparr>)"
proof -
  have i: "i < length d" and d: "drop (Suc i) d = encodeVarintBridge (scast v) @ rest"
    using drop_Suc_Cons[OF assms] by auto
  then show ?thesis using get_tags(1)[OF assms refl] get_int32[OF d]
    by (subst Record_loop.simps) simp
qed

lemma Record_loop_Timestamp:
  assumes "drop i d = 0x10 # encodeVarintBridge v @ rest"
  shows "Record_loop d i m = Record_loop d (Suc i + length (encodeVarintBridge v)) (m\<lparr>rec_Timestamp := v\<rparr>)"
proof -
  have i: "i < length d" and d: "drop (Suc i) d = encodeVarintBridge v @ rest"
    using drop_Suc_Cons[OF assms] by auto
  then show ?thesis using get_tags(3)[OF assms refl] get_tag[OF d]
    by (subst Record_loop.simps) simp
qed

lemma Record_loop_Data:
  assumes "drop i d = 0x1a # enc_len (Payload_bytes p) @ Payload_bytes p" "length d < 2 ^ 63"
    and "wf_gomap (pl_Fields p)" "rec_Data m = None"
  shows "Record_loop d i m = Inr (m\<lparr>rec_Data := Some \<lparr>pl_Fields = rev (pl_Fields p)\<rparr>\<rparr>)"
proof -
  have i: "i < length d" and d: "drop (Suc i) d = enc_len (Payload_bytes p) @ Payload_bytes p @ []"
    using drop_Suc_Cons[OF assms(1)] by auto
  define A where "A = Suc i + length (enc_len (Payload_bytes p))"
  define P where "P = A + length (Payload_bytes p)"
  note s = get_span_encode[OF d assms(2), folded A_def, folded P_def]
  have "P = length d" using s(3) get_span_bounds[OF s(1)] by simp
  moreover have "Payload_Size p < 2 ^ 63"
    using get_span_bounds[OF s(1)] assms(2) Payload_Size_exact[of p] by (simp add: P_def)
  ultimately show ?thesis using get_tags(5)[OF assms(1) refl] s Payload_roundtrip[OF assms(3)] i assms(4)
    by (subst Record_loop.simps) (simp add: Record_loop.simps[of d "length d"])
qed

definition same_record :: "Record \<Rightarrow> Record \<Rightarrow> bool" where
  "same_record m m' \<longleftrightarrow> rec_DataType m' = rec_DataType m \<and> rec_Timestamp m' = rec_Timestamp m
     \<and> rel_option (\<lambda>p p'. mset (pl_Fields p') = mset (pl_Fields p)) (rec_Data m) (rec_Data m')"

definition wf_record :: "Record \<Rightarrow> bool" where
  "wf_record m \<longleftrightarrow> (case rec_Data m of None \<Rightarrow> True | Some p \<Rightarrow> wf_gomap (pl_Fields p))"

definition empty_record :: Record where
  "empty_record = \<lparr>rec_DataType = 0, rec_Timestamp = 0, rec_Data = None\<rparr>"

lemma Record_roundtrip:
  assumes "wf_record m" "Record_Size m < 2 ^ 63"
  shows "\<exists>m'. Record_Unmarshal empty_record (Record_bytes m) = Inr m' \<and> same_record m m'"
proof -
  define d where "d = Record_bytes m"
  define S1 where "S1 = (if rec_DataType m \<noteq> 0 then 0x08 # encodeVarintBridge (scast (rec_DataType m)) else [])"
  define S2 where "S2 = (if rec_Timestamp m \<noteq> 0 then 0x10 # encodeVarintBridge (rec_Timestamp m) else [])"
  define S3 where "S3 = (case rec_Data m of None \<Rightarrow> [] | Some p \<Rightarrow> 0x1a # enc_len (Payload_bytes p) @ Payload_bytes p)"
  have d: "d = S1 @ S2 @ S3" by (simp add: d_def Record_bytes_def S1_def S2_def S3_def)
  have len: "length d < 2 ^ 63" using assms(2) by (simp only: d_def Record_Size_exact)
  let ?m1 = "empty_record\<lparr>rec_DataType := rec_DataType m\<rparr>"
  let ?m2 = "?m1\<lparr>rec_Timestamp := rec_Timestamp m\<rparr>"
  have "Record_loop d 0 empty_record = Record_loop d (length S1) ?m1"
    using Record_loop_DataType[of 0 d "rec_DataType m" "S2 @ S3" empty_record] d
    by (cases "rec_DataType m = 0") (simp_all add: S1_def empty_record_def)
  also have "\<dots> = Record_loop d (length (S1 @ S2)) ?m2"
    using Record_loop_Timestamp[of "length S1" d "rec_Timestamp m" S3 ?m1] d
    by (cases "rec_Timestamp m = 0") (simp_all add: S2_def empty_record_def)
  also have "\<exists>m'. \<dots> = Inr m' \<and> same_record m m'"
  proof (cases "rec_Data m")
    case None
    then have "length (S1 @ S2) = length d" by (simp add: d S3_def)
    then show ?thesis using None
      by (simp add: Record_loop.simps[of d "length d"] same_record_def empty_record_def)
  next
    case (Some p)
    have "drop (length (S1 @ S2)) d = 0x1a # enc_len (Payload_bytes p) @ Payload_bytes p"
      using Some d by (simp add: S3_def)
    moreover have "wf_gomap (pl_Fields p)" using assms(1) Some by (simp add: wf_record_def)
    ultimately have "Record_loop d (length (S1 @ S2)) ?m2 = Inr (?m2\<lparr>rec_Data := Some \<lparr>pl_Fields = rev (pl_Fields p)\<rparr>\<rparr>)"
      using len by (intro Record_loop_Data) (simp_all add: empty_record_def)
    then show ?thesis using Some by (simp add: same_record_def empty_record_def)
  qed
  finally show ?thesis by (simp add: Record_Unmarshal_def d_def)
qed

definition empty_task :: Task where
  "empty_task = \<lparr>tk_DataType = 0, tk_ObjectName = [], tk_Data = [], tk_Token = []\<rparr>"

text \<open>One field of a task, present or left out because it has its default value.\<close>

lemma Task_loop_DataType:
  assumes "drop i d = (if v \<noteq> 0 then 0x08 # encodeVarintBridge (scast v) else []) @ rest" "tk_DataType m = 0"
  shows "Task_loop d i m =
     Task_loop d (i + length (if v \<noteq> 0 then 0x08 # encodeVarintBridge (scast v) else [])) (m\<lparr>tk_DataType := v\<rparr>)"
proof (cases "v = 0")
  case False
  then have d0: "drop i d = 0x08 # encodeVarintBridge (scast v) @ rest" using assms(1) by simp
  have i: "i < length d" and d: "drop (Suc i) d = encodeVarintBridge (scast v) @ rest"
    using drop_Suc_Cons[OF d0] by auto
  show ?thesis using get_tags(1)[OF d0 refl] get_int32[OF d] i False
    by (subst Task_loop.simps) simp
next
  case True
  then show ?thesis using assms(2) by (cases m) simp
qed

abbreviation str_field :: "byte \<Rightarrow> bytes \<Rightarrow> bytes" where
  "str_field tag s \<equiv> (if length s > 0 then tag # enc_len s @ s else [])"

lemma str_field_span:
  assumes "drop i d = str_field tag s @ rest" "length d < 2 ^ 63" "s \<noteq> []"
  obtains a where "i < length d" "drop i d = tag # enc_len s @ s @ rest"
    "get_span d (Suc i) = Inr (a, i + length (str_field tag s))" "slice d a (i + length (str_field tag s)) = s"
proof -
  have d0: "drop i d = tag # enc_len s @ s @ rest" using assms(1,3) by simp
  have i: "i < length d" and d: "drop (Suc i) d = enc_len s @ s @ rest" using drop_Suc_Cons[OF d0] by auto
  note sp = get_span_encode[OF d assms(2)]
  have "Suc i + length (enc_len s) + length s = i + length (str_field tag s)" using assms(3) by simp
  then show thesis using that[OF i d0] sp by metis
qed

lemma Task_loop_ObjectName:
  assumes "drop i d = str_field 0x12 s @ rest" "length d < 2 ^ 63" "tk_ObjectName m = []"
  shows "Task_loop d i m = Task_loop d (i + length (str_field 0x12 s)) (m\<lparr>tk_ObjectName := s\<rparr>)"
proof (cases "s = []")
  case True
  then show ?thesis using assms(3) by (cases m) simp
next
  case False
  obtain a where a: "i < length d" "drop i d = 0x12 # enc_len s @ s @ rest"
    "get_span d (Suc i) = Inr (a, i + length (str_field 0x12 s))" "slice d a (i + length (str_field 0x12 s)) = s"
    using str_field_span[OF assms(1,2) False] .
  show ?thesis using a(1,3,4) get_tags(4)[OF a(2) refl] by (subst Task_loop.simps) simp
qed

lemma Task_loop_Data:
  assumes "drop i d = str_field 0x1a s @ rest" "length d < 2 ^ 63" "tk_Data m = []"
  shows "Task_loop d i m = Task_loop d (i + length (str_field 0x1a s)) (m\<lparr>tk_Data := s\<rparr>)"
proof (cases "s = []")
  case True
  then show ?thesis using assms(3) by (cases m) simp
next
  case False
  obtain a where a: "i < length d" "drop i d = 0x1a # enc_len s @ s @ rest"
    "get_span d (Suc i) = Inr (a, i + length (str_field 0x1a s))" "slice d a (i + length (str_field 0x1a s)) = s"
    using str_field_span[OF assms(1,2) False] .
  show ?thesis using a(1,3,4) get_tags(5)[OF a(2) refl] by (subst Task_loop.simps) simp
qed

lemma Task_loop_Token:
  assumes "drop i d = str_field 0x22 s @ rest" "length d < 2 ^ 63" "tk_Token m = []"
  shows "Task_loop d i m = Task_loop d (i + length (str_field 0x22 s)) (m\<lparr>tk_Token := s\<rparr>)"
proof (cases "s = []")
  case True
  then show ?thesis using assms(3) by (cases m) simp
next
  case False
  obtain a where a: "i < length d" "drop i d = 0x22 # enc_len s @ s @ rest"
    "get_span d (Suc i) = Inr (a, i + length (str_field 0x22 s))" "slice d a (i + length (str_field 0x22 s)) = s"
    using str_field_span[OF assms(1,2) False] .
  show ?thesis using a(1,3,4) get_tags(6)[OF a(2) refl] by (subst Task_loop.simps) simp
qed

lemma Task_roundtrip:
  assumes "Task_Size m < 2 ^ 63"
  shows "Task_Unmarshal empty_task (Task_bytes m) = Inr m"
proof -
  define d where "d = Task_bytes m"
  define S1 where "S1 = (if tk_DataType m \<noteq> 0 then 0x08 # encodeVarintBridge (scast (tk_DataType m)) else [])"
  define S2 where "S2 = str_field 0x12 (tk_ObjectName m)"
  define S3 where "S3 = str_field 0x1a (tk_Data m)"
  define S4 where "S4 = str_field 0x22 (tk_Token m)"
  have d: "d = S1 @ S2 @ S3 @ S4" by (simp add: d_def Task_bytes_def S1_def S2_def S3_def S4_def)
  have len: "length d < 2 ^ 63" using assms by (simp only: d_def Task_Size_exact)
  let ?m1 = "empty_task\<lparr>tk_DataType := tk_DataType m\<rparr>"
  let ?m2 = "?m1\<lparr>tk_ObjectName := tk_ObjectName m\<rparr>"
  let ?m3 = "?m2\<lparr>tk_Data := tk_Data m\<rparr>"
  have "Task_loop d 0 empty_task = Task_loop d (length S1) ?m1"
    using Task_loop_DataType[of 0 d "tk_DataType m" "S2 @ S3 @ S4" empty_task] d
    by (simp add: S1_def empty_task_def)
  also have "\<dots> = Task_loop d (length S1 + length S2) ?m2"
    using Task_loop_ObjectName[of "length S1" d "tk_ObjectName m" "S3 @ S4" ?m1, folded S2_def] d len
    by (simp add: empty_task_def)
  also have "\<dots> = Task_loop d (length S1 + length S2 + length S3) ?m3"
    using Task_loop_Data[of "length S1 + length S2" d "tk_Data m" S4 ?m2, folded S3_def] d len
    by (simp add: empty_task_def)
  also have "\<dots> = Task_loop d (length S1 + length S2 + length S3 + length S4) m"
    using Task_loop_Token[of "length S1 + length S2 + length S3" d "tk_Token m" "[]" ?m3, folded S4_def] d len
    by (cases m) (simp add: empty_task_def)
  also have "\<dots> = Inr m" by (subst Task_loop.simps) (simp add: d)
  finally show ?thesis by (simp add: Task_Unmarshal_def d_def)
qed

end
