(* ===== verification/AgentBuffer.thy ===== *)
theory AgentBuffer
  imports Varint
begin

text \<open>
  The agent's record buffer and its record pools, \<open>agent/buffer/buffer.go\<close> and \<open>agent/buffer/pool.go\<close>.

  A record's \<open>Data\<close> slice is kept as its backing array \<open>er_mem\<close> (whose length is the capacity) and
  its length, because records are recycled: extending the slice of a recycled record shows what the
  array held before.  A pointer to a record is an option, \<open>nil\<close> being \<^const>\<open>None\<close>; dereferencing
  \<open>nil\<close> is a panic, the result \<^const>\<open>None\<close> of an operation.  A \<open>sync.Pool\<close> is the list of the records
  put into it; \<open>Get\<close> takes the first, or makes a new one.
\<close>

record EncodedRecord =
  er_DataType :: "32 word"
  er_Timestamp :: "64 word"
  er_mem :: "byte list"
  er_len :: nat

definition er_Data :: "EncodedRecord \<Rightarrow> byte list" where
  "er_Data r = take (er_len r) (er_mem r)"

definition er_cap :: "EncodedRecord \<Rightarrow> nat" where
  "er_cap r = length (er_mem r)"

section \<open>Pools\<close>

definition defaultCap :: nat where "defaultCap = 1024"

type_synonym pools = "EncodedRecord list list"

definition new_record :: "nat \<Rightarrow> EncodedRecord" where
  "new_record i = \<lparr>er_DataType = 0, er_Timestamp = 0, er_mem = replicate (defaultCap * (i + 1)) 0, er_len = 0\<rparr>"

definition GetEncodedRecord :: "pools \<Rightarrow> int \<Rightarrow> EncodedRecord \<times> pools" where
  "GetEncodedRecord ps sz =
     (let index = (if sz > 0 then min (nat ((sz - 1) div 1024)) (length ps - 1) else 0)
      in case ps ! index of
           [] \<Rightarrow> (new_record index, ps)
         | r # rs \<Rightarrow> (r, ps[index := rs]))"

definition PutEncodedRecord :: "pools \<Rightarrow> EncodedRecord option \<Rightarrow> pools option" where
  "PutEncodedRecord ps p =
     (case p of
        None \<Rightarrow> None
      | Some r \<Rightarrow>
          let sz = er_cap r; index = (if sz > 0 then (sz - 1) div 1024 else 0)
          in if sz > 0 \<and> index \<ge> length ps then Some ps
             else Some (ps[index := r\<lparr>er_len := 0\<rparr> # (ps ! index)]))"

text \<open>Fitting the slice of a record to \<open>n\<close> bytes: a new array if the capacity is too small.\<close>

definition fit_record :: "EncodedRecord \<Rightarrow> nat \<Rightarrow> EncodedRecord" where
  "fit_record r n =
     (if er_cap r < n then r\<lparr>er_mem := replicate n 0, er_len := n\<rparr> else r\<lparr>er_len := n\<rparr>)"

section \<open>The buffer\<close>

record buffer_state =
  buf :: "EncodedRecord option list"
  offset :: nat
  bpools :: pools
  hook :: "(EncodedRecord option \<Rightarrow> EncodedRecord option) option"

definition buffer_init :: buffer_state where
  "buffer_init = \<lparr>buf = replicate 2048 None, offset = 0, bpools = [[], [], [], []], hook = None\<rparr>"

definition SetTransmissionHook ::
  "buffer_state \<Rightarrow> (EncodedRecord option \<Rightarrow> EncodedRecord option) \<Rightarrow> buffer_state" where
  "SetTransmissionHook st f = st\<lparr>hook := Some f\<rparr>"

definition WriteEncodedRecord :: "buffer_state \<Rightarrow> EncodedRecord option \<Rightarrow> buffer_state option" where
  "WriteEncodedRecord st r0 =
     (let r = (case hook st of Some f \<Rightarrow> f r0 | None \<Rightarrow> r0)
      in if offset st < length (buf st)
         then Some (st\<lparr>buf := (buf st)[offset st := r], offset := offset st + 1\<rparr>)
         else map_option (\<lambda>ps. st\<lparr>bpools := ps\<rparr>) (PutEncodedRecord (bpools st) r))"

text \<open>
  \<open>payload\<close> is the marshalled \<open>rec.Data\<close>; \<open>MarshalTo\<close> fills the slice of exactly its size.
\<close>

definition WriteRecord :: "buffer_state \<Rightarrow> 32 word \<Rightarrow> 64 word \<Rightarrow> byte list \<Rightarrow> buffer_state" where
  "WriteRecord st dt ts payload =
     (let (r, ps) = GetEncodedRecord (bpools st) (int (length payload));
          r1 = fit_record (r\<lparr>er_DataType := dt, er_Timestamp := ts\<rparr>) (length payload);
          erec = r1\<lparr>er_mem := payload @ drop (length payload) (er_mem r1)\<rparr>;
          st1 = st\<lparr>bpools := ps\<rparr>
      in if offset st1 < length (buf st1)
         then st1\<lparr>buf := (buf st1)[offset st1 := Some erec], offset := offset st1 + 1\<rparr>
         else st1\<lparr>buf := (buf st1)[0 := Some erec]\<rparr>)"

definition ReadEncodedRecords :: "buffer_state \<Rightarrow> EncodedRecord option list \<times> buffer_state" where
  "ReadEncodedRecords st = (take (offset st) (buf st), st\<lparr>offset := 0\<rparr>)"

section \<open>Invariants\<close>

text \<open>Pool \<open>i\<close> holds emptied records of its capacity class only.\<close>

definition cap_class :: "nat \<Rightarrow> nat" where
  "cap_class c = (if c > 0 then (c - 1) div 1024 else 0)"

definition wf_pools :: "pools \<Rightarrow> bool" where
  "wf_pools ps \<longleftrightarrow> length ps = 4 \<and>
     (\<forall>i < 4. \<forall>r \<in> set (ps ! i). cap_class (er_cap r) = i \<and> er_len r = 0)"

definition wf_buffer :: "buffer_state \<Rightarrow> bool" where
  "wf_buffer st \<longleftrightarrow> length (buf st) = 2048 \<and> offset st \<le> 2048 \<and> wf_pools (bpools st)"

definition pending :: "buffer_state \<Rightarrow> EncodedRecord option list" where
  "pending st = take (offset st) (buf st)"

lemma wf_buffer_init: "wf_buffer buffer_init"
proof -
  have "i < 4 \<Longrightarrow> [[], [], [], []] ! i = ([] :: EncodedRecord list)" for i :: nat
    by (auto simp: less_Suc_eq numeral_eq_Suc)
  then show ?thesis by (simp add: wf_buffer_def buffer_init_def wf_pools_def)
qed

lemma cap_class_new: "i < 4 \<Longrightarrow> cap_class (er_cap (new_record i)) = i"
  by (simp add: cap_class_def er_cap_def new_record_def defaultCap_def)

lemma wf_pools_update:
  assumes "wf_pools ps" "\<And>r. r \<in> set rs \<Longrightarrow> cap_class (er_cap r) = i \<and> er_len r = 0"
  shows "wf_pools (ps[i := rs])"
  unfolding wf_pools_def
proof (intro conjI allI impI ballI)
  fix j r assume j: "j < 4" "r \<in> set (ps[i := rs] ! j)"
  have l: "length ps = 4" using assms(1) by (simp add: wf_pools_def)
  show "cap_class (er_cap r) = j" "er_len r = 0"
    using j assms l by (cases "i = j"; auto simp: wf_pools_def)+
qed (use assms(1) in \<open>simp add: wf_pools_def\<close>)

lemma wf_pools_member:
  "wf_pools ps \<Longrightarrow> i < 4 \<Longrightarrow> r \<in> set (ps ! i) \<Longrightarrow> cap_class (er_cap r) = i \<and> er_len r = 0"
  by (simp add: wf_pools_def)

lemma GetEncodedRecord_wf:
  assumes "wf_pools ps" "GetEncodedRecord ps sz = (r, ps')"
  shows "wf_pools ps'" "er_len r = 0"
    "cap_class (er_cap r) = (if sz > 0 then min (nat ((sz - 1) div 1024)) 3 else 0)"
proof -
  let ?i = "if sz > 0 then min (nat ((sz - 1) div 1024)) 3 else 0"
  have i: "?i < 4" and l: "length ps = 4" using assms(1) by (auto simp: wf_pools_def)
  have g: "(case ps ! ?i of [] \<Rightarrow> (new_record ?i, ps) | r # rs \<Rightarrow> (r, ps[?i := rs])) = (r, ps')"
  proof -
    have "(if sz > 0 then min (nat ((sz - 1) div 1024)) (length ps - 1) else 0) = ?i" by (simp add: l)
    then show ?thesis using assms(2) unfolding GetEncodedRecord_def Let_def by (simp only:)
  qed
  have "wf_pools ps' \<and> er_len r = 0 \<and> cap_class (er_cap r) = ?i"
  proof (cases "ps ! ?i")
    case Nil
    then have "r = new_record ?i" "ps' = ps" using g by simp_all
    then show ?thesis using assms(1) cap_class_new[OF i] by (simp add: new_record_def)
  next
    case (Cons x xs)
    then have r: "r = x" "ps' = ps[?i := xs]" using g by simp_all
    have m: "y \<in> set (x # xs) \<Longrightarrow> cap_class (er_cap y) = ?i \<and> er_len y = 0" for y
      using wf_pools_member[OF assms(1) i] Cons by metis
    then have "wf_pools (ps[?i := xs])" by (intro wf_pools_update[OF assms(1)]) simp
    then show ?thesis using r m[of x] by simp
  qed
  then show "wf_pools ps'" "er_len r = 0" "cap_class (er_cap r) = ?i" by simp_all
qed

lemma PutEncodedRecord_conv:
  "PutEncodedRecord ps (Some r) =
     Some (if er_cap r > 0 \<and> cap_class (er_cap r) \<ge> length ps then ps
           else ps[cap_class (er_cap r) := r\<lparr>er_len := 0\<rparr> # (ps ! cap_class (er_cap r))])"
  by (simp add: PutEncodedRecord_def cap_class_def Let_def)

lemma PutEncodedRecord_wf:
  assumes "wf_pools ps" "PutEncodedRecord ps p = Some ps'"
  shows "wf_pools ps'"
proof -
  obtain r where r: "p = Some r" using assms(2) by (auto simp: PutEncodedRecord_def split: option.splits)
  let ?r = "r\<lparr>er_len := 0\<rparr>" and ?c = "cap_class (er_cap r)"
  have cr: "cap_class (er_cap ?r) = ?c" by (simp add: er_cap_def)
  have "wf_pools (ps[?c := ?r # (ps ! ?c)])"
  proof (cases "?c < 4")
    case True
    then show ?thesis using wf_pools_member[OF assms(1) True] cr
      by (intro wf_pools_update[OF assms(1)]) auto
  next
    case False
    then show ?thesis using assms(1) by (simp add: wf_pools_def)
  qed
  then show ?thesis using assms r by (auto simp: PutEncodedRecord_conv split: if_splits)
qed

lemma PutEncodedRecord_nil: "PutEncodedRecord ps p = None \<longleftrightarrow> p = None"
  by (auto simp: PutEncodedRecord_def Let_def split: option.splits if_splits)

lemma fit_record_Data: "length (er_Data (fit_record r n)) = n"
  by (simp add: fit_record_def er_Data_def er_cap_def)

lemma wf_WriteEncodedRecord: "wf_buffer st \<Longrightarrow> WriteEncodedRecord st r = Some st' \<Longrightarrow> wf_buffer st'"
  by (auto simp: wf_buffer_def WriteEncodedRecord_def Let_def dest: PutEncodedRecord_wf split: if_splits)

lemma wf_WriteRecord: "wf_buffer st \<Longrightarrow> wf_buffer (WriteRecord st dt ts payload)"
  by (auto simp: wf_buffer_def WriteRecord_def Let_def dest: GetEncodedRecord_wf split: prod.splits)

lemma wf_ReadEncodedRecords: "wf_buffer st \<Longrightarrow> wf_buffer (snd (ReadEncodedRecords st))"
  by (simp add: wf_buffer_def ReadEncodedRecords_def)

lemmas wf_buffer_ops [wf_intros] = wf_buffer_init wf_WriteEncodedRecord wf_WriteRecord wf_ReadEncodedRecords

section \<open>The buffer is a bounded queue\<close>

lemma pending_WriteEncodedRecord:
  assumes "wf_buffer st" "hook st = None" "WriteEncodedRecord st r = Some st'"
  shows "pending st' = (if length (pending st) < 2048 then pending st @ [r] else pending st)" "hook st' = None"
  using assms
  by (auto simp: WriteEncodedRecord_def pending_def wf_buffer_def take_Suc_conv_app_nth split: if_splits)

lemma WriteEncodedRecord_total:
  "wf_buffer st \<Longrightarrow> hook st = None \<Longrightarrow> (WriteEncodedRecord st r = None \<longleftrightarrow> length (pending st) = 2048 \<and> r = None)"
  by (auto simp: WriteEncodedRecord_def pending_def wf_buffer_def PutEncodedRecord_nil)

lemma take_Suc_update: "n < length xs \<Longrightarrow> take (Suc n) (xs[n := x]) = take n xs @ [x]"
  by (simp add: take_Suc_conv_app_nth)

lemma pending_WriteRecord:
  assumes "wf_buffer st"
  shows "\<exists>r. er_DataType r = dt \<and> er_Timestamp r = ts \<and> er_Data r = payload \<and>
     pending (WriteRecord st dt ts payload) =
       (if length (pending st) < 2048 then pending st @ [Some r] else (pending st)[0 := Some r])"
proof -
  obtain r0 ps where g: "GetEncodedRecord (bpools st) (int (length payload)) = (r0, ps)"
    by (cases "GetEncodedRecord (bpools st) (int (length payload))")
  let ?r1 = "fit_record (r0\<lparr>er_DataType := dt, er_Timestamp := ts\<rparr>) (length payload)"
  let ?r = "?r1\<lparr>er_mem := payload @ drop (length payload) (er_mem ?r1)\<rparr>"
  have "er_DataType ?r = dt \<and> er_Timestamp ?r = ts \<and> er_Data ?r = payload"
    by (simp add: fit_record_def er_Data_def er_cap_def)
  moreover have "pending (WriteRecord st dt ts payload) =
      (if length (pending st) < 2048 then pending st @ [Some ?r] else (pending st)[0 := Some ?r])"
  proof (cases "offset st < 2048")
    case True
    then show ?thesis using assms g by (simp add: WriteRecord_def Let_def pending_def wf_buffer_def take_Suc_update)
  next
    case False
    then show ?thesis using assms g by (simp add: WriteRecord_def Let_def pending_def wf_buffer_def)
  qed
  ultimately show ?thesis by blast
qed

text \<open>
  What the buffer promises: a queue of records, each its type, time stamp and data.  A write to a full queue is dropped if the record comes
  encoded, and replaces the record in the first place if \<open>WriteRecord\<close> encodes it.  \<open>send\<close> is the hook, which only the former calls.
\<close>

type_synonym buf_item = "32 word \<times> 64 word \<times> byte list"

definition content :: "EncodedRecord \<Rightarrow> buf_item" where
  "content r = (er_DataType r, er_Timestamp r, er_Data r)"

datatype buf_op = PutEncoded EncodedRecord | PutRecord "32 word" "64 word" "byte list" | TakeAll

fun queue_op :: "(EncodedRecord \<Rightarrow> EncodedRecord) \<Rightarrow> buf_item list \<Rightarrow> buf_op \<Rightarrow> buf_item list \<times> buf_item list" where
  "queue_op send q (PutEncoded r) = ([], if length q < 2048 then q @ [content (send r)] else q)"
| "queue_op send q (PutRecord dt ts p) = ([], if length q < 2048 then q @ [(dt, ts, p)] else (dt, ts, p) # tl q)"
| "queue_op send q TakeAll = (q, [])"

fun queue_run :: "(EncodedRecord \<Rightarrow> EncodedRecord) \<Rightarrow> buf_item list \<Rightarrow> buf_op list \<Rightarrow> buf_item list list \<times> buf_item list" where
  "queue_run send q [] = ([], q)"
| "queue_run send q (x # xs) = (let (out, q') = queue_op send q x; (outs, q'') = queue_run send q' xs in (out # outs, q''))"

text \<open>The same calls on the buffer; a panic is \<^const>\<open>None\<close>.\<close>

fun buf_exec :: "buffer_state \<Rightarrow> buf_op \<Rightarrow> (EncodedRecord option list \<times> buffer_state) option" where
  "buf_exec st (PutEncoded r) = map_option (Pair []) (WriteEncodedRecord st (Some r))"
| "buf_exec st (PutRecord dt ts p) = Some ([], WriteRecord st dt ts p)"
| "buf_exec st TakeAll = Some (ReadEncodedRecords st)"

fun buf_run :: "buffer_state \<Rightarrow> buf_op list \<Rightarrow> (EncodedRecord option list list \<times> buffer_state) option" where
  "buf_run st [] = Some ([], st)"
| "buf_run st (x # xs) =
     Option.bind (buf_exec st x) (\<lambda>(out, st'). map_option (\<lambda>(outs, st''). (out # outs, st'')) (buf_run st' xs))"

definition hooked :: "(EncodedRecord option \<Rightarrow> EncodedRecord option) option \<Rightarrow> (EncodedRecord \<Rightarrow> EncodedRecord) \<Rightarrow> bool" where
  "hooked h send \<longleftrightarrow> (\<forall>r. (case h of None \<Rightarrow> Some r | Some f \<Rightarrow> f (Some r)) = Some (send r))"

definition holds_items :: "EncodedRecord option list \<Rightarrow> buf_item list \<Rightarrow> bool" where
  "holds_items rs q \<longleftrightarrow> map (map_option content) rs = map Some q"

definition buf_sim :: "(EncodedRecord \<Rightarrow> EncodedRecord) \<Rightarrow> buffer_state \<Rightarrow> buf_item list \<Rightarrow> bool" where
  "buf_sim send st q \<longleftrightarrow> wf_buffer st \<and> hooked (hook st) send \<and> holds_items (pending st) q"

lemma holds_items_length: "holds_items rs q \<Longrightarrow> length rs = length q"
  unfolding holds_items_def by (metis length_map)

lemma holds_items_snoc: "holds_items rs q \<Longrightarrow> content r = x \<Longrightarrow> holds_items (rs @ [Some r]) (q @ [x])"
  by (simp add: holds_items_def)

lemma holds_items_first:
  "holds_items rs q \<Longrightarrow> q \<noteq> [] \<Longrightarrow> content r = x \<Longrightarrow> holds_items (rs[0 := Some r]) (x # tl q)"
  by (cases rs; cases q) (simp_all add: holds_items_def)

lemma pending_hooked:
  assumes "wf_buffer st" "hooked (hook st) send"
  shows "\<exists>st'. WriteEncodedRecord st (Some r) = Some st' \<and> hook st' = hook st \<and>
     pending st' = (if length (pending st) < 2048 then pending st @ [Some (send r)] else pending st)"
proof -
  have h: "(case hook st of Some f \<Rightarrow> f (Some r) | None \<Rightarrow> Some r) = Some (send r)"
    using assms(2) by (auto simp: hooked_def split: option.splits)
  have l: "length (pending st) = offset st" "length (buf st) = 2048" using assms(1) by (simp_all add: pending_def wf_buffer_def)
  show ?thesis
  proof (cases "offset st < 2048")
    case True
    then show ?thesis using h l by (simp add: WriteEncodedRecord_def pending_def take_Suc_update)
  next
    case False
    then show ?thesis using h l by (auto simp: WriteEncodedRecord_def pending_def PutEncodedRecord_conv)
  qed
qed

lemma buf_sim_step:
  assumes sim: "buf_sim send st q"
  shows "\<exists>out st'. buf_exec st x = Some (out, st') \<and> holds_items out (fst (queue_op send q x)) \<and> buf_sim send st' (snd (queue_op send q x))"
proof -
  have w: "wf_buffer st" and h: "hooked (hook st) send" and i: "holds_items (pending st) q"
    using sim by (simp_all add: buf_sim_def)
  note l = holds_items_length[OF i]
  show ?thesis
  proof (cases x)
    case (PutEncoded r)
    obtain st' where st': "WriteEncodedRecord st (Some r) = Some st'" "hook st' = hook st"
      "pending st' = (if length (pending st) < 2048 then pending st @ [Some (send r)] else pending st)"
      using pending_hooked[OF w h] by blast
    then show ?thesis using PutEncoded h i l wf_WriteEncodedRecord[OF w st'(1)]
      by (auto simp: buf_sim_def holds_items_snoc) (simp_all add: holds_items_def)
  next
    case (PutRecord dt ts p)
    obtain r where r: "er_DataType r = dt" "er_Timestamp r = ts" "er_Data r = p"
      "pending (WriteRecord st dt ts p) = (if length (pending st) < 2048 then pending st @ [Some r] else (pending st)[0 := Some r])"
      using pending_WriteRecord[OF w] by blast
    have k: "hook (WriteRecord st dt ts p) = hook st" by (simp add: WriteRecord_def Let_def split: prod.splits)
    have "q \<noteq> []" if "\<not> length q < 2048" using that by auto
    then show ?thesis using PutRecord r k h i l wf_WriteRecord[OF w, of dt ts p]
      by (auto simp: buf_sim_def content_def holds_items_snoc holds_items_first) (simp_all add: holds_items_def)
  next
    case TakeAll
    then show ?thesis using w h i wf_ReadEncodedRecords[OF w]
      by (simp add: buf_sim_def ReadEncodedRecords_def pending_def holds_items_def)
  qed
qed

text \<open>
  C33. The record buffer refines a queue of at most 2048 records under every sequence of its three operations, with or without a
  hook that returns a record for each record.  A record that comes encoded is passed to the hook and queued, or dropped if the queue is full.  \<open>WriteRecord\<close> queues the
  record it encodes, or puts it in the first place of the queue, over what is there, if the queue is full.  Reading returns the queue in order and empties it.
  No call panics.
\<close>

theorem buffer_refines_queue:
  assumes "wf_buffer st" "hooked (hook st) send" "holds_items (pending st) q"
  shows "\<exists>outs st'. buf_run st ops = Some (outs, st') \<and> list_all2 holds_items outs (fst (queue_run send q ops)) \<and>
     holds_items (pending st') (snd (queue_run send q ops)) \<and> length (pending st') \<le> 2048"
proof -
  have "buf_sim send st q \<Longrightarrow> \<exists>outs st'. buf_run st ops = Some (outs, st') \<and>
      list_all2 holds_items outs (fst (queue_run send q ops)) \<and> buf_sim send st' (snd (queue_run send q ops))"
  proof (induction ops arbitrary: st q)
    case (Cons x xs)
    obtain out st1 where st1: "buf_exec st x = Some (out, st1)" "holds_items out (fst (queue_op send q x))"
      "buf_sim send st1 (snd (queue_op send q x))"
      using buf_sim_step[OF Cons.prems] by blast
    show ?case using Cons.IH[OF st1(3)] st1(1,2) by (fastforce simp: case_prod_beta)
  qed simp
  moreover have "buf_sim send st q" using assms by (simp add: buf_sim_def)
  moreover have "length (pending s) \<le> 2048" if "buf_sim send s r" for s r using that by (simp add: buf_sim_def wf_buffer_def pending_def)
  ultimately show ?thesis by (fastforce simp: buf_sim_def)
qed

theorem buffer_refines_queue_witness:
  "\<exists>outs st'. buf_run buffer_init [PutEncoded (new_record 0), PutRecord 7 9 [1], TakeAll] = Some (outs, st') \<and>
     list_all2 holds_items outs [[], [], [content (new_record 0), (7, 9, [1])]] \<and> holds_items (pending st') []"
proof -
  have "hooked (hook buffer_init) (\<lambda>r. r)" "holds_items (pending buffer_init) []"
    by (simp_all add: hooked_def holds_items_def buffer_init_def pending_def)
  then show ?thesis
    using buffer_refines_queue[OF wf_buffer_init, of "\<lambda>r. r" "[]" "[PutEncoded (new_record 0), PutRecord 7 9 [1], TakeAll]"] by auto
qed

end
