(* ===== verification/PluginProtocol.thy ===== *)
theory PluginProtocol
  imports BridgeCodec AgentBuffer
begin

text \<open>
  The pipes between the agent and a plugin: frames of a little-endian 32-bit length and a message.
  The plugin library writes records and reads tasks (\<open>plugins/lib/go/client.go\<close>); the agent writes
  tasks and picks the records apart itself, without unmarshalling the payload
  (\<open>agent/plugin/plugin.go\<close>, \<open>agent/plugin/plugin_linux.go\<close>).  A reader is the list of bytes that the
  pipe still delivers before it is closed.
\<close>

section \<open>Frames\<close>

datatype io_error = EOF | ErrUnexpectedEOF | ErrBufferFull | ProtoErr proto_error

definition PutUint32 :: "nat \<Rightarrow> bytes" where
  "PutUint32 n = [of_nat n, of_nat (n div 256), of_nat (n div 256 ^ 2), of_nat (n div 256 ^ 3)]"

fun Uint32 :: "bytes \<Rightarrow> nat" where
  "Uint32 [] = 0"
| "Uint32 (b # bs) = unat b + 256 * Uint32 bs"

definition read_uint32 :: "bytes \<Rightarrow> (io_error + nat) \<times> bytes" where
  "read_uint32 bs =
     (if bs = [] then (Inl EOF, [])
      else if length bs < 4 then (Inl ErrUnexpectedEOF, [])
      else (Inr (Uint32 (take 4 bs)), drop 4 bs))"

lemma Uint32_PutUint32: "n < 2 ^ 32 \<Longrightarrow> Uint32 (PutUint32 n) = n"
proof -
  assume n: "n < 2 ^ 32"
  have m: "unat (of_nat k :: byte) = k mod 256" for k by (simp add: unat_of_nat take_bit_eq_mod)
  have "n div 256 ^ 3 < 256" using n by simp
  then have "(n div 256 ^ 3) mod 256 = n div 256 ^ 3" by simp
  moreover have "n div 256 ^ 3 = n div 256 div 256 div 256" "n div 256 ^ 2 = n div 256 div 256"
    by (simp_all add: div_mult2_eq[symmetric])
  ultimately have "Uint32 (PutUint32 n) = n mod 256 + 256 * (n div 256 mod 256 + 256 * (n div 256 div 256 mod 256 + 256 * (n div 256 div 256 div 256)))"
    unfolding PutUint32_def by (simp add: m)
  also have "\<dots> = n" by (metis mod_mult_div_eq)
  finally show ?thesis .
qed

lemma read_uint32_frame: "n < 2 ^ 32 \<Longrightarrow> read_uint32 (PutUint32 n @ rest) = (Inr n, rest)"
  using Uint32_PutUint32[of n] by (simp add: read_uint32_def PutUint32_def)

section \<open>Messages in frames\<close>

text \<open>
  \<open>SendRecord\<close> of the plugin library; \<open>writer.Write\<close> is buffered and succeeds.  \<^const>\<open>None\<close> is the
  panic or error of \<open>Marshal\<close>.
\<close>

definition SendRecord :: "Record \<Rightarrow> bytes option" where
  "SendRecord r = map_option (\<lambda>b. PutUint32 (Record_Size r) @ b) (Record_Marshal r)"

text \<open>The bytes the agent's task goroutine writes: \<open>dst[:4]\<close> is the size, \<open>dst[4:]\<close> the message.\<close>

definition task_frame :: "Task \<Rightarrow> bytes option" where
  "task_frame t = map_option (\<lambda>b. PutUint32 (Task_Size t) @ b) (sized_buffer (Task_Size t) (Task_bytes t))"

text \<open>\<open>ReceiveTask\<close>: \<open>Peek\<close> fails beyond the reader's buffer of one megabyte.\<close>

definition ReceiveTask :: "bytes \<Rightarrow> (io_error + Task) \<times> bytes" where
  "ReceiveTask rd =
     (case read_uint32 rd of
        (Inl e, rd') \<Rightarrow> (Inl e, rd')
      | (Inr n, rd') \<Rightarrow>
          if n > 1024 * 1024 then (Inl ErrBufferFull, rd')
          else if length rd' < n then (Inl EOF, rd')
          else (case Task_Unmarshal empty_task (take n rd') of
                  Inl e \<Rightarrow> (Inl (ProtoErr e), drop n rd')
                | Inr t \<Rightarrow> (Inr t, drop n rd')))"

locale wire_message =
  fixes bytes_of :: "'m \<Rightarrow> bytes"
    and size_of :: "'m \<Rightarrow> nat"
    and parse :: "bytes \<Rightarrow> proto_error + 'm"
    and ok :: "'m \<Rightarrow> bool"
    and same :: "'m \<Rightarrow> 'm \<Rightarrow> bool"
  assumes size_exact: "length (bytes_of m) = size_of m"
    and parse_bytes: "ok m \<Longrightarrow> size_of m < 2 ^ 63 \<Longrightarrow> \<exists>m'. parse (bytes_of m) = Inr m' \<and> same m m'"
begin

definition read_message :: "bytes \<Rightarrow> (io_error + 'm) \<times> bytes" where
  "read_message rd =
     (case read_uint32 rd of
        (Inl e, rd') \<Rightarrow> (Inl e, rd')
      | (Inr n, rd') \<Rightarrow>
          if length rd' < n then (Inl EOF, rd')
          else (case parse (take n rd') of
                  Inl e \<Rightarrow> (Inl (ProtoErr e), drop n rd') | Inr m \<Rightarrow> (Inr m, drop n rd')))"

definition frame :: "'m \<Rightarrow> bytes" where
  "frame m = PutUint32 (size_of m) @ bytes_of m"

lemma read_frame:
  assumes "ok m" "size_of m < 2 ^ 32"
  shows "\<exists>m'. read_message (frame m @ rest) = (Inr m', rest) \<and> same m m'"
proof -
  obtain m' where "parse (bytes_of m) = Inr m'" "same m m'" using parse_bytes[OF assms(1)] assms(2) by auto
  then show ?thesis using read_uint32_frame[OF assms(2), of "bytes_of m @ rest"] size_exact[of m]
    by (simp add: read_message_def frame_def)
qed

text \<open>Any number of messages can be sent back to back.\<close>

lemma read_frames:
  assumes "list_all ok ms" "list_all (\<lambda>m. size_of m < 2 ^ 32) ms"
  shows "\<exists>ms'. list_all2 same ms ms' \<and>
     ((\<lambda>(got, rd). case read_message rd of (Inr m, rd') \<Rightarrow> (got @ [m], rd') | (Inl _, rd') \<Rightarrow> (got, rd')) ^^ length ms)
       (got, concat (map frame ms) @ rest) = (got @ ms', rest)"
  using assms
proof (induction ms arbitrary: got)
  case (Cons m ms)
  obtain m' where m': "read_message (frame m @ (concat (map frame ms) @ rest)) = (Inr m', concat (map frame ms) @ rest)" "same m m'"
    using read_frame[of m] Cons.prems by auto
  obtain ms' where "list_all2 same ms ms'"
    "((\<lambda>(got, rd). case read_message rd of (Inr m, rd') \<Rightarrow> (got @ [m], rd') | (Inl _, rd') \<Rightarrow> (got, rd')) ^^ length ms)
       (got @ [m'], concat (map frame ms) @ rest) = ((got @ [m']) @ ms', rest)"
    using Cons.IH[of "got @ [m']"] Cons.prems by auto
  then show ?case using m' by (intro exI[of _ "m' # ms'"]) (simp add: funpow_swap1)
qed simp

end

interpretation record_msg: wire_message Record_bytes Record_Size "Record_Unmarshal empty_record" wf_record same_record
  by unfold_locales (auto simp: Record_Size_exact Record_roundtrip)

interpretation task_msg: wire_message Task_bytes Task_Size "Task_Unmarshal empty_task" "\<lambda>_. True" "(=)"
  by unfold_locales (auto simp: Task_Size_exact Task_roundtrip)

interpretation payload_msg: wire_message Payload_bytes Payload_Size "Payload_Unmarshal \<lparr>pl_Fields = []\<rparr>"
    "\<lambda>m. wf_gomap (pl_Fields m)" "\<lambda>m m'. mset (pl_Fields m') = mset (pl_Fields m)"
  by unfold_locales (auto simp: Payload_Size_exact Payload_roundtrip)

lemma task_frame_conv: "task_frame t = Some (task_msg.frame t)"
  by (simp add: task_frame_def task_msg.frame_def sized_buffer_def Task_Size_exact)

lemma SendRecord_conv: "SendRecord r = Some (record_msg.frame r)"
  by (simp add: SendRecord_def record_msg.frame_def Marshal_conv)

text \<open>
  C24. Marshalling a record or a task never runs out of its buffer, yields exactly Size() bytes, and
  unmarshalling them gives the message back: data type, time stamp and every payload field of a
  record (the order of the fields in the map is not kept), and all four fields of a task, including
  negative data types and empty strings.
\<close>

theorem bridge_roundtrip:
  assumes "wf_record r" "Record_Size r < 2 ^ 63" "Task_Size t < 2 ^ 63"
  shows "(\<exists>bs r'. Record_Marshal r = Some bs \<and> length bs = Record_Size r \<and> Record_Unmarshal empty_record bs = Inr r'
       \<and> rec_DataType r' = rec_DataType r \<and> rec_Timestamp r' = rec_Timestamp r
       \<and> rel_option (\<lambda>p p'. mset (pl_Fields p') = mset (pl_Fields p)) (rec_Data r) (rec_Data r'))
     \<and> (\<exists>bs. Task_Marshal t = Some bs \<and> length bs = Task_Size t \<and> Task_Unmarshal empty_task bs = Inr t)"
  using Record_roundtrip[OF assms(1,2)] Task_roundtrip[OF assms(3)]
  by (auto simp: Marshal_conv Record_Size_exact Task_Size_exact same_record_def)

definition demo_record :: Record where
  "demo_record = \<lparr>rec_DataType = 601, rec_Timestamp = 1700000000, rec_Data = Some \<lparr>pl_Fields = [([1, 2], [3]), ([], [])]\<rparr>\<rparr>"

definition demo_task :: Task where
  "demo_task = \<lparr>tk_DataType = 5050, tk_ObjectName = [1, 2, 3], tk_Data = [], tk_Token = [9]\<rparr>"

lemma sov_le: "sovBridge v \<le> 10" using sovBridge_bounds by blast

theorem bridge_roundtrip_witness:
  "\<exists>bs. Task_Marshal demo_task = Some bs \<and> Task_Unmarshal empty_task bs = Inr demo_task"
proof -
  have "Record_Size demo_record = 26"
    by (simp add: Record_Size_def demo_record_def Let_def Payload_Size_def sovBridge_conv)
  then have "Record_Size demo_record < 2 ^ 63" by simp
  moreover have "Task_Size demo_task < 2 ^ 63"
    using sov_le[of "scast (5050 :: 32 word)"] sov_le[of 3] sov_le[of 1]
    by (simp add: Task_Size_def demo_task_def str_size_def)
  moreover have "wf_record demo_record" by (simp add: wf_record_def demo_record_def)
  ultimately show ?thesis using bridge_roundtrip[of demo_record demo_task] by blast
qed

text \<open>
  Tasks that the agent writes to a plugin, one after the other, are received by the plugin
  library in the same order and unchanged, and nothing of the following bytes is consumed, as long
  as each fits into the one-megabyte buffer of the reader.
\<close>

theorem task_delivery:
  assumes "Task_Size t \<le> 1024 * 1024"
  shows "\<exists>bs. task_frame t = Some bs \<and> ReceiveTask (bs @ rest) = (Inr t, rest)"
proof -
  have "task_msg.read_message (task_msg.frame t @ rest) = (Inr t, rest)"
    using task_msg.read_frame[of t rest] assms by auto
  moreover have "read_uint32 (task_msg.frame t @ rest) = (Inr (Task_Size t), Task_bytes t @ rest)"
    using read_uint32_frame[of "Task_Size t" "Task_bytes t @ rest"] assms by (simp add: task_msg.frame_def)
  ultimately show ?thesis using assms Task_Size_exact[of t]
    by (simp add: task_frame_conv ReceiveTask_def task_msg.read_message_def)
qed

theorem task_delivery_witness:
  "\<exists>bs. task_frame demo_task = Some bs \<and> ReceiveTask (bs @ [7, 7]) = (Inr demo_task, [7, 7])"
proof -
  have "Task_Size demo_task \<le> 1024 * 1024"
    using sov_le[of "scast (5050 :: 32 word)"] sov_le[of 3] sov_le[of 1]
    by (simp add: Task_Size_def demo_task_def str_size_def)
  then show ?thesis by (rule task_delivery)
qed

section \<open>The agent reads records\<close>

text \<open>
  \<open>ReceiveData\<close> reads the frame length, takes the first tag, the data type, the second tag, the time
  stamp and the third tag for granted, and reads the rest of the frame as the encoded payload.  Its
  outcome is a panic, an error together with the record so far (which may be \<open>nil\<close>), or a record
  (which may be \<open>nil\<close> too); \<open>rd_pools\<close> are the record pools.  The counters are not read by it.
\<close>

datatype recv_outcome = RecvPanic | RecvErr io_error "EncodedRecord option" | RecvOk "EncodedRecord option"

record plugin_reader =
  rd_bytes :: bytes
  rd_pools :: pools
  txCnt :: "64 word"
  txBytes :: "64 word"

text \<open>\<open>reader.Discard(1)\<close>.\<close>

definition discard1 :: "bytes \<Rightarrow> (io_error + unit) \<times> bytes" where
  "discard1 bs = (case bs of [] \<Rightarrow> (Inl EOF, []) | b # bs' \<Rightarrow> (Inr (), bs'))"

definition stream_varint :: "bytes \<Rightarrow> (io_error + 64 word) \<times> nat \<times> bytes" where
  "stream_varint bs =
     (case readVarint bs of
        (Inr v, e, bs') \<Rightarrow> (Inr v, e, bs')
      | (Inl UnexpectedEOF, e, bs') \<Rightarrow> (Inl EOF, e, bs')
      | (Inl err, e, bs') \<Rightarrow> (Inl (ProtoErr err), e, bs'))"

definition ReceiveData :: "plugin_reader \<Rightarrow> recv_outcome \<times> plugin_reader" where
  "ReceiveData p =
     (case read_uint32 (rd_bytes p) of
        (Inl err, bs0) \<Rightarrow> (RecvErr err None, p\<lparr>rd_bytes := bs0\<rparr>)
      | (Inr l, bs0) \<Rightarrow>
     (case discard1 bs0 of
        (Inl err, bs1) \<Rightarrow> (RecvErr err None, p\<lparr>rd_bytes := bs1\<rparr>)
      | (Inr _, bs1) \<Rightarrow>
     (case stream_varint bs1 of
        (Inl err, e1, bs2) \<Rightarrow> (RecvErr err None, p\<lparr>rd_bytes := bs2\<rparr>)
      | (Inr dt, e1, bs2) \<Rightarrow>
     (case discard1 bs2 of
        (Inl err, bs3) \<Rightarrow> (RecvErr err None, p\<lparr>rd_bytes := bs3\<rparr>)
      | (Inr _, bs3) \<Rightarrow>
     (case stream_varint bs3 of
        (Inl err, e2, bs4) \<Rightarrow> (RecvErr err None, p\<lparr>rd_bytes := bs4\<rparr>)
      | (Inr ts, e2, bs4) \<Rightarrow>
     (case discard1 bs4 of
        (Inl err, bs5) \<Rightarrow> (RecvErr err None, p\<lparr>rd_bytes := bs5\<rparr>)
      | (Inr _, bs5) \<Rightarrow>
          let te = 1 + (e1 + 1) + (e2 + 1);
              done = (\<lambda>rec bs ps. (RecvOk rec, p\<lparr>rd_bytes := bs, rd_pools := ps,
                        txCnt := txCnt p + 1, txBytes := txBytes p + of_nat l\<rparr>))
          in if te < l then
               (case stream_varint bs5 of
                  (Inl err, e3, bs6) \<Rightarrow> (RecvErr err None, p\<lparr>rd_bytes := bs6\<rparr>)
                | (Inr _, e3, bs6) \<Rightarrow>
                    let ne = int l - int (te + e3);
                        (r, ps) = GetEncodedRecord (rd_pools p) ne;
                        r1 = r\<lparr>er_DataType := ucast dt, er_Timestamp := ts\<rparr>
                    in if ne < 0 then (RecvPanic, p\<lparr>rd_bytes := bs6, rd_pools := ps\<rparr>)
                       else
                         let r2 = fit_record r1 (nat ne);
                             got = take (nat ne) bs6;
                             rec = r2\<lparr>er_mem := got @ drop (length got) (er_mem r2)\<rparr>
                         in if length got < nat ne
                            then (RecvErr (if got = [] then EOF else ErrUnexpectedEOF) (Some rec),
                                  p\<lparr>rd_bytes := [], rd_pools := ps\<rparr>)
                            else done (Some rec) (drop (nat ne) bs6) ps)
             else done None bs5 (rd_pools p)))))))"

text \<open>
  One round of the receiving goroutine: \<^const>\<open>None\<close> ends it; a panic takes the agent down.  An error
  that does not end the stream is logged, and the record is written to the buffer all the same.
\<close>

datatype 'a go_result = Go 'a | GoPanic

definition receive_round :: "plugin_reader \<times> buffer_state \<Rightarrow> (plugin_reader \<times> buffer_state) go_result option" where
  "receive_round s =
     (let (p, st) = s;
          write = (\<lambda>rec p'. case WriteEncodedRecord st rec of
                     None \<Rightarrow> Some GoPanic | Some st' \<Rightarrow> Some (Go (p', st')))
      in case ReceiveData p of
           (RecvPanic, _) \<Rightarrow> Some GoPanic
         | (RecvErr err rec, p') \<Rightarrow>
             if err = ErrBufferFull then Some (Go (p', st))
             else if err = EOF then None
             else write rec p'
         | (RecvOk rec, p') \<Rightarrow> write rec p')"

lemma stream_varint_encode: "stream_varint (encodeVarintBridge v @ rest) = (Inr v, length (encodeVarintBridge v), rest)"
  by (simp add: stream_varint_def readVarint_encode)

lemma discard1_Cons [simp]: "discard1 (b # bs) = (Inr (), bs)"
  by (simp add: discard1_def)

lemma fit_Data: "length xs = n \<Longrightarrow> er_Data ((fit_record r n)\<lparr>er_mem := xs @ drop n (er_mem (fit_record r n))\<rparr>) = xs"
  by (simp add: er_Data_def fit_record_def)

text \<open>
  C3. What the plugin library sends, the agent receives: for a record with a data type, a time stamp
  and a payload, the agent gets the same data type and time stamp and exactly the bytes of the
  encoded payload, without consuming anything of the next frame, whatever recycled record the pool
  hands out; it counts one record and the bytes of its frame.
\<close>

theorem record_delivery:
  assumes "rec_DataType r \<noteq> 0" "rec_Timestamp r \<noteq> 0" "rec_Data r = Some pl" "Record_Size r < 2 ^ 32"
  shows "\<exists>bs rec p'. SendRecord r = Some bs \<and> ReceiveData (p\<lparr>rd_bytes := bs @ rest\<rparr>) = (RecvOk (Some rec), p')
     \<and> er_DataType rec = rec_DataType r \<and> er_Timestamp rec = rec_Timestamp r \<and> er_Data rec = Payload_bytes pl
     \<and> rd_bytes p' = rest \<and> txCnt p' = txCnt p + 1 \<and> txBytes p' = txBytes p + of_nat (Record_Size r)"
proof -
  define E1 where "E1 = encodeVarintBridge (scast (rec_DataType r))"
  define E2 where "E2 = encodeVarintBridge (rec_Timestamp r)"
  define E3 where "E3 = enc_len (Payload_bytes pl)"
  define P where "P = Payload_bytes pl"
  have bytes: "Record_bytes r = 0x08 # E1 @ 0x10 # E2 @ 0x1a # E3 @ P"
    using assms by (simp add: Record_bytes_def E1_def E2_def E3_def P_def)
  have sz: "Record_Size r = 3 + length E1 + length E2 + length E3 + length P"
    using Record_Size_exact[of r] by (simp add: bytes)
  have e3: "0 < length E3" by (simp add: E3_def)
  have hd: "read_uint32 ((PutUint32 (Record_Size r) @ Record_bytes r) @ rest) = (Inr (Record_Size r), Record_bytes r @ rest)"
    using read_uint32_frame[OF assms(4)] by simp
  have v1: "stream_varint (E1 @ xs) = (Inr (scast (rec_DataType r)), length E1, xs)" for xs
    by (simp add: E1_def stream_varint_encode)
  have v2: "stream_varint (E2 @ xs) = (Inr (rec_Timestamp r), length E2, xs)" for xs
    by (simp add: E2_def stream_varint_encode)
  have v3: "stream_varint (E3 @ xs) = (Inr (of_nat (length P)), length E3, xs)" for xs
    by (simp add: E3_def P_def stream_varint_encode)
  obtain r0 ps where g: "GetEncodedRecord (rd_pools p) (int (length P)) = (r0, ps)"
    by (cases "GetEncodedRecord (rd_pools p) (int (length P))")
  let ?r2 = "fit_record (r0\<lparr>er_DataType := rec_DataType r, er_Timestamp := rec_Timestamp r\<rparr>) (length P)"
  let ?rec = "?r2\<lparr>er_mem := P @ drop (length P) (er_mem ?r2)\<rparr>"
  have "SendRecord r = Some (PutUint32 (Record_Size r) @ Record_bytes r)"
    by (simp add: SendRecord_conv record_msg.frame_def)
  moreover have "ReceiveData (p\<lparr>rd_bytes := (PutUint32 (Record_Size r) @ Record_bytes r) @ rest\<rparr>) =
      (RecvOk (Some ?rec), p\<lparr>rd_bytes := rest, rd_pools := ps, txCnt := txCnt p + 1, txBytes := txBytes p + of_nat (Record_Size r)\<rparr>)"
    unfolding ReceiveData_def using hd e3
    by (simp add: bytes v1 v2 v3 sz g ucast_scast_32 Let_def)
  moreover have "er_DataType ?rec = rec_DataType r" "er_Timestamp ?rec = rec_Timestamp r"
    by (simp_all add: fit_record_def)
  moreover have "er_Data ?rec = P" by (rule fit_Data) simp
  ultimately show ?thesis by (intro exI conjI) (auto simp: P_def)
qed

theorem record_delivery_witness:
  "\<exists>bs rec p'. SendRecord demo_record = Some bs
     \<and> ReceiveData (\<lparr>rd_bytes = bs @ [1, 2], rd_pools = [[], [], [], []], txCnt = 0, txBytes = 0\<rparr>) = (RecvOk (Some rec), p')
     \<and> er_DataType rec = 601 \<and> rd_bytes p' = [1, 2]"
proof -
  have s: "Record_Size demo_record = 26"
    by (simp add: Record_Size_def demo_record_def Let_def Payload_Size_def sovBridge_conv)
  show ?thesis
    using record_delivery[of demo_record "\<lparr>pl_Fields = [([1, 2], [3]), ([], [])]\<rparr>" "[1, 2]"
        "\<lparr>rd_bytes = [], rd_pools = [[], [], [], []], txCnt = 0, txBytes = 0\<rparr>"]
    by (simp add: s) (auto simp: demo_record_def)
qed

text \<open>
  A record with data type zero is not understood: the marshaller leaves the field out, the
  agent takes the time stamp for the data type, and what it reads next is out of step.  For a
  record with data type 0, time stamp 5 and an empty payload it reports data type 5 and, reading
  the payload's length as the time stamp, consumes a byte of the next frame and hands on a nil
  record.
\<close>

theorem zero_data_type_desync:
  "\<exists>bs p'. SendRecord \<lparr>rec_DataType = 0, rec_Timestamp = 5, rec_Data = Some \<lparr>pl_Fields = []\<rparr>\<rparr> = Some bs
     \<and> ReceiveData \<lparr>rd_bytes = bs @ [9, 9], rd_pools = [[], [], [], []], txCnt = 0, txBytes = 0\<rparr> = (RecvOk None, p')
     \<and> rd_bytes p' = [9]"
proof -
  let ?r = "\<lparr>rec_DataType = 0, rec_Timestamp = 5, rec_Data = Some \<lparr>pl_Fields = []\<rparr>\<rparr>"
  have e: "encodeVarintBridge 5 = [5]" "encodeVarintBridge 0 = [0]" by (simp_all add: encodeVarintBridge.simps)
  have b: "Record_bytes ?r = [0x10, 5, 0x1a, 0]" by (simp add: Record_bytes_def Payload_bytes_def e)
  then have "Record_Size ?r = 4" using Record_Size_exact[of ?r] by simp
  then have "SendRecord ?r = Some ([4, 0, 0, 0] @ [0x10, 5, 0x1a, 0])"
    by (simp add: SendRecord_conv record_msg.frame_def b PutUint32_def)
  moreover have "stream_varint [5, 0x1a, 0, 9, 9] = (Inr 5, 1, [0x1a, 0, 9, 9])" "stream_varint [0, 9, 9] = (Inr 0, 1, [9, 9])"
    using stream_varint_encode[of 5] stream_varint_encode[of 0] by (simp_all add: e)
  ultimately show ?thesis
    by (simp add: ReceiveData_def read_uint32_def)
qed

text \<open>
  A plugin can take the agent down: a frame whose length ends one byte inside the length of the
  payload makes the agent slice with a negative bound, and a frame without payload puts a nil
  record on a full buffer, which is dereferenced.  Both are panics of the receiving goroutine.
\<close>

theorem plugin_crashes_agent:
  "receive_round (\<lparr>rd_bytes = [6, 0, 0, 0, 8, 1, 0x10, 1, 0x1a, 0x80, 1], rd_pools = [[], [], [], []], txCnt = 0, txBytes = 0\<rparr>, buffer_init)
     = Some GoPanic
   \<and> receive_round (\<lparr>rd_bytes = [4, 0, 0, 0, 8, 1, 0x10, 1, 9], rd_pools = [[], [], [], []], txCnt = 0, txBytes = 0\<rparr>, buffer_init\<lparr>offset := 2048\<rparr>)
     = Some GoPanic"
proof -
  have e: "encodeVarintBridge 1 = [1]" by (simp add: encodeVarintBridge.simps varint_limit)
  have e': "encodeVarintBridge 128 = [0x80, 1]" by (simp add: encodeVarintBridge.simps varint_limit)
  have v: "stream_varint (1 # xs) = (Inr 1, 1, xs)" for xs using stream_varint_encode[of 1 xs] by (simp add: e)
  have v': "stream_varint [0x80, 1] = (Inr 128, 2, [])" using stream_varint_encode[of 128 "[]"] by (simp add: e')
  show ?thesis
    by (simp add: receive_round_def ReceiveData_def read_uint32_def v v' GetEncodedRecord_def WriteEncodedRecord_def
        buffer_init_def PutEncodedRecord_def)
qed

end
