(* ===== verification/GRPCPool.thy ===== *)
theory GRPCPool
  imports Batching GoStrings
begin

text \<open>
  The connection pool of the agent center (\<open>grpctrans/pool/pool.go\<close>, \<open>grpctrans/pool/options.go\<close>) and
  the calls to the manager it makes (\<open>httptrans/client\<close>).  Connections are shared by pointer: the
  heap \<open>conns\<close> holds the objects, one per stream, and the pool maps an agent id to a place of it.  A
  buffered channel is the list of its values, the token channel their number.  A Go \<open>error\<close> is a
  \<open>string option\<close>, with \<^const>\<open>None\<close> for \<open>nil\<close>.  The go-cache behind \<open>connPool\<close> never expires its
  entries (\<open>cache.New(-1, -1)\<close>) and is a map.
\<close>

section \<open>Connections\<close>

text \<open>What the details of a connection hold: an \<open>interface{}\<close> with one of four dynamic types.\<close>

datatype 'f dval = DStr string | DFloat 'f | DInt int | DStrs "string list"

type_synonym 'f detail = "(string, 'f dval) gomap"

record 'f Connection =
  AgentID :: string
  TenantAuthCode :: string
  TenantID :: int
  HostID :: int
  SourceAddr :: string
  CreateAt :: int
  agentDetail :: "'f detail option"
  pluginDetail :: "(string, 'f detail) gomap option"
  ethInfoDetail :: "(string, 'f detail) gomap option"

text \<open>The getter writes the tenant and the host into the stored map before it returns it.\<close>

definition GetAgentDetail :: "'f Connection \<Rightarrow> 'f detail \<times> 'f Connection" where
  "GetAgentDetail c =
     (case agentDetail c of
        None \<Rightarrow> ([], c)
      | Some d \<Rightarrow>
          let d' = mput (mput d ''tenant_id'' (DInt (TenantID c))) ''host_id'' (DInt (HostID c))
          in (d', c\<lparr>agentDetail := Some d'\<rparr>))"

definition SetAgentDetail :: "'f detail \<Rightarrow> 'f Connection \<Rightarrow> 'f Connection" where
  "SetAgentDetail d c = c\<lparr>agentDetail := Some d\<rparr>"

text \<open>A missing plugin reads as the zero value of the map type, \<open>nil\<close>.\<close>

definition GetPluginDetail :: "'f Connection \<Rightarrow> string \<Rightarrow> 'f detail option" where
  "GetPluginDetail c name = (case pluginDetail c of None \<Rightarrow> Some [] | Some m \<Rightarrow> map_of m name)"

definition SetPluginDetail :: "string \<Rightarrow> 'f detail \<Rightarrow> 'f Connection \<Rightarrow> 'f Connection" where
  "SetPluginDetail name d c =
     c\<lparr>pluginDetail := Some (mput (case pluginDetail c of None \<Rightarrow> [] | Some m \<Rightarrow> m) name d)\<rparr>"

definition GetPluginsList :: "'f Connection \<Rightarrow> 'f detail list" where
  "GetPluginsList c = map snd (case pluginDetail c of None \<Rightarrow> [] | Some m \<Rightarrow> m)"

definition GetEthInfoDetail :: "'f Connection \<Rightarrow> string \<Rightarrow> 'f detail option" where
  "GetEthInfoDetail c name = (case ethInfoDetail c of None \<Rightarrow> Some [] | Some m \<Rightarrow> map_of m name)"

definition SetEthInfoDetail :: "string \<Rightarrow> 'f detail \<Rightarrow> 'f Connection \<Rightarrow> 'f Connection" where
  "SetEthInfoDetail name d c =
     c\<lparr>ethInfoDetail := Some (mput (case ethInfoDetail c of None \<Rightarrow> [] | Some m \<Rightarrow> m) name d)\<rparr>"

definition GetEthInfosList :: "'f Connection \<Rightarrow> 'f detail list" where
  "GetEthInfosList c = map snd (case ethInfoDetail c of None \<Rightarrow> [] | Some m \<Rightarrow> m)"

section \<open>Replies of the manager\<close>

text \<open>
  A \<open>grequests.Post\<close> either fails or gives a response; \<open>resp.Ok\<close> is the first component of the response
  and the decoded body, or the error of \<open>json.Unmarshal\<close>, the second.
\<close>

type_synonym 'b http_response = "string + (bool \<times> (string + 'b))"

record ConfigItem =
  ci_Name :: string
  ci_Type :: string
  ci_Version :: string
  ci_SHA256 :: string
  ci_Signature :: string
  ci_DownloadURL :: "string list"
  ci_Detail :: string

record ConfigMsg =
  ac_Name :: string
  ac_Type :: string
  ac_Signature :: string
  ac_Version :: string
  ac_SHA256 :: string
  ac_DownloadURL :: "string list"
  ac_Detail :: string

record ResAgentConf =
  rc_Code :: int
  rc_Message :: string
  rc_Data :: "ConfigMsg list"

record AgentExtraInfo =
  Tags :: string
  PSMName :: string
  PSMPath :: string

record ResAgentTags =
  rt_Code :: int
  rt_Message :: string
  rt_Data :: "(string, AgentExtraInfo) gomap"

definition to_ConfigItem :: "ConfigMsg \<Rightarrow> ConfigItem" where
  "to_ConfigItem v =
     \<lparr>ci_Name = ac_Name v, ci_Type = ac_Type v, ci_Version = ac_Version v, ci_SHA256 = ac_SHA256 v,
      ci_Signature = ac_Signature v, ci_DownloadURL = ac_DownloadURL v, ci_Detail = ac_Detail v\<rparr>"

definition GetConfigFromRemote :: "ResAgentConf http_response \<Rightarrow> string + ConfigItem list" where
  "GetConfigFromRemote resp =
     (case resp of
        Inl err \<Rightarrow> Inl err
      | Inr (ok, body) \<Rightarrow>
          if \<not> ok then Inl ''status code is not ok''
          else (case body of
                  Inl err \<Rightarrow> Inl err
                | Inr r \<Rightarrow> if rc_Code r \<noteq> 0 then Inl ''response code is not 0''
                          else Inr (map to_ConfigItem (rc_Data r))))"

definition GetExtraInfoFromRemote ::
  "ResAgentTags http_response \<Rightarrow> (string, AgentExtraInfo) gomap \<times> string option" where
  "GetExtraInfoFromRemote resp =
     (case resp of
        Inl err \<Rightarrow> ([], Some err)
      | Inr (ok, body) \<Rightarrow>
          if \<not> ok then ([], Some ''status code is not ok'')
          else (case body of
                  Inl err \<Rightarrow> ([], Some err)
                | Inr r \<Rightarrow> if rt_Code r \<noteq> 0 then ([], Some ''response code is not 0'')
                          else (rt_Data r, None)))"

section \<open>The pool\<close>

record Config =
  PoolLength :: nat
  ChanLen :: nat
  TaskCountWeight :: nat

definition NewConfig :: Config where
  "NewConfig = \<lparr>PoolLength = 1024, ChanLen = 1024, TaskCountWeight = 100\<rparr>"

type_synonym task = "(string, string) gomap"

text \<open>\<open>posted\<close> records the batches handed to \<open>client.PostTask\<close>.\<close>

record 'f GRPCPool =
  conns :: "nat \<Rightarrow> 'f Connection"
  connPool :: "(string, nat) gomap"
  tokenChan :: nat
  confChan :: "string list"
  taskChan :: "task list"
  taskList :: "task list"
  posted :: "task list list"
  extraInfoChan :: "string list"
  extraInfoCache :: "(string, AgentExtraInfo) gomap"
  conf :: Config

definition NewGRPCPool :: "(nat \<Rightarrow> 'f Connection) \<Rightarrow> Config \<Rightarrow> 'f GRPCPool" where
  "NewGRPCPool heap config =
     \<lparr>conns = heap, connPool = [], tokenChan = PoolLength config, confChan = [], taskChan = [],
      taskList = [], posted = [], extraInfoChan = [], extraInfoCache = [], conf = config\<rparr>"

definition LoadToken :: "'f GRPCPool \<Rightarrow> bool \<times> 'f GRPCPool" where
  "LoadToken g = (if 0 < tokenChan g then (True, g\<lparr>tokenChan := tokenChan g - 1\<rparr>) else (False, g))"

text \<open>The send on the token channel; \<^const>\<open>None\<close> when it blocks.\<close>

definition ReleaseToken :: "'f GRPCPool \<Rightarrow> 'f GRPCPool option" where
  "ReleaseToken g =
     (if tokenChan g < PoolLength (conf g) then Some (g\<lparr>tokenChan := Suc (tokenChan g)\<rparr>) else None)"

definition GetCount :: "'f GRPCPool \<Rightarrow> nat" where
  "GetCount g = length (connPool g)"

definition GetByID :: "'f GRPCPool \<Rightarrow> string \<Rightarrow> string + nat" where
  "GetByID g agentID =
     (case map_of (connPool g) agentID of None \<Rightarrow> Inl ''agentID not found'' | Some c \<Rightarrow> Inr c)"

text \<open>
  \<open>Add\<close> looks the agent up and then stores the connection, in two separate calls of the cache; the
  halves are kept apart so that other streams may run between them.
\<close>

definition Add_check :: "'f GRPCPool \<Rightarrow> string \<Rightarrow> string option" where
  "Add_check g agentID =
     (case map_of (connPool g) agentID of Some _ \<Rightarrow> Some ''agentID conflict'' | None \<Rightarrow> None)"

definition Add_set :: "'f GRPCPool \<Rightarrow> string \<Rightarrow> nat \<Rightarrow> 'f GRPCPool" where
  "Add_set g agentID c =
     (let g' = g\<lparr>connPool := mput (connPool g) agentID c\<rparr>
      in case chan_try_send (ChanLen (conf g)) (extraInfoChan g') agentID of
           Some ch \<Rightarrow> g'\<lparr>extraInfoChan := ch\<rparr>
         | None \<Rightarrow> g')"

definition Add :: "'f GRPCPool \<Rightarrow> string \<Rightarrow> nat \<Rightarrow> string option \<times> 'f GRPCPool" where
  "Add g agentID c =
     (case Add_check g agentID of Some err \<Rightarrow> (Some err, g) | None \<Rightarrow> (None, Add_set g agentID c))"

definition Delete :: "'f GRPCPool \<Rightarrow> string \<Rightarrow> 'f GRPCPool" where
  "Delete g agentID = g\<lparr>connPool := mdel (connPool g) agentID\<rparr>"

definition GetList :: "'f GRPCPool \<Rightarrow> nat list" where
  "GetList g = map snd (connPool g)"

definition PostLatestConfig :: "'f GRPCPool \<Rightarrow> string \<Rightarrow> string option \<times> 'f GRPCPool" where
  "PostLatestConfig g agentID =
     (case chan_try_send (ChanLen (conf g)) (confChan g) agentID of
        Some ch \<Rightarrow> (None, g\<lparr>confChan := ch\<rparr>)
      | None \<Rightarrow> (Some ''confChan is full, please try later'', g))"

definition PushTask2Manager :: "'f GRPCPool \<Rightarrow> task \<Rightarrow> string option \<times> 'f GRPCPool" where
  "PushTask2Manager g t =
     (case chan_try_send (ChanLen (conf g)) (taskChan g) t of
        Some ch \<Rightarrow> (None, g\<lparr>taskChan := ch\<rparr>)
      | None \<Rightarrow> (Some ''taskChan is full, please try later'', g))"

definition GetExtraInfoByID :: "'f GRPCPool \<Rightarrow> string \<Rightarrow> AgentExtraInfo option" where
  "GetExtraInfoByID g agentID = map_of (extraInfoCache g) agentID"

text \<open>One round of \<open>refreshExtraInfo\<close>, given what the manager answers for the list of agents.\<close>

definition refreshExtraInfo_round ::
  "(string list \<Rightarrow> ResAgentTags http_response) \<Rightarrow> 'f GRPCPool \<Rightarrow> 'f GRPCPool" where
  "refreshExtraInfo_round remote g =
     (case GetExtraInfoFromRemote (remote (map fst (connPool g))) of
        (newCache, None) \<Rightarrow> g\<lparr>extraInfoCache := newCache\<rparr>
      | (_, Some _) \<Rightarrow> g)"

text \<open>One round of \<open>loadExtraInfoWorker\<close>; \<open>tmp[agentID]\<close> is the zero value for an absent agent.\<close>

definition loadExtraInfoWorker_round ::
  "(string list \<Rightarrow> ResAgentTags http_response) \<Rightarrow> 'f GRPCPool \<Rightarrow> 'f GRPCPool" where
  "loadExtraInfoWorker_round remote g =
     (case extraInfoChan g of
        [] \<Rightarrow> g
      | agentID # ch \<Rightarrow>
          let g' = g\<lparr>extraInfoChan := ch\<rparr>
          in case GetExtraInfoFromRemote (remote [agentID]) of
               (tmp, None) \<Rightarrow>
                 g'\<lparr>extraInfoCache := mput (extraInfoCache g') agentID
                    (case map_of tmp agentID of Some i \<Rightarrow> i | None \<Rightarrow> \<lparr>Tags = [], PSMName = [], PSMPath = []\<rparr>)\<rparr>
             | (_, Some _) \<Rightarrow> g')"

section \<open>Commands\<close>

text \<open>
  What happens to a command offered on the channel of a connection within the two timeouts: nobody
  takes it, somebody takes it and does not answer in time, or it is answered with an error or \<open>nil\<close>.
\<close>

datatype delivery = NotTaken | NoAnswer | Answered "string option"

record PluginTask =
  pt_DataType :: int
  pt_Name :: string
  pt_Data :: string
  pt_Token :: string

record command =
  AgentCtrl :: int
  cmd_Task :: "PluginTask option"
  cmd_Config :: "ConfigItem list"

definition PostCommand :: "(nat \<Rightarrow> command \<Rightarrow> delivery) \<Rightarrow> 'f GRPCPool \<Rightarrow> string \<Rightarrow> command \<Rightarrow> string option" where
  "PostCommand deliver g agentID cmd =
     (case GetByID g agentID of
        Inl err \<Rightarrow> Some err
      | Inr c \<Rightarrow>
          (case deliver c cmd of
             NotTaken \<Rightarrow> Some ''the sendPool of the agent is full''
           | NoAnswer \<Rightarrow> Some ''the command has been sent but get results timed out''
           | Answered e \<Rightarrow> e))"

definition Close :: "(nat \<Rightarrow> bool) \<Rightarrow> 'f GRPCPool \<Rightarrow> string \<Rightarrow> string option" where
  "Close taken g agentID =
     (case GetByID g agentID of
        Inl err \<Rightarrow> Some err
      | Inr c \<Rightarrow> if taken c then None else Some ''the sendPool of the agent is full'')"

text \<open>
  One round of \<open>checkConfig\<close>: the pool afterwards and the command it posted with the outcome, if it
  came to that.  \<^const>\<open>None\<close> when the channel is empty and the goroutine waits.
\<close>

definition checkConfig_round ::
  "(string \<Rightarrow> 'f detail \<Rightarrow> ResAgentConf http_response) \<Rightarrow> (nat \<Rightarrow> command \<Rightarrow> delivery) \<Rightarrow> 'f GRPCPool \<Rightarrow>
     ('f GRPCPool \<times> (string \<times> command \<times> string option) option) option" where
  "checkConfig_round remote deliver g =
     (case confChan g of
        [] \<Rightarrow> None
      | agentID # ch \<Rightarrow>
          let g1 = g\<lparr>confChan := ch\<rparr>
          in case GetByID g1 agentID of
               Inl err \<Rightarrow> Some (g1, None)
             | Inr c \<Rightarrow>
                 let (detail, conn) = GetAgentDetail (conns g1 c);
                     g2 = g1\<lparr>conns := (conns g1)(c := conn)\<rparr>
                 in case GetConfigFromRemote (remote agentID detail) of
                      Inl err \<Rightarrow> Some (g2, None)
                    | Inr config \<Rightarrow>
                        let cmd = \<lparr>AgentCtrl = 0, cmd_Task = None, cmd_Config = config\<rparr>
                        in Some (g2, Some (agentID, cmd, PostCommand deliver g2 agentID cmd)))"

section \<open>Reporting tasks\<close>

text \<open>The loop body of \<open>checkTask\<close> on the task list: a received task or a tick of the timer.\<close>

definition checkTask_step :: "nat \<Rightarrow> task list \<Rightarrow> task option \<Rightarrow> task list \<times> task list option" where
  "checkTask_step weight ts ev =
     (case ev of
        Some t \<Rightarrow> let ts' = ts @ [t] in if weight \<le> length ts' then ([], Some ts') else (ts', None)
      | None \<Rightarrow> if length ts < 1 then (ts, None) else ([], Some ts))"

text \<open>A round of the loop on the pool: \<open>tick\<close> tells which of the two cases fires.\<close>

definition checkTask_round :: "bool \<Rightarrow> 'f GRPCPool \<Rightarrow> 'f GRPCPool" where
  "checkTask_round tick g =
     (if tick then
        let (ts, out) = checkTask_step (TaskCountWeight (conf g)) (taskList g) None
        in g\<lparr>taskList := ts, posted := posted g @ opt_list out\<rparr>
      else case taskChan g of
             [] \<Rightarrow> g
           | t # ch \<Rightarrow>
               let (ts, out) = checkTask_step (TaskCountWeight (conf g)) (taskList g) (Some t)
               in g\<lparr>taskChan := ch, taskList := ts, posted := posted g @ opt_list out\<rparr>)"

interpretation task_batches: batcher "checkTask_step weight" weight for weight
proof (unfold_locales, goal_cases)
  case (1 pending ev pending' out)
  then show ?case by (cases ev) (auto simp: checkTask_step_def Let_def split: if_splits)
next
  case (2 pending ev pending' out)
  then show ?case by (cases ev) (auto simp: checkTask_step_def Let_def split: if_splits)
next
  case (3 pending ev pending' b)
  then show ?case by (cases ev) (auto simp: checkTask_step_def Let_def split: if_splits)
next
  case (4 pending pending' out)
  then show ?case by (auto simp: checkTask_step_def split: if_splits)
qed

section \<open>Laws of the pool\<close>

lemma GetByID_Add: "Add g a c = (None, g') \<Longrightarrow> GetByID g' b = (if b = a then Inr c else GetByID g b)"
  by (auto simp: Add_def Add_set_def GetByID_def Let_def split: option.splits if_splits)

lemma GetByID_Delete: "GetByID (Delete g a) b = (if b = a then Inl ''agentID not found'' else GetByID g b)"
  by (simp add: Delete_def GetByID_def)

lemma Add_conflict: "Add g a c = (Some err, g') \<longleftrightarrow> (\<exists>d. GetByID g a = Inr d) \<and> err = ''agentID conflict'' \<and> g' = g"
  by (auto simp: Add_def Add_check_def GetByID_def split: option.splits)

text \<open>Which parts of the pool the operations leave alone.\<close>

lemma Add_set_frame [simp]:
  "tokenChan (Add_set g a c) = tokenChan g" "conf (Add_set g a c) = conf g"
  "connPool (Add_set g a c) = mput (connPool g) a c" "conns (Add_set g a c) = conns g"
  "taskChan (Add_set g a c) = taskChan g" "taskList (Add_set g a c) = taskList g"
  "posted (Add_set g a c) = posted g" "confChan (Add_set g a c) = confChan g"
  "extraInfoCache (Add_set g a c) = extraInfoCache g"
  by (simp_all add: Add_set_def Let_def split: option.splits)

lemma Delete_frame [simp]:
  "tokenChan (Delete g a) = tokenChan g" "conf (Delete g a) = conf g"
  "connPool (Delete g a) = mdel (connPool g) a" "conns (Delete g a) = conns g"
  by (simp_all add: Delete_def)

lemma PushTask2Manager_frame [simp]:
  "tokenChan (snd (PushTask2Manager g t)) = tokenChan g" "conf (snd (PushTask2Manager g t)) = conf g"
  "connPool (snd (PushTask2Manager g t)) = connPool g" "conns (snd (PushTask2Manager g t)) = conns g"
  "confChan (snd (PushTask2Manager g t)) = confChan g"
  "extraInfoCache (snd (PushTask2Manager g t)) = extraInfoCache g"
  by (simp_all add: PushTask2Manager_def split: option.splits)

lemma PostLatestConfig_frame [simp]:
  "tokenChan (snd (PostLatestConfig g a)) = tokenChan g" "conf (snd (PostLatestConfig g a)) = conf g"
  "connPool (snd (PostLatestConfig g a)) = connPool g" "conns (snd (PostLatestConfig g a)) = conns g"
  "taskChan (snd (PostLatestConfig g a)) = taskChan g"
  "extraInfoCache (snd (PostLatestConfig g a)) = extraInfoCache g"
  by (simp_all add: PostLatestConfig_def split: option.splits)

lemma checkTask_round_frame [simp]:
  "tokenChan (checkTask_round tick g) = tokenChan g" "conf (checkTask_round tick g) = conf g"
  "connPool (checkTask_round tick g) = connPool g" "conns (checkTask_round tick g) = conns g"
  by (simp_all add: checkTask_round_def Let_def split: prod.splits list.splits)

lemma checkConfig_round_frame:
  "checkConfig_round remote deliver g = Some (g', out) \<Longrightarrow>
     tokenChan g' = tokenChan g \<and> conf g' = conf g \<and> connPool g' = connPool g
     \<and> (\<forall>c. AgentID (conns g' c) = AgentID (conns g c) \<and> TenantID (conns g' c) = TenantID (conns g c)
           \<and> HostID (conns g' c) = HostID (conns g c))"
  by (auto simp: checkConfig_round_def GetAgentDetail_def Let_def
      split: list.splits sum.splits prod.splits option.splits)

section \<open>Tasks reach the manager\<close>

text \<open>
  The events of the task path: a stream pushes a task, the \<open>checkTask\<close> goroutine takes one from the
  channel, its timer fires.  The result lists the tasks that \<open>PushTask2Manager\<close> accepted.
\<close>

datatype task_event = Push task | Take | Tick

fun run_tasks :: "'f GRPCPool \<Rightarrow> task_event list \<Rightarrow> task list \<times> 'f GRPCPool" where
  "run_tasks g [] = ([], g)"
| "run_tasks g (Push t # evs) =
     (case PushTask2Manager g t of
        (None, g') \<Rightarrow> (let (acc, g'') = run_tasks g' evs in (t # acc, g''))
      | (Some _, g') \<Rightarrow> run_tasks g' evs)"
| "run_tasks g (Take # evs) = run_tasks (checkTask_round False g) evs"
| "run_tasks g (Tick # evs) = run_tasks (checkTask_round True g) evs"

definition in_flight :: "'f GRPCPool \<Rightarrow> task list" where
  "in_flight g = concat (posted g) @ taskList g @ taskChan g"

definition wf_tasks :: "'f GRPCPool \<Rightarrow> bool" where
  "wf_tasks g \<longleftrightarrow> length (taskChan g) \<le> ChanLen (conf g) \<and> length (taskList g) < TaskCountWeight (conf g)
     \<and> list_all (\<lambda>b. b \<noteq> [] \<and> length b \<le> TaskCountWeight (conf g)) (posted g)"

lemma in_flight_push: "PushTask2Manager g t = (e, g') \<Longrightarrow> in_flight g' = in_flight g @ (if e = None then [t] else [])"
  by (auto simp: PushTask2Manager_def in_flight_def chan_try_send_def split: if_splits)

lemma wf_push: "PushTask2Manager g t = (e, g') \<Longrightarrow> wf_tasks g \<Longrightarrow> wf_tasks g'"
  by (auto simp: PushTask2Manager_def wf_tasks_def chan_try_send_def split: if_splits)

lemma in_flight_round: "in_flight (checkTask_round tick g) = in_flight g"
  using task_batches.step_conserves[of "TaskCountWeight (conf g)" "taskList g"]
  by (auto simp: checkTask_round_def in_flight_def Let_def split: prod.splits list.splits)

lemma wf_step:
  assumes "checkTask_step w ts ev = (ts', out)" "length ts < w"
  shows "length ts' < w \<and> list_all (\<lambda>b. b \<noteq> [] \<and> length b \<le> w) (opt_list out)"
  using task_batches.step_pending[OF assms(2,1)] task_batches.step_batch[of ts w ev ts'] assms
  by (cases out) auto

lemma wf_round: "wf_tasks g \<Longrightarrow> wf_tasks (checkTask_round tick g)"
  by (auto simp: checkTask_round_def wf_tasks_def Let_def split: prod.splits list.splits dest: wf_step)

lemma run_tasks_inv:
  "run_tasks g evs = (acc, g') \<Longrightarrow> in_flight g' = in_flight g @ acc \<and> (wf_tasks g \<longrightarrow> wf_tasks g')
     \<and> conf g' = conf g"
proof (induction evs arbitrary: g acc g')
  case (Cons ev evs)
  show ?case
  proof (cases ev)
    case (Push t)
    obtain e g1 where p: "PushTask2Manager g t = (e, g1)" by (cases "PushTask2Manager g t")
    obtain acc1 g2 where r: "run_tasks g1 evs = (acc1, g2)" by (cases "run_tasks g1 evs")
    have "conf g1 = conf g" using PushTask2Manager_frame(2)[of g t] p by simp
    then show ?thesis using Cons.prems Cons.IH[OF r] in_flight_push[OF p] wf_push[OF p] p r Push
      by (cases e) auto
  next
    case Take
    then have "run_tasks (checkTask_round False g) evs = (acc, g')" using Cons.prems by simp
    then show ?thesis using Cons.IH in_flight_round wf_round checkTask_round_frame(2) by metis
  next
    case Tick
    then have "run_tasks (checkTask_round True g) evs = (acc, g')" using Cons.prems by simp
    then show ?thesis using Cons.IH in_flight_round wf_round checkTask_round_frame(2) by metis
  qed
qed simp

text \<open>
  What \<open>PostTask\<close> makes of one batch: an error of the request, or the status and the code in the body of the answer, None where it
  cannot be decoded.  The value is the tag of the line that is logged; None means that the manager took the batch.  Nothing is
  returned to \<open>checkTask\<close>, which clears its list in any case.
\<close>

datatype post_reply = PostError string | PostReply bool "int option"

definition PostTask :: "post_reply \<Rightarrow> string option" where
  "PostTask reply =
     (case reply of
        PostError err \<Rightarrow> Some ''PostTask''
      | PostReply ok code \<Rightarrow>
          if \<not> ok then Some ''PostTask''
          else case code of
                 None \<Rightarrow> Some ''PostTask''
               | Some c \<Rightarrow> if c \<noteq> 0 then Some ''GetConfigFromRemote'' else None)"

text \<open>The tasks of the batches the manager took, and of the others; \<open>reply i\<close> belongs to the i-th call.\<close>

definition manager_took :: "(nat \<Rightarrow> post_reply) \<Rightarrow> task list list \<Rightarrow> task list" where
  "manager_took reply bs = concat (map snd (filter (\<lambda>ib. PostTask (reply (fst ib)) = None) (enumerate 0 bs)))"

definition manager_missed :: "(nat \<Rightarrow> post_reply) \<Rightarrow> task list list \<Rightarrow> task list" where
  "manager_missed reply bs = concat (map snd (filter (\<lambda>ib. PostTask (reply (fst ib)) \<noteq> None) (enumerate 0 bs)))"

lemma took_missed: "mset (manager_took reply bs) + mset (manager_missed reply bs) = mset (concat bs)"
proof -
  have "mset (concat (map snd (filter P xs))) + mset (concat (map snd (filter (\<lambda>x. \<not> P x) xs))) = mset (concat (map snd xs))"
    for P and xs :: "(nat \<times> task list) list"
    by (induction xs) auto
  from this[of "\<lambda>ib. PostTask (reply (fst ib)) = None" "enumerate 0 bs"]
  show ?thesis by (simp add: manager_took_def manager_missed_def)
qed

lemma took_all: "(\<And>i. i < length bs \<Longrightarrow> PostTask (reply i) = None) \<Longrightarrow> manager_took reply bs = concat bs"
  unfolding manager_took_def by (subst filter_True) (auto simp: in_set_enumerate_eq)

text \<open>
  C19. The pool hands every accepted task over to \<open>PostTask\<close> once and in order: after any interleaving of pushes
  with the rounds of \<open>checkTask\<close>, the tasks of the batches handed over, followed by those gathered and those
  queued, are the accepted ones in the order of their acceptance.  No batch is empty or larger than
  \<open>TaskCountWeight\<close>, and the channel never holds more than \<open>ChanLen\<close> tasks.  Beyond that a task reaches the manager only if the request of its
  batch succeeds: each task handed over is in a batch the manager took or in one that failed and is not sent again, and when no request fails
  nothing is lost.
\<close>

theorem pool_tasks_conserved:
  assumes "run_tasks (NewGRPCPool heap config) evs = (accepted, g)" "0 < TaskCountWeight config"
  shows "concat (posted g) @ taskList g @ taskChan g = accepted
    \<and> (\<forall>b \<in> set (posted g). 0 < length b \<and> length b \<le> TaskCountWeight config)
    \<and> length (taskChan g) \<le> ChanLen config
    \<and> mset accepted = mset (manager_took reply (posted g)) + mset (manager_missed reply (posted g)) + mset (taskList g) + mset (taskChan g)
    \<and> ((\<forall>i < length (posted g). PostTask (reply i) = None) \<longrightarrow> manager_took reply (posted g) @ taskList g @ taskChan g = accepted)"
proof -
  have "wf_tasks (NewGRPCPool heap config)" using assms(2) by (simp add: wf_tasks_def NewGRPCPool_def)
  then have *: "concat (posted g) @ taskList g @ taskChan g = accepted"
    "(\<forall>b \<in> set (posted g). 0 < length b \<and> length b \<le> TaskCountWeight config) \<and> length (taskChan g) \<le> ChanLen config"
    using run_tasks_inv[OF assms(1)] by (auto simp: wf_tasks_def in_flight_def NewGRPCPool_def list_all_iff)
  have "mset accepted = mset (manager_took reply (posted g)) + mset (manager_missed reply (posted g)) + mset (taskList g) + mset (taskChan g)"
    unfolding took_missed *(1)[symmetric] by simp
  moreover have "(\<forall>i < length (posted g). PostTask (reply i) = None) \<longrightarrow> manager_took reply (posted g) @ taskList g @ taskChan g = accepted"
    using *(1) took_all[of "posted g" reply] by simp
  ultimately show ?thesis using * by blast
qed

definition post_events :: "task_event list" where
  "post_events = [Push [(''token'', ''a'')], Take, Push [(''token'', ''b'')], Push [(''token'', ''c'')],
     Push [(''token'', ''d'')], Take, Tick]"

lemma pool_tasks_conserved_witness:
  "case run_tasks (NewGRPCPool (\<lambda>_. undefined) \<lparr>PoolLength = 1, ChanLen = 2, TaskCountWeight = 2\<rparr>) post_events of
     (accepted, g) \<Rightarrow> map (\<lambda>t. map_of t ''token'') accepted = [Some ''a'', Some ''b'', Some ''c'']
       \<and> length (posted g) = 1 \<and> manager_took (\<lambda>_. PostReply True (Some 0)) (posted g) @ taskList g @ taskChan g = accepted"
  using pool_tasks_conserved[of "\<lambda>_. undefined" "\<lparr>PoolLength = 1, ChanLen = 2, TaskCountWeight = 2\<rparr>" post_events _ _
      "\<lambda>_. PostReply True (Some 0)"]
  by (simp add: NewGRPCPool_def PushTask2Manager_def chan_try_send_def checkTask_round_def checkTask_step_def PostTask_def post_events_def)

end
