(* ===== verification/RawData.thy ===== *)
theory RawData
  imports GRPCPool BridgeCodec
begin

text \<open>
  What the agent center does with the packets of an agent (\<open>grpc_handler/rawdata_worker.go\<close>): every
  record of a packet becomes a message for Kafka; heartbeats are kept with the connection, results of
  tasks are queued for the manager.  \<open>strconv.ParseFloat\<close> is a parameter, which returns the number if
  the string is one and is finite; the clock and the recycled message objects are parameters too.
\<close>

section \<open>Messages\<close>

record pb_Record =
  DataType :: int
  Timestamp :: int
  Body :: bytes

record RawData =
  req_Data :: "pb_Record list"
  req_AgentID :: string
  req_IntranetIPv4 :: "string list"
  req_ExtranetIPv4 :: "string list"
  req_IntranetIPv6 :: "string list"
  req_ExtranetIPv6 :: "string list"
  req_Hostname :: string
  req_Version :: string
  req_Product :: string
  req_TenantAuthCode :: string

record MQData =
  mq_DataType :: int
  mq_AgentTime :: int
  mq_Body :: bytes
  mq_AgentID :: string
  mq_IntranetIPv4 :: string
  mq_ExtranetIPv4 :: string
  mq_IntranetIPv6 :: string
  mq_ExtranetIPv6 :: string
  mq_Hostname :: string
  mq_Version :: string
  mq_Product :: string
  mq_TenantAuthCode :: string
  mq_TenantID :: int
  mq_HostID :: int
  mq_SvrTime :: int
  mq_PSMName :: string
  mq_PSMPath :: string
  mq_Tag :: string

text \<open>
  The state the handlers share: the pool, the messages handed to Kafka with their keys, and the
  gauges of the metrics by gauge name, agent and component.
\<close>

record 'f Server =
  pool :: "'f GRPCPool"
  kafka :: "(string \<times> MQData) list"
  gauges :: "(string \<times> string \<times> string, 'f) gomap"

record 'f env =
  ParseFloat :: "string \<Rightarrow> 'f option"
  Now :: "nat \<Rightarrow> int"

section \<open>Records\<close>

text \<open>
  \<open>Item.Unmarshal\<close> of the agent center is the generated code of a message with one map of strings,
  the same as that of \<open>Payload\<close> but for the name of the message in error texts, which are only logged.
\<close>

definition Item_Unmarshal :: "bytes \<Rightarrow> (bytes, bytes) gomap option" where
  "Item_Unmarshal d =
     (case Payload_Unmarshal \<lparr>pl_Fields = []\<rparr> d of Inl _ \<Rightarrow> None | Inr m \<Rightarrow> Some (pl_Fields m))"

definition go_string :: "bytes \<Rightarrow> string" where
  "go_string bs = map (\<lambda>b. char_of (unat b)) bs"

text \<open>The map is \<open>nil\<close> in Go exactly when it is empty: it is made by the first entry decoded.\<close>

definition parseRecord :: "bytes \<Rightarrow> (string, string) gomap option" where
  "parseRecord d = map_option (map (\<lambda>(k, v). (go_string k, go_string v))) (Item_Unmarshal d)"

definition detail_value :: "'f env \<Rightarrow> string list \<Rightarrow> string \<times> string \<Rightarrow> string \<times> 'f dval" where
  "detail_value env unchanged = (\<lambda>(k, v).
     (k, if k \<in> set unchanged then DStr v
         else case ParseFloat env v of None \<Rightarrow> DStr v | Some fv \<Rightarrow> DFloat fv))"

definition parseAgentHeartBeat ::
  "'f env \<Rightarrow> int \<Rightarrow> bytes \<Rightarrow> RawData \<Rightarrow> nat \<Rightarrow> 'f GRPCPool \<Rightarrow> 'f detail option \<times> 'f GRPCPool" where
  "parseAgentHeartBeat env now body req c g =
     (case parseRecord body of
        None \<Rightarrow> (None, g)
      | Some hb \<Rightarrow>
          let conn = conns g c;
              detail = map (detail_value env [''platform_version'', ''version'', ''host_serial'', ''host_id'',
                             ''host_model'', ''host_vendor'', ''cpu_name'']) hb;
              detail = foldl (\<lambda>d (k, v). mput d k v) detail
                [(''agent_id'', DStr (req_AgentID req)),
                 (''tenant_id'', DInt (TenantID conn)),
                 (''host_id'', DInt (HostID conn)),
                 (''agent_addr'', DStr (SourceAddr conn)),
                 (''create_at'', DInt (CreateAt conn)),
                 (''intranet_ipv4'', DStrs (req_IntranetIPv4 req)),
                 (''extranet_ipv4'', DStrs (req_ExtranetIPv4 req)),
                 (''intranet_ipv6'', DStrs (req_IntranetIPv6 req)),
                 (''extranet_ipv6'', DStrs (req_ExtranetIPv6 req)),
                 (''version'', DStr (req_Version req)),
                 (''hostname'', DStr (req_Hostname req)),
                 (''product'', DStr (req_Product req)),
                 (''last_heartbeat_time'', DInt now)];
              (old, conn') = GetAgentDetail conn;
              g' = g\<lparr>conns := (conns g)(c := SetAgentDetail detail conn')\<rparr>
          in if length old = 0 then (Some detail, snd (PostLatestConfig g' (req_AgentID req)))
             else (Some detail, g'))"

definition parsePluginHeartBeat ::
  "'f env \<Rightarrow> int \<Rightarrow> bytes \<Rightarrow> nat \<Rightarrow> 'f GRPCPool \<Rightarrow> 'f detail option \<times> 'f GRPCPool" where
  "parsePluginHeartBeat env now body c g =
     (case parseRecord body of
        None \<Rightarrow> (None, g)
      | Some data \<Rightarrow>
          (case map_of data ''name'' of
             None \<Rightarrow> (None, g)
           | Some pluginName \<Rightarrow>
               let detail = mput (map (detail_value env [''pversion'']) data) ''last_heartbeat_time'' (DInt now)
               in (Some detail, g\<lparr>conns := (conns g)(c := SetPluginDetail pluginName detail (conns g c))\<rparr>)))"

definition parseEthInfo :: "bytes \<Rightarrow> nat \<Rightarrow> 'f GRPCPool \<Rightarrow> 'f detail option \<times> 'f GRPCPool" where
  "parseEthInfo body c g =
     (case parseRecord body of
        None \<Rightarrow> (None, g)
      | Some data \<Rightarrow>
          let ethName = (case map_of data ''eth_name'' of None \<Rightarrow> [] | Some n \<Rightarrow> n);
              detail = map (\<lambda>(k, v). (k, DStr v)) data
          in (Some detail, g\<lparr>conns := (conns g)(c := SetEthInfoDetail ethName detail (conns g c))\<rparr>))"

definition agentGauge :: "string list" where
  "agentGauge = [''cpu'', ''rss'', ''du'', ''read_speed'', ''write_speed'', ''tx_speed'', ''rx_speed'']"

definition metricsAgentHeartBeat ::
  "string \<Rightarrow> string \<Rightarrow> 'f detail option \<Rightarrow> 'f Server \<Rightarrow> 'f Server" where
  "metricsAgentHeartBeat agentID name detail s =
     (case detail of
        None \<Rightarrow> s
      | Some d \<Rightarrow>
          s\<lparr>gauges := foldl (\<lambda>gs k. case map_of d k of Some (DFloat fv) \<Rightarrow> mput gs (k, agentID, name) fv | _ \<Rightarrow> gs)
                        (gauges s) agentGauge\<rparr>)"

section \<open>The handler\<close>

text \<open>
  The message for one record.  It is written over a recycled object, so what the handler does not set
  keeps an earlier value.  (The generated message declares \<open>TenantID\<close> and \<open>HostID\<close> as \<open>int32\<close>, the
  connection as \<open>int64\<close>; the numbers are integers here.)
\<close>

definition fill_MQData :: "MQData \<Rightarrow> int \<Rightarrow> AgentExtraInfo option \<Rightarrow> 'f Connection \<Rightarrow> RawData \<Rightarrow> pb_Record \<Rightarrow> MQData" where
  "fill_MQData mqMsg svrTime extraInfo conn req r = mqMsg\<lparr>
     mq_DataType := DataType r,
     mq_AgentTime := Timestamp r,
     mq_Body := Body r,
     mq_AgentID := req_AgentID req,
     mq_IntranetIPv4 := Join (req_IntranetIPv4 req) '','',
     mq_ExtranetIPv4 := Join (req_ExtranetIPv4 req) '','',
     mq_IntranetIPv6 := Join (req_IntranetIPv6 req) '','',
     mq_ExtranetIPv6 := Join (req_ExtranetIPv6 req) '','',
     mq_Hostname := req_Hostname req,
     mq_Version := req_Version req,
     mq_Product := req_Product req,
     mq_SvrTime := svrTime,
     mq_PSMName := [],
     mq_PSMPath := [],
     mq_TenantID := TenantID conn,
     mq_HostID := HostID conn,
     mq_Tag := (case extraInfo of Some i \<Rightarrow> Tags i | None \<Rightarrow> [])\<rparr>"

definition task_types :: "int list" where
  "task_types = [2001, 2003, 6000, 5100, 5101, 8010]"

text \<open>
  The message is handed to the Kafka client.  One that cannot be serialised would be logged and dropped; the marshalling generated for
  \<open>MQData\<close> reports no error.
\<close>

definition SendPBWithKey :: "string \<Rightarrow> MQData \<Rightarrow> 'f Server \<Rightarrow> 'f Server" where
  "SendPBWithKey key m s = s\<lparr>kafka := kafka s @ [(key, m)]\<rparr>"

text \<open>
  The body of the loop for record \<open>k\<close>; \<^const>\<open>None\<close> is the panic of an assignment to a \<open>nil\<close> map, which
  the task case runs into when the record has no fields.
\<close>

definition handle_record ::
  "'f env \<Rightarrow> MQData \<Rightarrow> int \<Rightarrow> AgentExtraInfo option \<Rightarrow> RawData \<Rightarrow> nat \<Rightarrow> nat \<Rightarrow> pb_Record \<Rightarrow> 'f Server \<Rightarrow> 'f Server option" where
  "handle_record env recycled svrTime extraInfo req c k r s =
     (let mqMsg = fill_MQData recycled svrTime extraInfo (conns (pool s) c) req r;
          send = SendPBWithKey (req_AgentID req) mqMsg;
          now = Now env (Suc k);
          dt = DataType r
      in if dt = 1000 then
           let (detail, g) = parseAgentHeartBeat env now (Body r) req c (pool s)
           in Some (send (metricsAgentHeartBeat (req_AgentID req) ''agent'' detail (s\<lparr>pool := g\<rparr>)))
         else if dt = 1001 then
           let (detail, g) = parsePluginHeartBeat env now (Body r) c (pool s);
               s' = s\<lparr>pool := g\<rparr>
           in Some (send (case detail of
                            None \<Rightarrow> s'
                          | Some d \<Rightarrow> (case map_of d ''name'' of
                                        Some (DStr name) \<Rightarrow> metricsAgentHeartBeat (req_AgentID req) name detail s'
                                      | _ \<Rightarrow> s')))
         else if dt = 1002 then
           Some (send (s\<lparr>pool := snd (parseEthInfo (Body r) c (pool s))\<rparr>))
         else if dt \<in> set task_types then
           (case parseRecord (Body r) of
              None \<Rightarrow> Some s
            | Some item \<Rightarrow>
                if item = [] then None
                else Some (send (s\<lparr>pool := snd (PushTask2Manager (pool s) (mput item ''data_type'' (Itoa dt)))\<rparr>)))
         else if dt = 1010 \<or> dt = 1011 then
           (case parseRecord (Body r) of None \<Rightarrow> Some s | Some _ \<Rightarrow> Some (send s))
         else Some (send s))"

fun handle_records ::
  "'f env \<Rightarrow> (nat \<Rightarrow> MQData) \<Rightarrow> int \<Rightarrow> AgentExtraInfo option \<Rightarrow> RawData \<Rightarrow> nat \<Rightarrow> nat \<Rightarrow> pb_Record list \<Rightarrow> 'f Server \<Rightarrow> 'f Server option" where
  "handle_records env recycled svrTime extraInfo req c k [] s = Some s"
| "handle_records env recycled svrTime extraInfo req c k (r # rs) s =
     (case handle_record env (recycled k) svrTime extraInfo req c k r s of
        None \<Rightarrow> None
      | Some s' \<Rightarrow> handle_records env recycled svrTime extraInfo req c (Suc k) rs s')"

definition handleRawData ::
  "'f env \<Rightarrow> (nat \<Rightarrow> MQData) \<Rightarrow> RawData \<Rightarrow> nat \<Rightarrow> 'f Server \<Rightarrow> 'f Server option" where
  "handleRawData env recycled req c s =
     handle_records env recycled (Now env 0) (GetExtraInfoByID (pool s) (req_AgentID req)) req c 0 (req_Data req) s"

section \<open>What the handler leaves alone\<close>

text \<open>The identity of the connections, the tokens and the pool's entries.\<close>

definition pool_frame :: "'f GRPCPool \<Rightarrow> 'f GRPCPool \<Rightarrow> bool" where
  "pool_frame g g' \<longleftrightarrow> tokenChan g' = tokenChan g \<and> conf g' = conf g \<and> connPool g' = connPool g
     \<and> (\<forall>c. AgentID (conns g' c) = AgentID (conns g c) \<and> TenantID (conns g' c) = TenantID (conns g c)
           \<and> HostID (conns g' c) = HostID (conns g c))"

lemma pool_frame_refl [simp]: "pool_frame g g"
  by (simp add: pool_frame_def)

lemma pool_frame_trans: "pool_frame g g' \<Longrightarrow> pool_frame g' g'' \<Longrightarrow> pool_frame g g''"
  by (simp add: pool_frame_def)

lemma GetAgentDetail_frame:
  "GetAgentDetail c = (d, c') \<Longrightarrow> AgentID c' = AgentID c \<and> TenantID c' = TenantID c \<and> HostID c' = HostID c"
  by (auto simp: GetAgentDetail_def Let_def split: option.splits)

lemma GetAgentDetail_empty: "GetAgentDetail c = ([], c') \<Longrightarrow> agentDetail c = None"
  by (auto simp: GetAgentDetail_def Let_def split: option.splits)

lemma pool_frame_push [simp]: "pool_frame g (snd (PushTask2Manager g t))"
  by (simp add: pool_frame_def)

lemma pool_frame_agent: "pool_frame g (snd (parseAgentHeartBeat env now body req c g))"
  by (auto simp: parseAgentHeartBeat_def pool_frame_def SetAgentDetail_def Let_def
      split: option.splits prod.splits dest: GetAgentDetail_frame)

lemma pool_frame_plugin: "pool_frame g (snd (parsePluginHeartBeat env now body c g))"
  by (simp add: parsePluginHeartBeat_def pool_frame_def SetPluginDetail_def Let_def split: option.splits)

lemma pool_frame_eth: "pool_frame g (snd (parseEthInfo body c g))"
  by (simp add: parseEthInfo_def pool_frame_def SetEthInfoDetail_def Let_def split: option.splits)

lemma metrics_frame [simp]:
  "pool (metricsAgentHeartBeat a n d s) = pool s" "kafka (metricsAgentHeartBeat a n d s) = kafka s"
  by (simp_all add: metricsAgentHeartBeat_def split: option.splits)

lemma SendPBWithKey_simps [simp]:
  "pool (SendPBWithKey key m s) = pool s" "kafka (SendPBWithKey key m s) = kafka s @ [(key, m)]"
  by (simp_all add: SendPBWithKey_def)

text \<open>Whether a record is passed on to Kafka, and whether it brings the process down.\<close>

definition forwarded :: "pb_Record \<Rightarrow> bool" where
  "forwarded r \<longleftrightarrow> \<not> (DataType r \<in> set task_types \<union> {1010, 1011} \<and> parseRecord (Body r) = None)"

definition crashing :: "pb_Record \<Rightarrow> bool" where
  "crashing r \<longleftrightarrow> DataType r \<in> set task_types \<and> parseRecord (Body r) = Some []"

lemma handle_record_pool:
  "handle_record env m t x req c k r s = Some s' \<Longrightarrow> pool_frame (pool s) (pool s')"
  using pool_frame_agent[of "pool s" env "Now env (Suc k)" "Body r" req c]
    pool_frame_plugin[of "pool s" env "Now env (Suc k)" "Body r" c] pool_frame_eth[of "pool s" "Body r" c]
  by (auto simp: handle_record_def Let_def split: if_splits prod.splits option.splits dval.splits)

lemma handle_record_kafka:
  "handle_record env m t x req c k r s = Some s' \<Longrightarrow>
     kafka s' = kafka s @ (if forwarded r then [(req_AgentID req, fill_MQData m t x (conns (pool s) c) req r)] else [])"
  by (auto simp: handle_record_def forwarded_def task_types_def Let_def
      split: if_splits prod.splits option.splits dval.splits)

lemma handle_record_panic: "handle_record env m t x req c k r s = None \<longleftrightarrow> crashing r"
  by (auto simp: handle_record_def crashing_def task_types_def Let_def split: prod.splits option.splits)

lemma handle_records_pool:
  "handle_records env m t x req c k rs s = Some s' \<Longrightarrow> pool_frame (pool s) (pool s')"
  by (induction rs arbitrary: k s) (auto split: option.splits dest: handle_record_pool intro: pool_frame_trans)

lemma fill_MQData_frame:
  "pool_frame g g' \<Longrightarrow> fill_MQData m t x (conns g' c) req r = fill_MQData m t x (conns g c) req r"
  by (simp add: fill_MQData_def pool_frame_def)

lemma handle_records_kafka:
  "handle_records env m t x req c k rs s = Some s' \<Longrightarrow>
     kafka s' = kafka s @ map (\<lambda>(i, r). (req_AgentID req, fill_MQData (m i) t x (conns (pool s) c) req r))
                           (filter (\<lambda>(i, r). forwarded r) (enumerate k rs))"
proof (induction rs arbitrary: k s)
  case (Cons r rs)
  obtain s1 where s1: "handle_record env (m k) t x req c k r s = Some s1"
    and rest: "handle_records env m t x req c (Suc k) rs s1 = Some s'"
    using Cons.prems by (auto split: option.splits)
  have "fill_MQData (m i) t x (conns (pool s1) c) req r' = fill_MQData (m i) t x (conns (pool s) c) req r'" for i r'
    by (rule fill_MQData_frame[OF handle_record_pool[OF s1]])
  then show ?case using Cons.IH[OF rest] handle_record_kafka[OF s1] by simp
qed simp

lemma handle_records_panic: "handle_records env m t x req c k rs s = None \<longleftrightarrow> (\<exists>r \<in> set rs. crashing r)"
proof (induction rs arbitrary: k s)
  case (Cons r rs)
  then show ?case using handle_record_panic[of env "m k" t x req c k r s] by (auto split: option.splits)
qed simp

lemma handleRawData_pool: "handleRawData env m req c s = Some s' \<Longrightarrow> pool_frame (pool s) (pool s')"
  unfolding handleRawData_def by (rule handle_records_pool)

text \<open>
  C15. Handling a packet appends to Kafka exactly one message per forwarded record, in the order of
  the records and keyed by the agent.  A message carries the record and the packet's metadata, and
  its tenant and host are those of the authenticated connection, whatever the packet and the
  recycled message object say; only the tenant authentication code is left over from the object.
\<close>

theorem handleRawData_forwards:
  assumes "handleRawData env recycled req c s = Some s'"
  shows "map fst (drop (length (kafka s)) (kafka s')) = replicate (length (filter forwarded (req_Data req))) (req_AgentID req)
    \<and> take (length (kafka s)) (kafka s') = kafka s
    \<and> map (\<lambda>(key, m). (mq_DataType m, mq_AgentTime m, mq_Body m)) (drop (length (kafka s)) (kafka s'))
        = map (\<lambda>r. (DataType r, Timestamp r, Body r)) (filter forwarded (req_Data req))
    \<and> (\<forall>(key, m) \<in> set (drop (length (kafka s)) (kafka s')).
         mq_TenantID m = TenantID (conns (pool s) c) \<and> mq_HostID m = HostID (conns (pool s) c)
         \<and> mq_AgentID m = req_AgentID req \<and> (\<exists>k. mq_TenantAuthCode m = mq_TenantAuthCode (recycled k)))"
proof -
  note k = handle_records_kafka[OF assms[unfolded handleRawData_def]]
  have f: "map snd (filter (\<lambda>(i, r). forwarded r) (enumerate k rs)) = filter forwarded rs" for k rs
    by (induction rs arbitrary: k) auto
  have g: "map (h \<circ> snd) (filter (\<lambda>(i, r). forwarded r) (enumerate k rs)) = map h (filter forwarded rs)" for k rs and h :: "pb_Record \<Rightarrow> 'z"
    by (simp only: f[symmetric, of rs k] map_map)
  have l: "length (filter (\<lambda>(i, r). forwarded r) (enumerate k rs)) = length (filter forwarded rs)" for k rs
    by (simp only: f[symmetric, of rs k] length_map)
  show ?thesis
    using g[of "\<lambda>r. (DataType r, Timestamp r, Body r)" 0 "req_Data req"]
    by (auto simp: k l fill_MQData_def map_replicate_const comp_def case_prod_beta)
qed


lemma parseRecord_empty: "parseRecord [] = Some []"
  by (simp add: parseRecord_def Item_Unmarshal_def Payload_Unmarshal_def Payload_loop.simps)

definition demo_conn :: "nat Connection" where
  "demo_conn = \<lparr>AgentID = ''agent'', TenantAuthCode = ''code'', TenantID = 7, HostID = 9, SourceAddr = ''10.0.0.1:80'',
     CreateAt = 0, agentDetail = None, pluginDetail = None, ethInfoDetail = None\<rparr>"

definition demo_server :: "nat Server" where
  "demo_server = \<lparr>pool = NewGRPCPool (\<lambda>_. demo_conn) NewConfig, kafka = [], gauges = []\<rparr>"

definition demo_env :: "nat env" where
  "demo_env = \<lparr>ParseFloat = (\<lambda>_. None), Now = (\<lambda>_. 0)\<rparr>"

definition demo_req :: "pb_Record list \<Rightarrow> RawData" where
  "demo_req rs = \<lparr>req_Data = rs, req_AgentID = ''agent'', req_IntranetIPv4 = [], req_ExtranetIPv4 = [],
     req_IntranetIPv6 = [], req_ExtranetIPv6 = [], req_Hostname = ''host'', req_Version = ''1'',
     req_Product = ''p'', req_TenantAuthCode = ''code''\<rparr>"

definition stale_msg :: MQData where
  "stale_msg = \<lparr>mq_DataType = 1, mq_AgentTime = 1, mq_Body = [1], mq_AgentID = ''other'', mq_IntranetIPv4 = [],
     mq_ExtranetIPv4 = [], mq_IntranetIPv6 = [], mq_ExtranetIPv6 = [], mq_Hostname = ''other'', mq_Version = [],
     mq_Product = [], mq_TenantAuthCode = [], mq_TenantID = 1, mq_HostID = 1, mq_SvrTime = 1, mq_PSMName = [],
     mq_PSMPath = [], mq_Tag = ''other''\<rparr>"

lemma handleRawData_forwards_witness:
  "\<exists>s'. handleRawData demo_env (\<lambda>_. stale_msg) (demo_req [\<lparr>DataType = 59, Timestamp = 3, Body = [1, 2]\<rparr>]) 0 demo_server
      = Some s' \<and> map (\<lambda>(key, m). (key, mq_TenantID m, mq_HostID m, mq_Tag m)) (kafka s') = [(''agent'', 7, 9, [])]
    \<and> take 0 (kafka s') = []"
proof -
  let ?r = "\<lparr>DataType = 59, Timestamp = 3, Body = [1, 2]\<rparr>"
  obtain s' where s': "handleRawData demo_env (\<lambda>_. stale_msg) (demo_req [?r]) 0 demo_server = Some s'"
    and k: "kafka s' = [(''agent'', fill_MQData stale_msg 0 None demo_conn (demo_req [?r]) ?r)]"
    by (simp add: handleRawData_def handle_record_def demo_req_def task_types_def demo_server_def demo_env_def
        NewGRPCPool_def GetExtraInfoByID_def SendPBWithKey_def)
  show ?thesis using handleRawData_forwards[OF s'] s' k
    by (simp add: demo_server_def fill_MQData_def demo_conn_def demo_req_def)
qed

section \<open>The configuration is posted once per connection\<close>

definition heartbeat :: "pb_Record \<Rightarrow> bool" where
  "heartbeat r \<longleftrightarrow> DataType r = 1000 \<and> parseRecord (Body r) \<noteq> None"

lemma handle_record_conf:
  assumes "handle_record env m t x req c k r s = Some s'"
  shows "confChan (pool s') = (if heartbeat r \<and> agentDetail (conns (pool s) c) = None
           then (case chan_try_send (ChanLen (conf (pool s))) (confChan (pool s)) (req_AgentID req) of
                   Some ch \<Rightarrow> ch | None \<Rightarrow> confChan (pool s))
           else confChan (pool s))
    \<and> (agentDetail (conns (pool s') c) = None \<longleftrightarrow> \<not> heartbeat r \<and> agentDetail (conns (pool s) c) = None)"
proof (cases "DataType r = 1000")
  case True
  show ?thesis
  proof (cases "agentDetail (conns (pool s) c)")
    case None
    then have "GetAgentDetail (conns (pool s) c) = ([], conns (pool s) c)" by (simp add: GetAgentDetail_def)
    then show ?thesis using assms True None
      by (auto simp: handle_record_def heartbeat_def parseAgentHeartBeat_def Let_def SetAgentDetail_def
          PostLatestConfig_def split: option.splits)
  next
    case (Some d)
    then show ?thesis using assms True
      by (auto simp: handle_record_def heartbeat_def parseAgentHeartBeat_def Let_def SetAgentDetail_def
          GetAgentDetail_def split: option.splits)
  qed
next
  case False
  then show ?thesis using assms
    by (auto simp: handle_record_def heartbeat_def parsePluginHeartBeat_def parseEthInfo_def Let_def
        SetPluginDetail_def SetEthInfoDetail_def split: if_splits option.splits dval.splits)
qed

lemma handle_records_conf_known:
  "handle_records env m t x req c k rs s = Some s' \<Longrightarrow> agentDetail (conns (pool s) c) \<noteq> None \<Longrightarrow>
     confChan (pool s') = confChan (pool s) \<and> agentDetail (conns (pool s') c) \<noteq> None"
proof (induction rs arbitrary: k s)
  case (Cons r rs)
  obtain s1 where s1: "handle_record env (m k) t x req c k r s = Some s1"
    and rest: "handle_records env m t x req c (Suc k) rs s1 = Some s'"
    using Cons.prems by (auto split: option.splits)
  have "agentDetail (conns (pool s1) c) \<noteq> None" using handle_record_conf[OF s1] Cons.prems(2) by simp
  then show ?case using Cons.IH[OF rest] handle_record_conf[OF s1] Cons.prems(2) by simp
qed simp

lemma handle_records_conf_new:
  "handle_records env m t x req c k rs s = Some s' \<Longrightarrow> agentDetail (conns (pool s) c) = None \<Longrightarrow>
     length (confChan (pool s)) < ChanLen (conf (pool s)) \<Longrightarrow>
     confChan (pool s') = confChan (pool s) @ (if \<exists>r \<in> set rs. heartbeat r then [req_AgentID req] else [])"
proof (induction rs arbitrary: k s)
  case (Cons r rs)
  obtain s1 where s1: "handle_record env (m k) t x req c k r s = Some s1"
    and rest: "handle_records env m t x req c (Suc k) rs s1 = Some s'"
    using Cons.prems(1) by (auto split: option.splits)
  have conf: "conf (pool s1) = conf (pool s)" using handle_record_pool[OF s1] by (simp add: pool_frame_def)
  show ?case
  proof (cases "heartbeat r")
    case True
    then show ?thesis using handle_records_conf_known[OF rest] handle_record_conf[OF s1] Cons.prems(2,3)
      by (simp add: chan_try_send_def)
  next
    case False
    then show ?thesis using Cons.IH[OF rest] handle_record_conf[OF s1] Cons.prems(2,3) conf by simp
  qed
qed simp

text \<open>
  The first heartbeat of a connection that decodes asks for the latest configuration of the
  agent, once: a packet handled on a connection without details queues the agent exactly once when it
  has such a heartbeat, however many, and a packet on a connection with details never does.
\<close>

theorem config_posted_once:
  assumes "handleRawData env recycled req c s = Some s'"
    and "length (confChan (pool s)) < ChanLen (conf (pool s))"
  shows "confChan (pool s') = confChan (pool s) @
    (if agentDetail (conns (pool s) c) = None \<and> (\<exists>r \<in> set (req_Data req). DataType r = 1000 \<and> parseRecord (Body r) \<noteq> None)
     then [req_AgentID req] else [])"
  using handle_records_conf_new[OF assms(1)[unfolded handleRawData_def] _ assms(2)]
    handle_records_conf_known[OF assms(1)[unfolded handleRawData_def]]
  by (cases "agentDetail (conns (pool s) c)") (simp_all add: heartbeat_def)

lemma config_posted_once_witness:
  "\<exists>s'. handleRawData demo_env (\<lambda>_. stale_msg)
      (demo_req [\<lparr>DataType = 1000, Timestamp = 3, Body = []\<rparr>, \<lparr>DataType = 1000, Timestamp = 4, Body = []\<rparr>]) 0 demo_server
      = Some s' \<and> confChan (pool s') = [''agent'']"
proof -
  let ?q = "demo_req [\<lparr>DataType = 1000, Timestamp = 3, Body = []\<rparr>, \<lparr>DataType = 1000, Timestamp = 4, Body = []\<rparr>]"
  have "handleRawData demo_env (\<lambda>_. stale_msg) ?q 0 demo_server \<noteq> None"
    unfolding handleRawData_def handle_records_panic by (simp add: crashing_def demo_req_def task_types_def)
  then obtain s' where s': "handleRawData demo_env (\<lambda>_. stale_msg) ?q 0 demo_server = Some s'" by blast
  then show ?thesis using config_posted_once[OF s']
    by (simp add: demo_server_def NewGRPCPool_def NewConfig_def demo_conn_def demo_req_def parseRecord_empty)
qed

end
