(* ===== verification/TransferHandler.thy ===== *)
theory TransferHandler
  imports RawData
begin

text \<open>
  The streams of the agents (\<open>grpc_handler/transfer_handler.go\<close>): each runs \<open>Transfer\<close>, with a goroutine
  that receives packets and one that sends commands, and they share the pool.  The step relation
  \<open>xfer_step\<close> interleaves the streams at the points where they touch the pool; what the network and
  the manager answer is chosen freely.
\<close>

section \<open>Authentication\<close>

record connAuth_response =
  Status :: int
  Msg :: string
  au_TenantID :: int
  au_HostID :: int

text \<open>
  Lines 61 to 106: how the stream goes on after the manager was asked.  \<open>AuthPanic\<close> is the call of
  \<open>err.Error()\<close> on a \<open>nil\<close> error when the stream has no peer, \<open>AuthReturn\<close> a return from the handler.
  A reply that does not decode is only logged, and leaves tenant and host zero.
\<close>

datatype auth_outcome = AuthPanic | AuthReturn "string option" | AuthGo string int int

definition connAuth :: "string option \<Rightarrow> (string + (string + connAuth_response)) \<Rightarrow> auth_outcome" where
  "connAuth peer resp =
     (case peer of
        None \<Rightarrow> AuthPanic
      | Some addr \<Rightarrow>
          (case resp of
             Inl err \<Rightarrow> AuthReturn (Some err)
           | Inr (Inl unmarshal_err) \<Rightarrow> AuthGo addr 0 0
           | Inr (Inr r) \<Rightarrow> if Status r = 200 then AuthGo addr (au_TenantID r) (au_HostID r) else AuthReturn None))"

text \<open>The body of the request to the manager.\<close>

definition authData :: "RawData \<Rightarrow> string \<Rightarrow> (string, string) gomap" where
  "authData req addr =
     [(''tenantAuthCode'', req_TenantAuthCode req), (''agentId'', req_AgentID req),
      (''agentVersion'', req_Version req), (''extIp'', hd (Split addr '':''))]"

definition new_Connection :: "RawData \<Rightarrow> string \<Rightarrow> int \<Rightarrow> int \<Rightarrow> int \<Rightarrow> 'f Connection" where
  "new_Connection req addr tenant host now =
     \<lparr>AgentID = req_AgentID req, TenantAuthCode = req_TenantAuthCode req, TenantID = tenant, HostID = host,
      SourceAddr = addr, CreateAt = now, agentDetail = None, pluginDetail = None, ethInfoDetail = None\<rparr>"

section \<open>Sending commands\<close>

text \<open>
  A round of \<open>sendData\<close> on a command it took from the channel, \<^const>\<open>None\<close> being the close signal, given
  the result of \<open>stream.Send\<close>: whether the goroutine returns, which cancels the connection, and the
  answer it leaves in the command.
\<close>

definition sendData_round :: "command option \<Rightarrow> string option \<Rightarrow> bool \<times> delivery" where
  "sendData_round cmd sent =
     (case cmd of
        None \<Rightarrow> (True, NoAnswer)
      | Some _ \<Rightarrow> (case sent of Some err \<Rightarrow> (True, Answered (Some err)) | None \<Rightarrow> (False, Answered None)))"

lemma PostCommand_reports:
  "GetByID g a = Inr c \<Longrightarrow> deliver c cmd = snd (sendData_round (Some cmd) sent) \<Longrightarrow> PostCommand deliver g a cmd = sent"
  by (simp add: PostCommand_def sendData_round_def split: option.splits)

section \<open>Streams\<close>

text \<open>
  Where \<open>Transfer\<close> stands: before the token; with the token; with the first packet; after
  authentication; between the two halves of \<open>Add\<close>; waiting for the connection to be cancelled; in the
  deferred \<open>Delete\<close>; in the deferred \<open>ReleaseToken\<close>; returned.
\<close>

datatype phase =
    Start | Token | First RawData | Authed RawData string int int | Checked RawData | Added RawData
  | Running string | Deleting string "string option" | Releasing "string option" | Finished "string option"

datatype receiver = NotStarted | Receiving | Stopped

record 'f xfer =
  srv :: "'f Server"
  phases :: "nat \<Rightarrow> phase"
  receivers :: "nat \<Rightarrow> receiver"

definition xfer_init :: "(nat \<Rightarrow> 'f Connection) \<Rightarrow> Config \<Rightarrow> 'f xfer" where
  "xfer_init heap config =
     \<lparr>srv = \<lparr>pool = NewGRPCPool heap config, kafka = [], gauges = []\<rparr>, phases = (\<lambda>_. Start),
      receivers = (\<lambda>_. NotStarted)\<rparr>"

abbreviation goto :: "nat \<Rightarrow> phase \<Rightarrow> 'f xfer \<Rightarrow> 'f xfer" where
  "goto i p x \<equiv> x\<lparr>phases := (phases x)(i := p)\<rparr>"

abbreviation set_pool :: "'f GRPCPool \<Rightarrow> 'f xfer \<Rightarrow> 'f xfer" where
  "set_pool g x \<equiv> x\<lparr>srv := (srv x)\<lparr>pool := g\<rparr>\<rparr>"

abbreviation xpool :: "'f xfer \<Rightarrow> 'f GRPCPool" where
  "xpool x \<equiv> pool (srv x)"

text \<open>
  The steps.  \<open>manager\<close> tells which answers the manager may give to an authentication request.  A panic
  has no step, it ends the process.  A stream is cancelled when the receiver stops, a command cannot
  be sent or the close signal comes; the receiver may still be handling a packet then, and the stream
  go on with its deferred calls.
\<close>

type_synonym manager = "(string, string) gomap \<Rightarrow> (string + (string + connAuth_response)) \<Rightarrow> bool"

inductive xfer_step :: "manager \<Rightarrow> 'f xfer \<Rightarrow> 'f xfer \<Rightarrow> bool" for manager :: manager where
  load: "phases x i = Start \<Longrightarrow> LoadToken (xpool x) = (True, g) \<Longrightarrow>
    xfer_step manager x (set_pool g (goto i Token x))"
| refuse: "phases x i = Start \<Longrightarrow> LoadToken (xpool x) = (False, g) \<Longrightarrow>
    xfer_step manager x (set_pool g (goto i (Finished (Some ''out of max connection limit'')) x))"
| first: "phases x i = Token \<Longrightarrow> xfer_step manager x (goto i (First req) x)"
| first_err: "phases x i = Token \<Longrightarrow> xfer_step manager x (goto i (Releasing (Some err)) x)"
| auth: "phases x i = First req \<Longrightarrow> manager (authData req addr) resp \<Longrightarrow>
    connAuth (Some addr) resp = AuthGo addr tenant host \<Longrightarrow>
    xfer_step manager x (goto i (Authed req addr tenant host) x)"
| auth_return: "phases x i = First req \<Longrightarrow> manager (authData req addr) resp \<Longrightarrow>
    connAuth (Some addr) resp = AuthReturn err \<Longrightarrow>
    xfer_step manager x (goto i (Releasing err) x)"
| conflict: "phases x i = Authed req addr tenant host \<Longrightarrow> Add_check (xpool x) (req_AgentID req) = Some err \<Longrightarrow>
    xfer_step manager x (goto i (Releasing (Some err)) x)"
| check: "phases x i = Authed req addr tenant host \<Longrightarrow> Add_check (xpool x) (req_AgentID req) = None \<Longrightarrow>
    xfer_step manager x
      (set_pool ((xpool x)\<lparr>conns := (conns (xpool x))(i := new_Connection req addr tenant host now)\<rparr>)
        (goto i (Checked req) x))"
| add: "phases x i = Checked req \<Longrightarrow>
    xfer_step manager x (set_pool (Add_set (xpool x) (req_AgentID req) i) (goto i (Added req) x))"
| start: "phases x i = Added req \<Longrightarrow> handleRawData env recycled req i (srv x) = Some s \<Longrightarrow>
    xfer_step manager x
      ((goto i (Running (req_AgentID req)) x)\<lparr>srv := s, receivers := (receivers x)(i := Receiving)\<rparr>)"
| receive: "receivers x i = Receiving \<Longrightarrow> handleRawData env recycled req i (srv x) = Some s \<Longrightarrow>
    xfer_step manager x (x\<lparr>srv := s\<rparr>)"
| receive_end: "receivers x i = Receiving \<Longrightarrow>
    xfer_step manager x (x\<lparr>receivers := (receivers x)(i := Stopped)\<rparr>)"
| cancelled: "phases x i = Running a \<Longrightarrow> xfer_step manager x (goto i (Deleting a None) x)"
| delete: "phases x i = Deleting a err \<Longrightarrow>
    xfer_step manager x (set_pool (Delete (xpool x) a) (goto i (Releasing err) x))"
| release: "phases x i = Releasing err \<Longrightarrow> ReleaseToken (xpool x) = Some g \<Longrightarrow>
    xfer_step manager x (set_pool g (goto i (Finished err) x))"
| tasks: "xfer_step manager x (set_pool (checkTask_round tick (xpool x)) x)"
| config: "checkConfig_round remote deliver (xpool x) = Some (g, out) \<Longrightarrow> xfer_step manager x (set_pool g x)"

inductive reachable :: "manager \<Rightarrow> 'f xfer \<Rightarrow> 'f xfer \<Rightarrow> bool" for manager x0 where
  reach_init: "reachable manager x0 x0"
| reach_step: "reachable manager x0 x \<Longrightarrow> xfer_step manager x y \<Longrightarrow> reachable manager x0 y"

section \<open>Invariants\<close>

fun holds_token :: "phase \<Rightarrow> bool" where
  "holds_token Start = False"
| "holds_token (Finished _) = False"
| "holds_token _ = True"

definition holders :: "'f xfer \<Rightarrow> nat set" where
  "holders x = {i. holds_token (phases x i)}"

fun serves :: "string \<Rightarrow> phase \<Rightarrow> bool" where
  "serves a (Added req) \<longleftrightarrow> req_AgentID req = a"
| "serves a (Running b) \<longleftrightarrow> a = b"
| "serves a (Deleting b _) \<longleftrightarrow> a = b"
| "serves a _ \<longleftrightarrow> False"

definition xfer_inv :: "'f xfer \<Rightarrow> bool" where
  "xfer_inv x \<longleftrightarrow> finite (holders x) \<and> tokenChan (xpool x) + card (holders x) = PoolLength (conf (xpool x))
     \<and> wf_gomap (connPool (xpool x)) \<and> (\<forall>(a, i) \<in> set (connPool (xpool x)). serves a (phases x i))"

lemma holders_goto:
  "holders (goto i p x) = (if holds_token p then insert i (holders x) else holders x - {i})"
  by (auto simp: holders_def)

lemma holders_frame [simp]:
  "holders (x\<lparr>srv := s\<rparr>) = holders x" "holders (x\<lparr>receivers := r\<rparr>) = holders x"
  by (simp_all add: holders_def)

lemma serves_holds: "serves a p \<Longrightarrow> holds_token p"
  by (cases p) auto

text \<open>
  The three ways a step moves a stream: with the number of tokens it holds unchanged, taking one, or
  giving one back.
\<close>

lemma card_holders:
  assumes "finite (holders x)"
  shows "holds_token (phases x i) = holds_token p \<Longrightarrow> card (holders (goto i p x)) = card (holders x)"
    and "\<not> holds_token (phases x i) \<Longrightarrow> holds_token p \<Longrightarrow> card (holders (goto i p x)) = Suc (card (holders x))"
    and "holds_token (phases x i) \<Longrightarrow> \<not> holds_token p \<Longrightarrow> Suc (card (holders (goto i p x))) = card (holders x)"
proof -
  have i: "i \<in> holders x \<longleftrightarrow> holds_token (phases x i)" by (simp add: holders_def)
  show "holds_token (phases x i) = holds_token p \<Longrightarrow> card (holders (goto i p x)) = card (holders x)"
    using i by (simp only: holders_goto) (auto simp: insert_absorb)
  show "\<not> holds_token (phases x i) \<Longrightarrow> holds_token p \<Longrightarrow> card (holders (goto i p x)) = Suc (card (holders x))"
    using i assms by (simp only: holders_goto) simp
  show "holds_token (phases x i) \<Longrightarrow> \<not> holds_token p \<Longrightarrow> Suc (card (holders (goto i p x))) = card (holders x)"
    using i assms card_gt_0_iff[of "holders x"] by (simp only: holders_goto) auto
qed

definition tokens_ok :: "'f xfer \<Rightarrow> bool" where
  "tokens_ok x \<longleftrightarrow> finite (holders x) \<and> tokenChan (xpool x) + card (holders x) = PoolLength (conf (xpool x))"

definition entries_ok :: "'f xfer \<Rightarrow> bool" where
  "entries_ok x \<longleftrightarrow> wf_gomap (connPool (xpool x)) \<and> (\<forall>a i. map_of (connPool (xpool x)) a = Some i \<longrightarrow> serves a (phases x i))"

lemma tokens_ok_move:
  assumes "tokens_ok x" "holds_token (phases x i) = holds_token p" "tokenChan (pool s) = tokenChan (xpool x)"
    "conf (pool s) = conf (xpool x)"
  shows "tokens_ok ((goto i p x)\<lparr>srv := s\<rparr>)"
  using assms card_holders(1)[of x i p] by (auto simp: tokens_ok_def holders_goto)

lemma tokens_ok_pool:
  "tokens_ok x \<Longrightarrow> tokenChan (pool s) = tokenChan (xpool x) \<Longrightarrow> conf (pool s) = conf (xpool x) \<Longrightarrow> tokens_ok (x\<lparr>srv := s\<rparr>)"
  by (simp add: tokens_ok_def)

lemma tokens_ok_goto: "tokens_ok x \<Longrightarrow> holds_token (phases x i) = holds_token p \<Longrightarrow> tokens_ok (goto i p x)"
  using tokens_ok_move[of x i p "srv x"] by simp

lemma tokens_ok_set:
  "tokens_ok x \<Longrightarrow> holds_token (phases x i) = holds_token p \<Longrightarrow> tokenChan g = tokenChan (xpool x) \<Longrightarrow>
     conf g = conf (xpool x) \<Longrightarrow> tokens_ok (set_pool g (goto i p x))"
  using tokens_ok_move[of x i p "(srv x)\<lparr>pool := g\<rparr>"] by simp

lemma step_tokens: "xfer_step manager x y \<Longrightarrow> tokens_ok x \<Longrightarrow> tokens_ok y"
proof (induction rule: xfer_step.induct)
  case (load x i g)
  then show ?case using card_holders(2)[of x i Token]
    by (auto simp: tokens_ok_def LoadToken_def holders_goto split: if_splits)
next
  case (refuse x i g)
  then show ?case by (intro tokens_ok_set) (auto simp: LoadToken_def split: if_splits)
next
  case (release x i err g)
  then show ?case using card_holders(3)[of x i "Finished err"]
    by (auto simp: tokens_ok_def ReleaseToken_def holders_goto split: if_splits)
next
  case (start x i req env recycled s)
  have "tokens_ok ((goto i (Running (req_AgentID req)) x)\<lparr>srv := s\<rparr>)"
    using start handleRawData_pool[OF start(2)] by (intro tokens_ok_move) (auto simp: pool_frame_def)
  then show ?case by (simp add: tokens_ok_def holders_def)
next
  case (receive x i env recycled req s)
  then show ?case using handleRawData_pool[OF receive(2)] by (intro tokens_ok_pool) (auto simp: pool_frame_def)
next
  case (receive_end x i)
  then show ?case by (simp add: tokens_ok_def)
next
  case (tasks x tick)
  then show ?case by (intro tokens_ok_pool) auto
next
  case (config remote deliver x g out)
  then show ?case using checkConfig_round_frame[OF config(1)] by (intro tokens_ok_pool) auto
next
  case (check x i req addr tenant host now)
  then show ?case by (intro tokens_ok_set) simp_all
next
  case (add x i req)
  then show ?case by (intro tokens_ok_set) simp_all
next
  case (delete x i a err)
  then show ?case by (intro tokens_ok_set) simp_all
qed (rule tokens_ok_goto; simp)+

lemma entries_ok_keep:
  "entries_ok x \<Longrightarrow> connPool (xpool y) = connPool (xpool x) \<Longrightarrow>
     (\<And>a j. serves a (phases x j) \<Longrightarrow> serves a (phases y j)) \<Longrightarrow> entries_ok y"
  by (simp add: entries_ok_def)

lemma entries_ok_goto: "entries_ok x \<Longrightarrow> (\<And>a. serves a (phases x i) \<Longrightarrow> serves a p) \<Longrightarrow> entries_ok (goto i p x)"
  by (rule entries_ok_keep[of x]) auto

lemma step_entries: "xfer_step manager x y \<Longrightarrow> entries_ok x \<Longrightarrow> entries_ok y"
proof (induction rule: xfer_step.induct)
  case (load x i g)
  then show ?case by - (rule entries_ok_keep[of x], auto simp: LoadToken_def split: if_splits)
next
  case (refuse x i g)
  then show ?case by - (rule entries_ok_keep[of x], auto simp: LoadToken_def split: if_splits)
next
  case (add x i req)
  have "map_of (connPool (xpool x)) a \<noteq> Some i" for a
    using add by (metis entries_ok_def serves.simps(8))
  then show ?case using add by (auto simp: entries_ok_def split: if_splits)
next
  case (start x i req env recycled s)
  then show ?case using handleRawData_pool[OF start(2)]
    by - (rule entries_ok_keep[of x], auto simp: pool_frame_def)
next
  case (receive x i env recycled req s)
  then show ?case using handleRawData_pool[OF receive(2)]
    by - (rule entries_ok_keep[of x], auto simp: pool_frame_def)
next
  case (delete x i a err)
  have "b = a" if "map_of (connPool (xpool x)) b = Some i" for b
    using that delete by (metis entries_ok_def serves.simps(3))
  then show ?case using delete by (auto simp: entries_ok_def)
next
  case (release x i err g)
  then show ?case by - (rule entries_ok_keep[of x], auto simp: ReleaseToken_def split: if_splits)
next
  case (config remote deliver x g out)
  then show ?case using checkConfig_round_frame[OF config(1)] by - (rule entries_ok_keep[of x], auto)
next
  case (check x i req addr tenant host now)
  then show ?case by - (rule entries_ok_keep[of x], auto)
next
  case (receive_end x i)
  then show ?case by - (rule entries_ok_keep[of x], auto)
next
  case (tasks x tick)
  then show ?case by - (rule entries_ok_keep[of x], auto)
qed (rule entries_ok_goto, assumption, simp)+

lemma init_ok: "tokens_ok (xfer_init heap config)" "entries_ok (xfer_init heap config)"
  by (simp_all add: tokens_ok_def entries_ok_def xfer_init_def NewGRPCPool_def holders_def)

lemma reachable_ok:
  "reachable manager (xfer_init heap config) x \<Longrightarrow> tokens_ok x \<and> entries_ok x"
  by (induction rule: reachable.induct) (use init_ok step_tokens step_entries in blast)+

lemma step_conf: "xfer_step manager x y \<Longrightarrow> conf (xpool y) = conf (xpool x)"
proof (induction rule: xfer_step.induct)
  case (start x i req env recycled s)
  then show ?case using handleRawData_pool[OF start(2)] by (simp add: pool_frame_def)
next
  case (receive x i env recycled req s)
  then show ?case using handleRawData_pool[OF receive(2)] by (simp add: pool_frame_def)
next
  case (config remote deliver x g out)
  then show ?case using checkConfig_round_frame[OF config(1)] by simp
qed (auto simp: LoadToken_def ReleaseToken_def split: if_splits)

lemma reachable_conf: "reachable manager (xfer_init heap config) x \<Longrightarrow> conf (xpool x) = config"
  by (induction rule: reachable.induct) (auto simp: xfer_init_def NewGRPCPool_def dest: step_conf)

text \<open>The streams behind the entries of the pool hold tokens and are distinct.\<close>

lemma pool_size:
  assumes "tokens_ok x" "entries_ok x"
  shows "length (connPool (xpool x)) \<le> card (holders x)"
proof -
  let ?m = "map_of (connPool (xpool x))"
  have "a = b" if "?m a = Some i" "?m b = Some i" for a b i
  proof -
    have "serves a (phases x i)" "serves b (phases x i)" using that assms(2) by (auto simp: entries_ok_def)
    then show ?thesis by (cases "phases x i") auto
  qed
  then have "inj_on (\<lambda>a. the (?m a)) (dom ?m)" by (auto simp: inj_on_def)
  moreover have "(\<lambda>a. the (?m a)) ` dom ?m \<subseteq> holders x"
    using assms(2) serves_holds by (fastforce simp: entries_ok_def holders_def)
  ultimately have "card (dom ?m) \<le> card (holders x)"
    using assms(1) card_inj_on_le by (auto simp: tokens_ok_def)
  then show ?thesis using assms(2) card_gomap by (metis entries_ok_def)
qed

text \<open>
  C5. The connection limit holds under every interleaving of the streams: the tokens in the
  channel and the streams between \<open>LoadToken\<close> and \<open>ReleaseToken\<close> always make up \<open>PoolLength\<close>, so a
  returning stream never blocks on giving its token back, and the pool never has more entries than
  \<open>PoolLength\<close>, each of a stream that is still being served.
\<close>

theorem connection_limit:
  assumes "reachable manager (xfer_init heap config) x"
  shows "tokenChan (xpool x) + card {i. holds_token (phases x i)} = PoolLength config
    \<and> (\<forall>i err. phases x i = Releasing err \<longrightarrow> ReleaseToken (xpool x) \<noteq> None)
    \<and> GetCount (xpool x) \<le> PoolLength config
    \<and> (\<forall>a i. GetByID (xpool x) a = Inr i \<longrightarrow> serves a (phases x i))"
proof -
  note ok = reachable_ok[OF assms] and c = reachable_conf[OF assms]
  have t: "tokenChan (xpool x) + card (holders x) = PoolLength config" and f: "finite (holders x)"
    using ok c by (simp_all add: tokens_ok_def)
  have "ReleaseToken (xpool x) \<noteq> None" if "phases x i = Releasing err" for i err
  proof -
    have "i \<in> holders x" using that by (simp add: holders_def)
    then have "0 < card (holders x)" using f card_gt_0_iff by blast
    then show ?thesis using t c by (simp add: ReleaseToken_def)
  qed
  then show ?thesis using t pool_size[of x] ok
    by (auto simp: holders_def GetCount_def GetByID_def entries_ok_def split: option.splits)
qed

lemma connection_limit_witness:
  "\<exists>x. reachable (\<lambda>_ _. False) (xfer_init (\<lambda>_. demo_conn) \<lparr>PoolLength = 1, ChanLen = 1, TaskCountWeight = 1\<rparr>) x
     \<and> phases x 5 = Token \<and> tokenChan (xpool x) + card {i. holds_token (phases x i)} = 1"
proof -
  let ?x = "xfer_init (\<lambda>_. demo_conn) \<lparr>PoolLength = 1, ChanLen = 1, TaskCountWeight = 1\<rparr>"
  have "reachable (\<lambda>_ _. False) ?x (set_pool ((xpool ?x)\<lparr>tokenChan := 0\<rparr>) (goto 5 Token ?x))"
    by (rule reach_step[OF reach_init xfer_step.load]) (simp_all add: xfer_init_def NewGRPCPool_def LoadToken_def)
  from connection_limit[OF this] this show ?thesis by (intro exI conjI) (assumption, simp_all only: Config.simps, simp)
qed

section \<open>Tenants\<close>

text \<open>A tenant and host that the manager named in a positive answer, or the zero values.\<close>

definition vouched :: "manager \<Rightarrow> int \<Rightarrow> int \<Rightarrow> bool" where
  "vouched manager tenant host \<longleftrightarrow> (tenant = 0 \<and> host = 0)
     \<or> (\<exists>ad r. manager ad (Inr (Inr r)) \<and> Status r = 200 \<and> tenant = au_TenantID r \<and> host = au_HostID r)"

fun connected :: "phase \<Rightarrow> bool" where
  "connected (Checked _) = True"
| "connected (Added _) = True"
| "connected _ = False"

definition tenants_ok :: "manager \<Rightarrow> 'f xfer \<Rightarrow> bool" where
  "tenants_ok manager x \<longleftrightarrow>
     (\<forall>i req addr t h. phases x i = Authed req addr t h \<longrightarrow> vouched manager t h)
     \<and> (\<forall>i. connected (phases x i) \<or> receivers x i \<noteq> NotStarted \<longrightarrow>
            vouched manager (TenantID (conns (xpool x) i)) (HostID (conns (xpool x) i)))
     \<and> (\<forall>(key, m) \<in> set (kafka (srv x)). vouched manager (mq_TenantID m) (mq_HostID m))"

lemma handleRawData_tenants:
  assumes "handleRawData env recycled req c s = Some s'" "(key, m) \<in> set (kafka s')"
  shows "(key, m) \<in> set (kafka s) \<or> mq_TenantID m = TenantID (conns (pool s) c) \<and> mq_HostID m = HostID (conns (pool s) c)"
  using handle_records_kafka[OF assms(1)[unfolded handleRawData_def]] assms(2) by (auto simp: fill_MQData_def)

lemma tenants_ok_keep:
  assumes ok: "tenants_ok manager x" and k: "kafka (srv y) = kafka (srv x)"
    and c: "\<And>i. TenantID (conns (xpool y) i) = TenantID (conns (xpool x) i) \<and> HostID (conns (xpool y) i) = HostID (conns (xpool x) i)"
    and p: "\<And>i. connected (phases y i) \<Longrightarrow> connected (phases x i)"
    and r: "\<And>i. receivers y i \<noteq> NotStarted \<Longrightarrow> receivers x i \<noteq> NotStarted"
    and a: "\<And>i req addr t h. phases y i = Authed req addr t h \<Longrightarrow> phases x i = Authed req addr t h \<or> vouched manager t h"
  shows "tenants_ok manager y"
  unfolding tenants_ok_def
proof (intro conjI allI impI)
  fix i req addr t h
  assume "phases y i = Authed req addr t h"
  then show "vouched manager t h" using a ok unfolding tenants_ok_def by metis
next
  fix i
  assume "connected (phases y i) \<or> receivers y i \<noteq> NotStarted"
  then show "vouched manager (TenantID (conns (xpool y) i)) (HostID (conns (xpool y) i))"
    using p r c ok unfolding tenants_ok_def by metis
next
  show "\<forall>(key, m) \<in> set (kafka (srv y)). vouched manager (mq_TenantID m) (mq_HostID m)"
    using k ok unfolding tenants_ok_def by simp
qed

lemma connAuth_vouched:
  "connAuth (Some addr) resp = AuthGo addr' t h \<Longrightarrow> manager ad resp \<Longrightarrow> vouched manager t h"
  by (auto simp: connAuth_def vouched_def split: sum.splits if_splits)

lemma tenants_ok_packet:
  assumes ok: "tenants_ok manager x" and h: "handleRawData env recycled req i (srv x) = Some s"
    and live: "connected (phases x i) \<or> receivers x i \<noteq> NotStarted"
  shows "tenants_ok manager (x\<lparr>srv := s\<rparr>)"
proof -
  have f: "TenantID (conns (pool s) j) = TenantID (conns (xpool x) j)" "HostID (conns (pool s) j) = HostID (conns (xpool x) j)" for j
    using handleRawData_pool[OF h] by (simp_all add: pool_frame_def)
  have v: "vouched manager (TenantID (conns (xpool x) i)) (HostID (conns (xpool x) i))"
    using ok live unfolding tenants_ok_def by blast
  have "vouched manager (mq_TenantID m) (mq_HostID m)" if "(key, m) \<in> set (kafka s)" for key m
    using handleRawData_tenants[OF h that] v ok unfolding tenants_ok_def by auto
  then show ?thesis using ok f unfolding tenants_ok_def by auto
qed

lemma step_tenants: "xfer_step manager x y \<Longrightarrow> tenants_ok manager x \<Longrightarrow> tenants_ok manager y"
proof (induction rule: xfer_step.induct)
  case (auth x i req addr resp tenant host)
  then show ?case using connAuth_vouched[of addr resp addr tenant host manager]
    by - (rule tenants_ok_keep[of manager x], auto split: if_splits)
next
  case (check x i req addr tenant host now)
  then have "vouched manager tenant host" unfolding tenants_ok_def by blast
  then show ?case using check unfolding tenants_ok_def by (auto simp: new_Connection_def split: if_splits)
next
  case (start x i req env recycled s)
  then have "tenants_ok manager (x\<lparr>srv := s\<rparr>)" by (intro tenants_ok_packet) auto
  moreover have "vouched manager (TenantID (conns (xpool x) i)) (HostID (conns (xpool x) i))"
    using start(1,3) unfolding tenants_ok_def by (metis connected.simps(2))
  then have "vouched manager (TenantID (conns (pool s) i)) (HostID (conns (pool s) i))"
    using handleRawData_pool[OF start(2)] by (simp add: pool_frame_def)
  ultimately show ?case unfolding tenants_ok_def by (auto split: if_splits)
next
  case (receive x i env recycled req s)
  then show ?case by (intro tenants_ok_packet) auto
next
  case (config remote deliver x g out)
  then show ?case using checkConfig_round_frame[OF config(1)] by - (rule tenants_ok_keep[of manager x], auto)
qed (rule tenants_ok_keep, assumption, auto simp: LoadToken_def ReleaseToken_def split: if_splits)+

lemma reachable_tenants: "reachable manager (xfer_init heap config) x \<Longrightarrow> tenants_ok manager x"
proof (induction rule: reachable.induct)
  case reach_init
  then show ?case by (simp add: tenants_ok_def xfer_init_def)
next
  case (reach_step x y)
  then show ?case using step_tenants by blast
qed

text \<open>
  C7. Tenants cannot be forged: in every reachable state, every message that went to Kafka carries
  a tenant and a host that the manager named in a positive answer to an authentication request, or
  both are zero.
\<close>

theorem kafka_tenants_vouched:
  assumes "reachable manager (xfer_init heap config) x" "(key, m) \<in> set (kafka (srv x))"
    and "mq_TenantID m \<noteq> 0 \<or> mq_HostID m \<noteq> 0"
  shows "\<exists>ad r. manager ad (Inr (Inr r)) \<and> Status r = 200 \<and> mq_TenantID m = au_TenantID r \<and> mq_HostID m = au_HostID r"
  using reachable_tenants[OF assms(1)] assms(2,3) by (fastforce simp: tenants_ok_def vouched_def)

section \<open>Runs\<close>

text \<open>The stretches of a stream's run, for building the runs below.\<close>

lemma reach_checked:
  assumes "reachable manager x0 x" "phases x i = Start" "0 < tokenChan (xpool x)"
    and "manager (authData req addr) resp" "connAuth (Some addr) resp = AuthGo addr t h"
    and "map_of (connPool (xpool x)) (req_AgentID req) = None"
  shows "\<exists>y. reachable manager x0 y \<and> phases y = (phases x)(i := Checked req)
    \<and> connPool (xpool y) = connPool (xpool x) \<and> tokenChan (xpool y) = tokenChan (xpool x) - 1
    \<and> kafka (srv y) = kafka (srv x) \<and> conns (xpool y) i = new_Connection req addr t h 0
    \<and> receivers y = receivers x"
proof -
  define g where "g = (xpool x)\<lparr>tokenChan := tokenChan (xpool x) - 1\<rparr>"
  define x1 where "x1 = set_pool g (goto i Token x)"
  have "LoadToken (xpool x) = (True, g)" using assms(3) by (simp add: LoadToken_def g_def)
  then have r1: "reachable manager x0 x1" using assms(1,2) reach_step xfer_step.load unfolding x1_def by blast
  define x2 where "x2 = goto i (First req) x1"
  have r2: "reachable manager x0 x2"
    unfolding x2_def by (rule reach_step[OF r1 xfer_step.first]) (simp add: x1_def)
  define x3 where "x3 = goto i (Authed req addr t h) x2"
  have r3: "reachable manager x0 x3"
    unfolding x3_def by (rule reach_step[OF r2 xfer_step.auth[where manager = manager and req = req, OF _ assms(4,5)]]) (simp add: x2_def)
  define x4 where "x4 = set_pool ((xpool x3)\<lparr>conns := (conns (xpool x3))(i := new_Connection req addr t h 0)\<rparr>)
      (goto i (Checked req) x3)"
  have "reachable manager x0 x4"
    unfolding x4_def using assms(6)
    by (intro reach_step[OF r3 xfer_step.check]) (simp_all add: x3_def x2_def x1_def g_def Add_check_def)
  then show ?thesis by (intro exI[of _ x4]) (simp add: x4_def x3_def x2_def x1_def g_def)
qed

lemma reach_running:
  assumes "reachable manager x0 x" "phases x i = Checked req"
    and "\<And>s. pool s = Add_set (xpool x) (req_AgentID req) i \<Longrightarrow> kafka s = kafka (srv x) \<Longrightarrow>
      \<exists>s'. handleRawData env recycled req i s = Some s'"
  shows "\<exists>y s. reachable manager x0 y \<and> phases y = (phases x)(i := Running (req_AgentID req))
    \<and> connPool (xpool y) = mput (connPool (xpool x)) (req_AgentID req) i
    \<and> kafka s = kafka (srv x) \<and> pool s = Add_set (xpool x) (req_AgentID req) i
    \<and> handleRawData env recycled req i s = Some (srv y)"
proof -
  define x1 where "x1 = set_pool (Add_set (xpool x) (req_AgentID req) i) (goto i (Added req) x)"
  have r1: "reachable manager x0 x1" unfolding x1_def by (rule reach_step[OF assms(1) xfer_step.add[OF assms(2)]])
  obtain s' where s': "handleRawData env recycled req i (srv x1) = Some s'"
    using assms(3)[of "srv x1"] by (auto simp: x1_def)
  define x2 where "x2 = (goto i (Running (req_AgentID req)) x1)\<lparr>srv := s', receivers := (receivers x1)(i := Receiving)\<rparr>"
  have "reachable manager x0 x2"
    unfolding x2_def by (rule reach_step[OF r1 xfer_step.start[OF _ s']]) (simp add: x1_def)
  then show ?thesis using s' handleRawData_pool[OF s']
    by (intro exI[of _ x2] exI[of _ "srv x1"]) (simp add: x2_def x1_def pool_frame_def)
qed

lemma reach_deleted:
  assumes "reachable manager x0 x" "phases x i = Running a"
  shows "\<exists>y. reachable manager x0 y \<and> phases y = (phases x)(i := Releasing None)
    \<and> connPool (xpool y) = mdel (connPool (xpool x)) a"
proof -
  define x1 where "x1 = goto i (Deleting a None) x"
  have r1: "reachable manager x0 x1" unfolding x1_def by (rule reach_step[OF assms(1) xfer_step.cancelled[OF assms(2)]])
  define x2 where "x2 = set_pool (Delete (xpool x1) a) (goto i (Releasing None) x1)"
  have "reachable manager x0 x2" unfolding x2_def
    by (rule reach_step[OF r1 xfer_step.delete[where a = a and err = None]]) (simp add: x1_def)
  then show ?thesis by (intro exI[of _ x2]) (simp add: x2_def x1_def)
qed

definition ok_manager :: manager where
  "ok_manager ad resp \<longleftrightarrow> resp = Inr (Inr \<lparr>Status = 200, Msg = ''ok'', au_TenantID = 7, au_HostID = 9\<rparr>)"

definition garbled_manager :: manager where
  "garbled_manager ad resp \<longleftrightarrow> resp = Inr (Inl ''invalid character'')"

lemma handleRawData_no_data: "req_Data req = [] \<Longrightarrow> handleRawData env recycled req c s = Some s"
  by (simp add: handleRawData_def)

text \<open>
  An agent can be connected and unreachable: \<open>Add\<close> looks the agent id up and stores the
  connection in separate steps, so that two streams of one agent may both be admitted; when the first
  of them ends, it deletes the entry of the second, which goes on running although the pool no longer
  finds it and no command can be posted to it.
\<close>

theorem duplicate_streams_lose_entry:
  "\<exists>x. reachable ok_manager (xfer_init heap NewConfig) x
     \<and> phases x 1 = Running ''agent''
     \<and> GetByID (xpool x) ''agent'' = Inl ''agentID not found''
     \<and> PostCommand deliver (xpool x) ''agent'' cmd = Some ''agentID not found''"
proof -
  let ?x0 = "xfer_init heap NewConfig" and ?q = "demo_req []"
  have m: "ok_manager ad (Inr (Inr \<lparr>Status = 200, Msg = ''ok'', au_TenantID = 7, au_HostID = 9\<rparr>))" for ad
    by (simp add: ok_manager_def)
  have c: "connAuth (Some ''p'') (Inr (Inr \<lparr>Status = 200, Msg = ''ok'', au_TenantID = 7, au_HostID = 9\<rparr>)) = AuthGo ''p'' 7 9"
    by (simp add: connAuth_def)
  have i: "phases ?x0 j = Start" "tokenChan (xpool ?x0) = 1024" "connPool (xpool ?x0) = []" for j
    by (simp_all add: xfer_init_def NewGRPCPool_def NewConfig_def)
  have q: "req_AgentID ?q = ''agent''" by (simp add: demo_req_def)
  have h: "\<exists>s'. handleRawData undefined recycled ?q j s = Some s'" for s :: "'f Server" and recycled j
    by (simp add: handleRawData_no_data demo_req_def)
  obtain x1 where x1: "reachable ok_manager ?x0 x1" "phases x1 = (phases ?x0)(0 := Checked ?q)"
    "connPool (xpool x1) = []" "tokenChan (xpool x1) = 1023"
    using reach_checked[where manager = ok_manager and req = ?q and i = 0, OF reach_init i(1) _ m c] i(2,3) by auto
  obtain x2 where x2: "reachable ok_manager ?x0 x2" "phases x2 = (phases x1)(1 := Checked ?q)" "connPool (xpool x2) = []"
    using reach_checked[where manager = ok_manager and req = ?q and i = 1, OF x1(1) _ _ m c] x1 i(1) by auto
  obtain x3 where x3: "reachable ok_manager ?x0 x3" "phases x3 = (phases x2)(0 := Running ''agent'')"
    using reach_running[OF x2(1) _ h, of 0] x2(2) x1(2) q by auto
  obtain x4 where x4: "reachable ok_manager ?x0 x4" "phases x4 = (phases x3)(1 := Running ''agent'')"
    "connPool (xpool x4) = mput (connPool (xpool x3)) ''agent'' 1"
    using reach_running[OF x3(1) _ h, of 1] x3(2) x2(2) q by auto
  obtain x5 where x5: "reachable ok_manager ?x0 x5" "phases x5 = (phases x4)(0 := Releasing None)"
    "connPool (xpool x5) = mdel (connPool (xpool x4)) ''agent''"
    using reach_deleted[OF x4(1), of 0 "''agent''"] x4(2) x3(2) by auto
  have "GetByID (xpool x5) ''agent'' = Inl ''agentID not found''" using x5(3) by (simp add: GetByID_def)
  then show ?thesis using x5(1,2) x4(2) by (intro exI[of _ x5]) (simp add: PostCommand_def)
qed

lemma admitted_run:
  fixes heap :: "nat \<Rightarrow> 'f Connection"
  assumes m: "\<And>ad. manager ad resp" and c: "connAuth (Some ''p'') resp = AuthGo ''p'' t h"
  shows "\<exists>x m. reachable manager (xfer_init heap NewConfig) x
     \<and> phases x 0 = Running ''agent'' \<and> (''agent'', m) \<in> set (kafka (srv x)) \<and> mq_TenantID m = t \<and> mq_HostID m = h"
proof -
  let ?x0 = "xfer_init heap NewConfig" and ?r = "\<lparr>DataType = 59, Timestamp = 3, Body = [1, 2]\<rparr>"
  let ?q = "demo_req [?r]"
  define env :: "'f env" where "env = undefined"
  have h: "\<exists>s'. handleRawData env (\<lambda>_. stale_msg) ?q 0 s = Some s'" for s :: "'f Server"
    using handle_records_panic[of env "\<lambda>_. stale_msg" _ _ ?q 0 0 "[?r]" s]
    by (auto simp: handleRawData_def demo_req_def crashing_def task_types_def)
  have q: "req_AgentID ?q = ''agent''" "req_Data ?q = [?r]" by (simp_all add: demo_req_def)
  obtain x1 where x1: "reachable manager ?x0 x1" "phases x1 0 = Checked ?q"
    "conns (xpool x1) 0 = new_Connection ?q ''p'' t h 0"
    using reach_checked[where manager = manager and req = ?q and x = ?x0 and i = 0, OF reach_init _ _ m c]
    by (auto simp: xfer_init_def NewGRPCPool_def NewConfig_def)
  obtain x2 s where x2: "reachable manager ?x0 x2" "phases x2 0 = Running ''agent''"
    "pool s = Add_set (xpool x1) ''agent'' 0" "handleRawData env (\<lambda>_. stale_msg) ?q 0 s = Some (srv x2)"
    using reach_running[OF x1(1,2) h] q by auto
  have "forwarded ?r" by (simp add: forwarded_def task_types_def)
  then have "(''agent'', fill_MQData stale_msg (Now env 0) (GetExtraInfoByID (pool s) ''agent'') (conns (pool s) 0) ?q ?r)
      \<in> set (kafka (srv x2))"
    using handle_records_kafka[OF x2(4)[unfolded handleRawData_def]] q by simp
  then show ?thesis using x2(1-3) x1(3)
    by (intro exI[of _ x2] exI conjI) (auto simp: fill_MQData_def new_Connection_def)
qed

lemma kafka_tenants_vouched_witness:
  "\<exists>x m. reachable ok_manager (xfer_init (\<lambda>_. demo_conn) NewConfig) x \<and> (''agent'', m) \<in> set (kafka (srv x))
     \<and> (\<exists>ad r. ok_manager ad (Inr (Inr r)) \<and> Status r = 200 \<and> mq_TenantID m = au_TenantID r \<and> mq_HostID m = au_HostID r)"
proof -
  obtain x m where x: "reachable ok_manager (xfer_init (\<lambda>_. demo_conn) NewConfig) x" "(''agent'', m) \<in> set (kafka (srv x))"
    "mq_TenantID m = 7"
    using admitted_run[of ok_manager "Inr (Inr \<lparr>Status = 200, Msg = ''ok'', au_TenantID = 7, au_HostID = 9\<rparr>)" 7 9
        "\<lambda>_. demo_conn"] by (auto simp: ok_manager_def connAuth_def)
  have "\<exists>ad r. ok_manager ad (Inr (Inr r)) \<and> Status r = 200 \<and> mq_TenantID m = au_TenantID r \<and> mq_HostID m = au_HostID r"
    using kafka_tenants_vouched[OF x(1,2)] x(3) by simp
  then show ?thesis using x(1,2) by blast
qed

text \<open>
  A reply of the manager that does not decode lets the agent in: with a manager that gives
  nothing but such replies, a stream reaches the running state and its records go to Kafka, under
  tenant and host zero.
\<close>

theorem undecodable_auth_admits:
  "\<exists>x m. reachable garbled_manager (xfer_init heap NewConfig) x
     \<and> phases x 0 = Running ''agent'' \<and> (''agent'', m) \<in> set (kafka (srv x)) \<and> mq_TenantID m = 0 \<and> mq_HostID m = 0"
  by (rule admitted_run[of _ "Inr (Inl ''invalid character'')"]) (simp_all add: garbled_manager_def connAuth_def)

end
