(* ===== verification/AgentCenterHttp.thy ===== *)
theory AgentCenterHttp
  imports TransferHandler
begin

text \<open>
  The HTTP interface of the agent center to its connections (\<open>httptrans/http_handler/conn.go\<close> and
  \<open>command.go\<close>).  A handler gets the outcome of gin's \<open>BindJSON\<close> and returns the code and the data it
  replies with.  What happens on a connection's command channel is the parameter of \<^const>\<open>PostCommand\<close>
  and \<^const>\<open>Close\<close>; the order in which Go lists the pool is that of the association list, and
  the pool does not change while a handler runs.
\<close>

definition SuccessCode :: int where "SuccessCode = 0"
definition AuthFailedErrorCode :: int where "AuthFailedErrorCode = 1"
definition ParamInvalidErrorCode :: int where "ParamInvalidErrorCode = 2"
definition UnknownErrorCode :: int where "UnknownErrorCode = 3"

definition ErrorDescriptions :: "(int, string) gomap" where
  "ErrorDescriptions =
     [(SuccessCode, ''success''), (AuthFailedErrorCode, ''auth failed''),
      (ParamInvalidErrorCode, ''param invalid''), (UnknownErrorCode, ''some errors occurred'')]"

text \<open>The data of a reply is a text or the result of the handler.\<close>

record 'a Response =
  Code :: int
  Message :: string
  Data :: "string + 'a"

definition CreateResponse :: "int \<Rightarrow> (string + 'a) \<Rightarrow> 'a Response" where
  "CreateResponse code d =
     \<lparr>Code = code, Message = (case map_of ErrorDescriptions code of Some m \<Rightarrow> m | None \<Rightarrow> []), Data = d\<rparr>"

record ResetRequest =
  IDList :: "string list"
  rr_Type :: string
  Count :: int

record 'f ConnStatRsp =
  AgentInfo :: "'f detail"
  PluginsInfo :: "'f detail list"
  EthsInfo :: "'f detail list"

text \<open>The statistics read every connection, and the getter writes tenant and host into its details.\<close>

fun stat_loop :: "'f GRPCPool \<Rightarrow> nat list \<Rightarrow> 'f ConnStatRsp list \<times> 'f GRPCPool" where
  "stat_loop g [] = ([], g)"
| "stat_loop g (c # cs) =
     (let (detail, conn) = GetAgentDetail (conns g c);
          g' = g\<lparr>conns := (conns g)(c := conn)\<rparr>;
          tmp = \<lparr>AgentInfo = detail, PluginsInfo = GetPluginsList conn, EthsInfo = GetEthInfosList conn\<rparr>;
          (res, g'') = stat_loop g' cs
      in (tmp # res, g''))"

definition ConnStat :: "'f GRPCPool \<Rightarrow> ('f ConnStatRsp list) Response \<times> 'f GRPCPool" where
  "ConnStat g = (let (res, g') = stat_loop g (GetList g) in (CreateResponse SuccessCode (Inr res), g'))"

definition ConnList :: "'f GRPCPool \<Rightarrow> string list Response" where
  "ConnList g = CreateResponse SuccessCode (Inr (map (\<lambda>c. AgentID (conns g c)) (GetList g)))"

definition ConnCount :: "'f GRPCPool \<Rightarrow> nat Response" where
  "ConnCount g = CreateResponse SuccessCode (Inr (GetCount g))"

definition close_text :: "string option \<Rightarrow> string" where
  "close_text err = (case err of None \<Rightarrow> ''ok'' | Some e \<Rightarrow> e)"

definition close_all :: "(nat \<Rightarrow> bool) \<Rightarrow> 'f GRPCPool \<Rightarrow> string list \<Rightarrow> (string, string) gomap" where
  "close_all taken g ids = foldl (\<lambda>d a. mput d a (close_text (Close taken g a))) [] ids"

text \<open>The number of connections that were addressed and the result for each of them.\<close>

definition ConnReset ::
  "(nat \<Rightarrow> bool) \<Rightarrow> 'f GRPCPool \<Rightarrow> (string + ResetRequest) \<Rightarrow> (nat \<times> (string, string) gomap) Response" where
  "ConnReset taken g param =
     (case param of
        Inl err \<Rightarrow> CreateResponse ParamInvalidErrorCode (Inl err)
      | Inr p \<Rightarrow>
          if rr_Type p = ''random'' then
            let ids = take (nat (Count p)) (map (\<lambda>c. AgentID (conns g c)) (GetList g))
            in CreateResponse SuccessCode (Inr (length ids, close_all taken g ids))
          else if rr_Type p = ''strict'' then
            CreateResponse SuccessCode (Inr (length (IDList p), close_all taken g (IDList p)))
          else CreateResponse ParamInvalidErrorCode (Inl ''type only support strict|random''))"

record TaskMsg =
  tm_DataType :: int
  tm_Name :: string
  tm_Data :: string
  tm_Token :: string

record CommandDetail =
  cd_AgentCtrl :: int
  cd_Task :: "TaskMsg option"
  cd_Config :: "ConfigMsg list"

record CommandRequest =
  cr_AgentID :: string
  cr_Command :: CommandDetail

definition to_Command :: "CommandDetail \<Rightarrow> command" where
  "to_Command d =
     \<lparr>AgentCtrl = cd_AgentCtrl d,
      cmd_Task = map_option (\<lambda>t. \<lparr>pt_DataType = tm_DataType t, pt_Name = tm_Name t, pt_Data = tm_Data t, pt_Token = tm_Token t\<rparr>) (cd_Task d),
      cmd_Config = map to_ConfigItem (cd_Config d)\<rparr>"

definition h_PostCommand ::
  "(nat \<Rightarrow> command \<Rightarrow> delivery) \<Rightarrow> 'f GRPCPool \<Rightarrow> (string + CommandRequest) \<Rightarrow> string Response" where
  "h_PostCommand deliver g param =
     (case param of
        Inl err \<Rightarrow> CreateResponse ParamInvalidErrorCode (Inl err)
      | Inr taskModel \<Rightarrow>
          (case PostCommand deliver g (cr_AgentID taskModel) (to_Command (cr_Command taskModel)) of
             Some err \<Rightarrow> CreateResponse UnknownErrorCode (Inl err)
           | None \<Rightarrow> CreateResponse SuccessCode (Inr [])))"

lemma map_of_close_all: "map_of (close_all taken g ids) a = (if a \<in> set ids then Some (close_text (Close taken g a)) else None)"
proof -
  have "map_of (foldl (\<lambda>d a. mput d a (close_text (Close taken g a))) d ids) a
      = (if a \<in> set ids then Some (close_text (Close taken g a)) else map_of d a)" for d
    by (induction ids arbitrary: d) auto
  then show ?thesis by (simp add: close_all_def)
qed

section \<open>The agents listed are those connected\<close>

fun agent_of :: "phase \<Rightarrow> string option" where
  "agent_of (Checked req) = Some (req_AgentID req)"
| "agent_of (Added req) = Some (req_AgentID req)"
| "agent_of (Running a) = Some a"
| "agent_of (Deleting a _) = Some a"
| "agent_of _ = None"

definition ids_ok :: "'f xfer \<Rightarrow> bool" where
  "ids_ok x \<longleftrightarrow> (\<forall>i a. agent_of (phases x i) = Some a \<longrightarrow> AgentID (conns (xpool x) i) = a)"

lemma serves_agent_of: "serves a p \<Longrightarrow> agent_of p = Some a"
  by (cases p) auto

lemma ids_ok_keep:
  assumes "ids_ok x" "\<And>i. AgentID (conns (xpool y) i) = AgentID (conns (xpool x) i)"
    "\<And>i a. agent_of (phases y i) = Some a \<Longrightarrow> agent_of (phases x i) = Some a"
  shows "ids_ok y"
  using assms unfolding ids_ok_def by metis

lemma step_ids: "xfer_step manager x y \<Longrightarrow> ids_ok x \<Longrightarrow> ids_ok y"
proof (induction rule: xfer_step.induct)
  case (check x i req addr tenant host now)
  then show ?case unfolding ids_ok_def by (simp add: new_Connection_def)
next
  case (start x i req env recycled s)
  then show ?case using handleRawData_pool[OF start(2)]
    by - (rule ids_ok_keep[of x], auto simp: pool_frame_def split: if_splits)
next
  case (receive x i env recycled req s)
  then show ?case using handleRawData_pool[OF receive(2)] by - (rule ids_ok_keep[of x], auto simp: pool_frame_def)
next
  case (config remote deliver x g out)
  then show ?case using checkConfig_round_frame[OF config(1)] by - (rule ids_ok_keep[of x], auto)
qed (rule ids_ok_keep, assumption, auto simp: LoadToken_def ReleaseToken_def split: if_splits)+

lemma reachable_ids:
  assumes "reachable manager (xfer_init heap config) x"
  shows "map (\<lambda>c. AgentID (conns (xpool x) c)) (GetList (xpool x)) = map fst (connPool (xpool x))"
proof -
  have i: "ids_ok (xfer_init heap config)" by (simp add: ids_ok_def xfer_init_def)
  have "ids_ok x" using assms by (induction rule: reachable.induct) (use i step_ids in blast)+
  moreover have "serves a (phases x i)" if "(a, i) \<in> set (connPool (xpool x))" for a i
    using that reachable_ok[OF assms] by (simp add: entries_ok_def map_of_Some_iff)
  ultimately have "AgentID (conns (xpool x) i) = a" if "(a, i) \<in> set (connPool (xpool x))" for a i
    using that serves_agent_of unfolding ids_ok_def by blast
  then show ?thesis by (auto simp: GetList_def)
qed

text \<open>
  Resetting \<open>n\<close> random connections in a reachable state addresses the smaller of \<open>n\<close> and the
  number of connections, and reports on as many different agents, each of them connected: \<open>ok\<close> if
  its connection took the close signal and the error text otherwise.
\<close>

theorem ConnReset_random:
  assumes "reachable manager (xfer_init heap config) x" "0 \<le> n"
  shows "\<exists>detail. ConnReset taken (xpool x) (Inr \<lparr>IDList = ids, rr_Type = ''random'', Count = n\<rparr>)
        = CreateResponse SuccessCode (Inr (min (nat n) (GetCount (xpool x)), detail))
    \<and> card (dom (map_of detail)) = min (nat n) (GetCount (xpool x))
    \<and> (\<forall>a \<in> dom (map_of detail). \<exists>c. GetByID (xpool x) a = Inr c \<and> serves a (phases x c)
         \<and> map_of detail a = Some (if taken c then ''ok'' else ''the sendPool of the agent is full''))"
proof -
  note ok = reachable_ok[OF assms(1)]
  let ?ids = "take (nat n) (map fst (connPool (xpool x)))" and ?d = "close_all taken (xpool x) (take (nat n) (map fst (connPool (xpool x))))"
  have dom: "dom (map_of ?d) = set ?ids" by (auto simp: map_of_close_all split: if_splits)
  have wf: "wf_gomap (connPool (xpool x))" using ok by (simp add: entries_ok_def)
  then have "card (set ?ids) = min (nat n) (GetCount (xpool x))"
    by (subst distinct_card) (simp_all add: distinct_take GetCount_def)
  moreover have "\<exists>c. GetByID (xpool x) a = Inr c \<and> serves a (phases x c)
      \<and> map_of ?d a = Some (if taken c then ''ok'' else ''the sendPool of the agent is full'')" if a: "a \<in> set ?ids" for a
  proof -
    have "a \<in> fst ` set (connPool (xpool x))" using in_set_takeD[OF a] by simp
    then obtain c where c: "map_of (connPool (xpool x)) a = Some c" by (auto simp: map_of_Some_iff[OF wf])
    then have "serves a (phases x c)" using ok by (simp add: entries_ok_def)
    then show ?thesis using c a by (simp add: map_of_close_all Close_def GetByID_def close_text_def)
  qed
  ultimately show ?thesis using dom
    by (intro exI[of _ ?d]) (auto simp: ConnReset_def reachable_ids[OF assms(1)] GetCount_def min_def)
qed

lemma ConnReset_random_witness:
  "\<exists>(x :: nat xfer) detail. phases x 0 = Running ''agent''
     \<and> ConnReset (\<lambda>_. True) (xpool x) (Inr \<lparr>IDList = [], rr_Type = ''random'', Count = 3\<rparr>)
     = CreateResponse SuccessCode (Inr (min 3 (GetCount (xpool x)), detail)) \<and> card (dom (map_of detail)) = min 3 (GetCount (xpool x))"
proof -
  obtain x where x: "reachable ok_manager (xfer_init (\<lambda>_. demo_conn) NewConfig) x" "phases x 0 = Running ''agent''"
    using admitted_run[of ok_manager "Inr (Inr \<lparr>Status = 200, Msg = ''ok'', au_TenantID = 7, au_HostID = 9\<rparr>)" 7 9
        "\<lambda>_. demo_conn"] by (auto simp: ok_manager_def connAuth_def)
  show ?thesis using ConnReset_random[OF x(1), of 3 "\<lambda>_. True" "[]"] x(2) by (intro exI[of _ x]) (simp, blast)
qed

end
