(* ===== verification/Baseline.thy ===== *)
theory Baseline
  imports GoStrings
begin

text \<open>
  The rule engine of the baseline plugin (\<open>plugins/baseline/src/check\<close>).  A check is a list of rules
  with a condition; a rule calls one of the rule functions and compares its value with the result
  written in the configuration.  The host the rules look at is a parameter: what the files contain,
  what \<open>stat\<close> and the commands return, the MD5 of a file, and the regular expressions of the
  configuration, given by \<open>Compile\<close>, which returns the submatches of the first match, if any.  A panic
  is \<^const>\<open>None\<close>; a Go \<open>(bool, error)\<close> is a pair with an error text.
\<close>

section \<open>Data\<close>

datatype val = VNil | VBool bool | VInt int | VStr string | VOther

record RuleStruct =
  rs_Type :: string
  Param :: "string list"
  Filter :: string
  Require :: string
  Result :: val

record BaselineCheck =
  Condition :: string
  Rules :: "RuleStruct list"

record CheckInfo =
  CheckId :: int
  ch_Type :: string
  Title :: string
  TitleCn :: string
  Description :: string
  Solution :: string
  Security :: string
  TypeCn :: string
  DescriptionCn :: string
  SolutionCn :: string
  Check :: BaselineCheck

record BaselineInfo =
  BaselineId :: int
  BaselineVersion :: string
  CheckList :: "CheckInfo list"

record RetCheckInfo =
  ret_CheckId :: int
  ret_Security :: string
  ret_Type :: string
  ret_Title :: string
  ret_Description :: string
  ret_Solution :: string
  ret_TypeCn :: string
  ret_TitleCn :: string
  ret_DescriptionCn :: string
  ret_SolutionCn :: string
  ret_Result :: int
  ret_Msg :: string

record RetBaselineInfo =
  rb_BaselineId :: int
  rb_BaselineVersion :: string
  rb_Status :: string
  rb_Msg :: string
  rb_CheckList :: "RetCheckInfo list"

record TaskData =
  td_BaselineId :: int
  td_CheckIdList :: "int list"

text \<open>
  The host: opening a file fails with a text or gives the lines a scanner reads from it; \<open>stat\<close> gives
  mode, user and group; a command succeeds with its output or fails; a configuration file is absent,
  does not decode or holds a baseline.
\<close>

record host =
  Open :: "string \<Rightarrow> string + string list"
  Stat :: "string \<Rightarrow> string + (nat \<times> nat \<times> nat)"
  Output :: "string list \<Rightarrow> string option"
  Md5 :: "string \<Rightarrow> string + string"
  Compile :: "string \<Rightarrow> string + (string \<Rightarrow> string list)"
  Yaml :: "string \<Rightarrow> (string + BaselineInfo) option"

definition bl_SuccessCode :: int where "bl_SuccessCode = 1"
definition FailCode :: int where "FailCode = 2"
definition ErrorCode :: int where "ErrorCode = -1"
definition ErrorConfigWrite :: int where "ErrorConfigWrite = -2"
definition ErrorFile :: int where "ErrorFile = -3"

section \<open>Matching results\<close>

definition StringMatch :: "host \<Rightarrow> string \<Rightarrow> string \<Rightarrow> string \<times> bool \<times> string option" where
  "StringMatch h str reg =
     (case Compile h reg of
        Inl err \<Rightarrow> ([], False, Some err)
      | Inr submatches \<Rightarrow>
          (case submatches str of
             [] \<Rightarrow> ([], False, None)
           | [_] \<Rightarrow> ([], True, None)
           | _ # sub # _ \<Rightarrow> (sub, True, None)))"

definition operator_reg :: string where
  "operator_reg = [CHR 0x5C, CHR ''$'', CHR 0x5C, CHR ''('', CHR ''('', CHR ''.'', CHR ''+'', CHR '')'', CHR 0x5C, CHR '')'']"

definition compare_op :: "string \<Rightarrow> int \<Rightarrow> int \<Rightarrow> bool" where
  "compare_op operator a b =
     (if operator = ''<'' then a < b else if operator = ''<='' then a \<le> b
      else if operator = ''>'' then b < a else if operator = ''>='' then b \<le> a else False)"

definition coded :: "int \<Rightarrow> string \<Rightarrow> string" where
  "coded code txt = Itoa code @ '':'' @ txt"

definition atoi_error :: "string \<Rightarrow> string option" where
  "atoi_error s = map_option (ParseInt_Error s) (snd (Atoi s))"

text \<open>
  The slice \<open>ruleRes[len(operator)+3:]\<close> is in range, since the match is longer than the operator by
  three; the error of the first conversion is overwritten by the second one.
\<close>

definition DealMathCompute :: "host \<Rightarrow> val \<Rightarrow> string \<Rightarrow> bool \<times> string option" where
  "DealMathCompute h funcRes ruleRes =
     (case StringMatch h ruleRes operator_reg of
        (operator, ifMatch, err) \<Rightarrow>
          if ifMatch then
            let rule = drop (length operator + 3) ruleRes;
                ruleInt = fst (Atoi rule)
            in case funcRes of
                 VInt n \<Rightarrow> (compare_op operator n ruleInt, atoi_error rule)
               | VStr s \<Rightarrow>
                   if snd (Atoi s) \<noteq> None then (False, Some (coded ErrorConfigWrite (''need get num,but get '' @ s)))
                   else (compare_op operator (fst (Atoi s)) ruleInt, None)
               | _ \<Rightarrow> (False, Some (coded ErrorConfigWrite ''need get num,but get unkown type''))
          else (False, err))"

text \<open>The loop over the subrules of a string result; \<open>s\<close> is the value as a string.\<close>

fun subrules :: "host \<Rightarrow> string \<Rightarrow> string \<Rightarrow> string list \<Rightarrow> string option \<Rightarrow> bool \<times> string option" where
  "subrules h s subStr [] err = (True, err)"
| "subrules h s subStr (rule0 # rest) err0 =
     (let reverse = HasPrefix rule0 ''$(not)'';
          rule = (if reverse then drop 6 rule0 else rule0)
      in if HasPrefix rule ''$('' then
           (case DealMathCompute h (VStr (if subStr \<noteq> [] then subStr else s)) rule of
              (_, Some err) \<Rightarrow> (False, Some err)
            | (ifPass, None) \<Rightarrow>
                if (if reverse then \<not> ifPass else ifPass) then subrules h s subStr rest None else (False, None))
         else
           (case StringMatch h s rule of
              (_, ifPass, err) \<Rightarrow>
                if (if reverse then \<not> ifPass else ifPass) then subrules h s subStr rest err else (False, err)))"

definition match_string :: "host \<Rightarrow> RuleStruct \<Rightarrow> string \<Rightarrow> string \<Rightarrow> bool \<times> string option" where
  "match_string h rs ruleString s =
     (let arr = (if Contains ruleString ''$(&&)'' then Split ruleString ''$(&&)'' else [ruleString])
      in if Filter rs \<noteq> [] then
           (case StringMatch h s (Filter rs) of
              (subStr, ifMatch, err) \<Rightarrow>
                if err \<noteq> None \<or> \<not> ifMatch
                then (False, Some (coded ErrorConfigWrite (''rule filter error : funcRes:'' @ s @ '', rule:'' @ Filter rs)))
                else subrules h s subStr arr None)
         else subrules h s [] arr None)"

text \<open>\<open>reflect.TypeOf(nil).Kind()\<close> panics; a result of another type than bool, int or string passes.\<close>

definition ResultMatch :: "host \<Rightarrow> RuleStruct \<Rightarrow> val \<Rightarrow> (bool \<times> string option) option" where
  "ResultMatch h rs funcRes =
     (if funcRes = VNil then None
      else Some (case (if Result rs = VNil then VBool True else Result rs) of
        VBool b \<Rightarrow>
          (case funcRes of
             VBool r \<Rightarrow> (b = r, None)
           | _ \<Rightarrow> (False, Some (coded ErrorConfigWrite ''rule is bool, but get other type'')))
      | VInt n \<Rightarrow>
          (case funcRes of
             VStr s \<Rightarrow> if snd (Atoi s) = None then (n = fst (Atoi s), None)
                       else (False, Some (coded ErrorConfigWrite (''rule is int,but get string : '' @ s)))
           | VInt r \<Rightarrow> (n = r, None)
           | _ \<Rightarrow> (False, Some (coded ErrorConfigWrite ''rule is int, but get other type'')))
      | VStr ruleString \<Rightarrow>
          (case funcRes of
             VInt r \<Rightarrow> match_string h rs ruleString (Itoa r)
           | VStr s \<Rightarrow> match_string h rs ruleString s
           | VBool r \<Rightarrow> (r, None)
           | _ \<Rightarrow> (False, Some (coded ErrorConfigWrite ''rule is string, but get other type'')))
      | _ \<Rightarrow> (True, None)))"

section \<open>Rule functions\<close>

definition CommandCheck :: "host \<Rightarrow> string list \<Rightarrow> val \<times> string option" where
  "CommandCheck h param =
     (if length param = 1 \<or> length param = 2 then
        let special = (if length param = 2 then param ! 1 else [])
        in case Output h (Split (param ! 0) '' '') of
             None \<Rightarrow> (VBool (special = ''ignore_exit''), None)
           | Some buf \<Rightarrow> (VStr buf, None)
      else (VStr [], Some (coded ErrorConfigWrite ''command_check params num error'')))"

definition IfFileExist :: "host \<Rightarrow> string list \<Rightarrow> val \<times> string option" where
  "IfFileExist h param =
     (case param of
        [filePath] \<Rightarrow> (case Stat h filePath of Inl _ \<Rightarrow> (VBool False, None) | Inr _ \<Rightarrow> (VBool True, None))
      | _ \<Rightarrow> (VStr [], Some (coded ErrorConfigWrite ''if_file_exist params num error'')))"

definition open_lines :: "host \<Rightarrow> string \<Rightarrow> string list" where
  "open_lines h path = (case Open h path of Inl _ \<Rightarrow> [] | Inr ls \<Rightarrow> ls)"

definition ssh_passwd_line :: "string \<Rightarrow> bool" where
  "ssh_passwd_line text =
     (let line = TrimSpace text
      in \<not> (2 < length line \<and> take 1 line = ''#'') \<and> Contains line ''PasswordAuthentication'' \<and> Contains line ''yes'')"

definition IfAllowSshPasswd :: "host \<Rightarrow> bool" where
  "IfAllowSshPasswd h = list_ex ssh_passwd_line (open_lines h ''/etc/ssh/sshd_config'')"

definition line_selected :: "string \<Rightarrow> string \<Rightarrow> string \<Rightarrow> bool" where
  "line_selected note flag text =
     (let line = TrimSpace text
      in \<not> (length note < length line \<and> take (length note) line = note) \<and> (flag \<noteq> [] \<longrightarrow> Contains line flag))"

fun scan_lines :: "host \<Rightarrow> RuleStruct \<Rightarrow> string \<Rightarrow> string \<Rightarrow> string list \<Rightarrow> bool" where
  "scan_lines h rs note flag [] = False"
| "scan_lines h rs note flag (text # rest) =
     (if \<not> line_selected note flag text then scan_lines h rs note flag rest
      else (case ResultMatch h rs (VStr text) of
              Some (True, _) \<Rightarrow> True
            | _ \<Rightarrow> scan_lines h rs note flag rest))"

text \<open>\<open>Param[0]\<close> is read without a check of the length.\<close>

definition FileLineCheck :: "host \<Rightarrow> RuleStruct \<Rightarrow> (bool \<times> string option) option" where
  "FileLineCheck h rs =
     (if Require rs = ''allow_ssh_passwd'' \<and> \<not> IfAllowSshPasswd h then Some (True, None)
      else case Param rs of
        [] \<Rightarrow> None
      | filePath # rest \<Rightarrow>
          let flag = (case rest of [] \<Rightarrow> [] | f # _ \<Rightarrow> f);
              note = (case rest of _ # n # _ \<Rightarrow> n | _ \<Rightarrow> ''#'')
          in Some (case Open h filePath of
               Inl err \<Rightarrow> if Contains err ''no such'' then (False, None)
                          else (False, Some (coded ErrorFile (''open file '' @ filePath @ '' Error '' @ err)))
             | Inr ls \<Rightarrow> (scan_lines h rs note flag ls, None)))"

fun octal :: "nat \<Rightarrow> string" where
  "octal n = (if n < 8 then [digit_char n] else octal (n div 8) @ [digit_char (n mod 8)])"

declare octal.simps [simp del]

definition FilePermission :: "host \<Rightarrow> string list \<Rightarrow> bool \<times> string option" where
  "FilePermission h param =
     (if length param < 2 then (False, Some ''FilePermission param length need at least 2'')
      else if snd (Atoi (param ! 1)) \<noteq> None then (False, atoi_error (param ! 1))
      else (case Stat h (param ! 0) of
              Inl err \<Rightarrow> if Contains err ''no such file'' then (True, None) else (False, Some err)
            | Inr (mode, _, _) \<Rightarrow>
                if snd (Atoi (octal mode)) \<noteq> None then (False, atoi_error (octal mode))
                else (fst (Atoi (octal mode)) < fst (Atoi (param ! 1)), None)))"

definition FileUserGroup :: "host \<Rightarrow> string list \<Rightarrow> bool \<times> string option" where
  "FileUserGroup h param =
     (if length param < 2 then (False, Some ''FileUserGroup param length need at least 2'')
      else (case Split (param ! 1) '':'' of
              [userNeedId, groupNeedId] \<Rightarrow>
                (case Stat h (param ! 0) of
                   Inl err \<Rightarrow> (False, Some err)
                 | Inr (_, uid, gid) \<Rightarrow> (userNeedId = nat_digits uid \<and> groupNeedId = nat_digits gid, None))
            | _ \<Rightarrow> (False, Some ''file_user_group rule wrong!'')))"

text \<open>\<open>Md5\<close> fails when the file cannot be read; that it cannot be opened is told by \<open>Open\<close>.\<close>

definition FileMd5Check :: "host \<Rightarrow> string list \<Rightarrow> bool \<times> string option" where
  "FileMd5Check h param =
     (if length param < 2 then (False, Some ''file_md5_check param length need at least 2'')
      else (case Open h (param ! 0) of
              Inl _ \<Rightarrow> (False, Some (''file_md5_check : no file find '' @ param ! 0))
            | Inr _ \<Rightarrow> (case Md5 h (param ! 0) of
                          Inl err \<Rightarrow> (False, Some err)
                        | Inr digest \<Rightarrow> (param ! 1 = digest, None))))"

fun duplicate_loop :: "string list \<Rightarrow> string list \<Rightarrow> bool" where
  "duplicate_loop seen [] = True"
| "duplicate_loop seen (text # rest) =
     (case Cut text '':'' of
        None \<Rightarrow> duplicate_loop seen rest
      | Some (username, _) \<Rightarrow> if username \<in> set seen then False else duplicate_loop (username # seen) rest)"

definition IfDuplicateUser :: "host \<Rightarrow> bool" where
  "IfDuplicateUser h = duplicate_loop [] (open_lines h ''/etc/passwd'')"

definition FuncCheck :: "host \<Rightarrow> string list \<Rightarrow> val \<times> string option" where
  "FuncCheck h param =
     (if length param < 1 then (VStr [], Some (coded ErrorConfigWrite ''command_check params num error''))
      else (VBool (if param ! 0 = ''Ensure no duplicate user names exist'' then IfDuplicateUser h else False), None))"

section \<open>Rules and checks\<close>

definition rule_value :: "host \<Rightarrow> RuleStruct \<Rightarrow> (val \<times> string option) option" where
  "rule_value h rs =
     (let bool_res = (\<lambda>(b, err). (VBool b, err)); t = rs_Type rs
      in if t = ''command_check'' then Some (CommandCheck h (Param rs))
         else if t = ''if_file_exist'' then Some (IfFileExist h (Param rs))
         else if t = ''file_permission'' then Some (bool_res (FilePermission h (Param rs)))
         else if t = ''file_user_group'' then Some (bool_res (FileUserGroup h (Param rs)))
         else if t = ''file_line_check'' then map_option bool_res (FileLineCheck h rs)
         else if t = ''func_check'' then Some (FuncCheck h (Param rs))
         else if t = ''file_md5_check'' then Some (bool_res (FileMd5Check h (Param rs)))
         else Some (VNil, Some (coded ErrorConfigWrite (''unknown rule type:'' @ t))))"

definition CheckRule :: "host \<Rightarrow> RuleStruct \<Rightarrow> (bool \<times> string option) option" where
  "CheckRule h rs =
     (case rule_value h rs of
        None \<Rightarrow> None
      | Some (_, Some err) \<Rightarrow> Some (False, Some err)
      | Some (funcRes, None) \<Rightarrow>
          if rs_Type rs = ''file_line_check'' then Some (funcRes = VBool True, None)
          else (case ResultMatch h rs funcRes of
                  None \<Rightarrow> None
                | Some (_, Some err) \<Rightarrow> Some (False, Some err)
                | Some (ifPass, None) \<Rightarrow> Some (ifPass, None)))"

fun rules_loop :: "host \<Rightarrow> string \<Rightarrow> RuleStruct list \<Rightarrow> (bool \<times> string option) option" where
  "rules_loop h condition [] = Some (condition \<noteq> ''any'', None)"
| "rules_loop h condition (rule # rest) =
     (case CheckRule h rule of
        None \<Rightarrow> None
      | Some (_, Some err) \<Rightarrow> Some (False, Some err)
      | Some (ifCheck, None) \<Rightarrow>
          if ifCheck \<and> condition = ''any'' then Some (True, None)
          else if ifCheck \<and> condition = ''none'' then Some (False, None)
          else if \<not> ifCheck \<and> condition = ''all'' then Some (False, None)
          else rules_loop h condition rest)"

definition AnalysisRule :: "host \<Rightarrow> BaselineCheck \<Rightarrow> (bool \<times> string option) option" where
  "AnalysisRule h check = rules_loop h (if Condition check = [] then ''all'' else Condition check) (Rules check)"

text \<open>\<open>BindYaml\<close> returns the outer, still nil error when the file cannot be opened.\<close>

definition empty_baseline :: BaselineInfo where
  "empty_baseline = \<lparr>BaselineId = 0, BaselineVersion = [], CheckList = []\<rparr>"

definition BindYaml :: "host \<Rightarrow> string \<Rightarrow> string + BaselineInfo" where
  "BindYaml h filePath =
     (case Yaml h filePath of None \<Rightarrow> Inr empty_baseline | Some (Inl err) \<Rightarrow> Inl err | Some (Inr b) \<Rightarrow> Inr b)"

definition getBaselineConfigData :: "host \<Rightarrow> int \<Rightarrow> string + BaselineInfo" where
  "getBaselineConfigData h baselineId =
     BindYaml h (if baselineId < 6000 then ''config/linux/'' @ Itoa baselineId @ ''.yaml''
                 else ''config/container/'' @ Itoa baselineId @ ''.yaml'')"

text \<open>The result of one check; \<open>err.Error()[:2]\<close> and \<open>[3:]\<close> panic on a shorter text.\<close>

definition check_result :: "host \<Rightarrow> CheckInfo \<Rightarrow> (int \<times> string) option" where
  "check_result h c =
     (case AnalysisRule h (Check c) of
        None \<Rightarrow> None
      | Some (ifPass, None) \<Rightarrow> Some (if ifPass then bl_SuccessCode else FailCode, [])
      | Some (_, Some err) \<Rightarrow>
          if length err < 2 then None
          else let errCode = fst (Atoi (take 2 err))
               in if errCode = ErrorFile \<or> errCode = ErrorConfigWrite
                  then (if length err < 3 then None else Some (errCode, drop 3 err))
                  else Some (ErrorCode, err))"

definition ret_check :: "CheckInfo \<Rightarrow> int \<times> string \<Rightarrow> RetCheckInfo" where
  "ret_check c = (\<lambda>(res, msg).
     \<lparr>ret_CheckId = CheckId c, ret_Security = Security c, ret_Type = ch_Type c, ret_Title = Title c,
      ret_Description = Description c, ret_Solution = Solution c, ret_TypeCn = TypeCn c, ret_TitleCn = TitleCn c,
      ret_DescriptionCn = DescriptionCn c, ret_SolutionCn = SolutionCn c, ret_Result = res, ret_Msg = msg\<rparr>)"

fun check_loop :: "host \<Rightarrow> int list \<Rightarrow> CheckInfo list \<Rightarrow> RetCheckInfo list option" where
  "check_loop h ids [] = Some []"
| "check_loop h ids (c # cs) =
     (if ids \<noteq> [] \<and> CheckId c \<notin> set ids then check_loop h ids cs
      else case check_result h c of
        None \<Rightarrow> None
      | Some r \<Rightarrow> map_option ((#) (ret_check c r)) (check_loop h ids cs))"

definition AnalysisBaseline :: "host \<Rightarrow> TaskData \<Rightarrow> (RetBaselineInfo \<times> string option) option" where
  "AnalysisBaseline h td =
     (let ret = \<lparr>rb_BaselineId = td_BaselineId td, rb_BaselineVersion = [], rb_Status = [], rb_Msg = [], rb_CheckList = []\<rparr>
      in case getBaselineConfigData h (td_BaselineId td) of
           Inl err \<Rightarrow> Some (ret, Some err)
         | Inr info \<Rightarrow>
             map_option (\<lambda>rs. (ret\<lparr>rb_BaselineVersion := BaselineVersion info, rb_CheckList := rs\<rparr>, None))
               (check_loop h (td_CheckIdList td) (CheckList info)))"

text \<open>\<open>Analysis\<close> gets a baseline id from the daily job, or the outcome of decoding a task's data.\<close>

definition Analysis :: "host \<Rightarrow> int + (string + TaskData) \<Rightarrow> (RetBaselineInfo \<times> string option) option" where
  "Analysis h data =
     (let run = (\<lambda>td. map_option (\<lambda>(ret, err).
            case err of
              Some e \<Rightarrow> (ret\<lparr>rb_Status := ''error'', rb_Msg := e\<rparr>, err)
            | None \<Rightarrow> (ret\<lparr>rb_Status := ''success''\<rparr>, err)) (AnalysisBaseline h td))
      in case data of
           Inl i \<Rightarrow> run \<lparr>td_BaselineId = i, td_CheckIdList = []\<rparr>
         | Inr (Inl e) \<Rightarrow>
             Some (\<lparr>rb_BaselineId = 0, rb_BaselineVersion = [], rb_Status = ''error'', rb_Msg = e, rb_CheckList = []\<rparr>, Some e)
         | Inr (Inr td) \<Rightarrow> run td)"

section \<open>Conditions\<close>

lemma rules_loop_all:
  "rules_loop h ''all'' rules = Some (True, None) \<longleftrightarrow> (\<forall>r \<in> set rules. CheckRule h r = Some (True, None))"
  by (induction rules) (auto split: option.splits prod.splits)

lemma rules_loop_none:
  "rules_loop h ''none'' rules = Some (True, None) \<longleftrightarrow> (\<forall>r \<in> set rules. CheckRule h r = Some (False, None))"
  by (induction rules) (auto split: option.splits prod.splits)

definition first_passes :: "host \<Rightarrow> RuleStruct list \<Rightarrow> bool" where
  "first_passes h rules \<longleftrightarrow> (\<exists>pre r post. rules = pre @ r # post \<and> CheckRule h r = Some (True, None)
     \<and> (\<forall>p \<in> set pre. CheckRule h p = Some (False, None)))"

lemma first_passes_Cons:
  "first_passes h (r # rules) \<longleftrightarrow> CheckRule h r = Some (True, None) \<or> CheckRule h r = Some (False, None) \<and> first_passes h rules"
proof
  assume "first_passes h (r # rules)"
  then obtain pre s post where p: "r # rules = pre @ s # post" "CheckRule h s = Some (True, None)"
    "\<forall>p \<in> set pre. CheckRule h p = Some (False, None)" unfolding first_passes_def by blast
  show "CheckRule h r = Some (True, None) \<or> CheckRule h r = Some (False, None) \<and> first_passes h rules"
  proof (cases pre)
    case Nil
    then show ?thesis using p by simp
  next
    case (Cons q pre')
    then have "rules = pre' @ s # post" "CheckRule h r = Some (False, None)" using p by auto
    then show ?thesis using p Cons unfolding first_passes_def by auto
  qed
next
  assume "CheckRule h r = Some (True, None) \<or> CheckRule h r = Some (False, None) \<and> first_passes h rules"
  then show "first_passes h (r # rules)"
  proof
    assume "CheckRule h r = Some (True, None)"
    moreover have "r # rules = [] @ r # rules" by simp
    ultimately show ?thesis unfolding first_passes_def by (metis empty_iff empty_set)
  next
    assume f: "CheckRule h r = Some (False, None) \<and> first_passes h rules"
    then obtain pre s post where p: "rules = pre @ s # post" "CheckRule h s = Some (True, None)"
      "\<forall>p \<in> set pre. CheckRule h p = Some (False, None)" unfolding first_passes_def by blast
    then have "r # rules = (r # pre) @ s # post" "\<forall>p \<in> set (r # pre). CheckRule h p = Some (False, None)" using f by simp_all
    then show ?thesis using p(2) unfolding first_passes_def by blast
  qed
qed

lemma rules_loop_any: "rules_loop h ''any'' rules = Some (True, None) \<longleftrightarrow> first_passes h rules"
proof (induction rules)
  case Nil
  then show ?case by (simp add: first_passes_def)
next
  case (Cons r rules)
  then show ?case by (auto simp: first_passes_Cons split: option.splits prod.splits)
qed

text \<open>
  C20. A check passes without an error exactly as its condition says: under \<open>all\<close>, and when no
  condition is given, if every rule passes; under \<open>none\<close> if every rule is evaluated and fails, none of them with an error; under
  \<open>any\<close> if some rule passes and those before it fail without an error.  The rules are tried in order, and one that ends in an error ends the check
  unless it was decided before: under \<open>any\<close> a rule behind it that matches, and under \<open>none\<close> that nothing matches, do not count.
\<close>

theorem AnalysisRule_conditions:
  "(Condition c \<in> {[], ''all''} \<longrightarrow>
      (AnalysisRule h c = Some (True, None) \<longleftrightarrow> (\<forall>r \<in> set (Rules c). CheckRule h r = Some (True, None))))
   \<and> (Condition c = ''none'' \<longrightarrow>
      (AnalysisRule h c = Some (True, None) \<longleftrightarrow> (\<forall>r \<in> set (Rules c). CheckRule h r = Some (False, None))))
   \<and> (Condition c = ''any'' \<longrightarrow>
      (AnalysisRule h c = Some (True, None) \<longleftrightarrow>
        (\<exists>pre r post. Rules c = pre @ r # post \<and> CheckRule h r = Some (True, None)
           \<and> (\<forall>p \<in> set pre. CheckRule h p = Some (False, None)))))"
  unfolding first_passes_def[symmetric] by (simp add: AnalysisRule_def rules_loop_all rules_loop_none rules_loop_any)

definition demo_host :: host where
  "demo_host = \<lparr>Open = (\<lambda>_. Inl ''no such file''),
     Stat = (\<lambda>p. if p = ''/a'' then Inr (63, 0, 0) else Inl ''no such file''),
     Output = (\<lambda>_. None), Md5 = (\<lambda>_. Inl []),
     Compile = (\<lambda>r. Inr (\<lambda>s. if r = operator_reg \<and> s = ''$(<=)90'' then [''$(<=)'', ''<=''] else [])),
     Yaml = (\<lambda>p. if p = ''config/linux/7.yaml'' then Some (Inr \<lparr>BaselineId = 7, BaselineVersion = ''1'',
        CheckList = [\<lparr>CheckId = 1, ch_Type = [], Title = [], TitleCn = [], Description = [], Solution = [],
           Security = [], TypeCn = [], DescriptionCn = [], SolutionCn = [],
           Check = \<lparr>Condition = ''all'', Rules = [\<lparr>rs_Type = ''if_file_exist'', Param = [''/a''], Filter = [], Require = [], Result = VNil\<rparr>]\<rparr>\<rparr>]\<rparr>)
        else None)\<rparr>"

definition exists_rule :: "string \<Rightarrow> RuleStruct" where
  "exists_rule p = \<lparr>rs_Type = ''if_file_exist'', Param = [p], Filter = [], Require = [], Result = VNil\<rparr>"

lemma AnalysisRule_conditions_witness:
  "AnalysisRule demo_host \<lparr>Condition = ''any'', Rules = [exists_rule ''/b'', exists_rule ''/a'']\<rparr> = Some (True, None)
   \<and> AnalysisRule demo_host \<lparr>Condition = [], Rules = [exists_rule ''/b'', exists_rule ''/a'']\<rparr> \<noteq> Some (True, None)"
proof -
  have r: "CheckRule demo_host (exists_rule ''/a'') = Some (True, None)" "CheckRule demo_host (exists_rule ''/b'') = Some (False, None)"
    by (simp_all add: CheckRule_def rule_value_def exists_rule_def IfFileExist_def demo_host_def ResultMatch_def)
  have "[exists_rule ''/b'', exists_rule ''/a''] = [exists_rule ''/b''] @ exists_rule ''/a'' # []" by simp
  then have "AnalysisRule demo_host \<lparr>Condition = ''any'', Rules = [exists_rule ''/b'', exists_rule ''/a'']\<rparr> = Some (True, None)"
    using AnalysisRule_conditions[of "\<lparr>Condition = ''any'', Rules = [exists_rule ''/b'', exists_rule ''/a'']\<rparr>" demo_host] r
    by (metis BaselineCheck.select_convs(1,2) empty_iff empty_set set_ConsD)
  then show ?thesis
    using AnalysisRule_conditions[of "\<lparr>Condition = [], Rules = [exists_rule ''/b'', exists_rule ''/a'']\<rparr>" demo_host] r by simp
qed

section \<open>Numbers\<close>

lemma Cut_None: "sep = x # xs \<Longrightarrow> x \<notin> set s \<Longrightarrow> Cut s sep = None"
  by (induction s) (auto simp: HasPrefix_def)

lemma Itoa_no_dollar: "CHR ''$'' \<notin> set (Itoa i)"
proof -
  have "\<not> is_digit (CHR ''$'')" by (simp add: is_digit_def)
  then show ?thesis using nat_digits_all[of "nat i"] nat_digits_all[of "nat (- i)"]
    by (auto simp: Itoa_def list_all_iff)
qed

lemma number_rule_parts:
  assumes "op \<in> {''<'', ''<='', ''>'', ''>=''}"
  shows "\<not> Contains (''$('' @ op @ '')'' @ Itoa m) ''$(&&)''" "HasPrefix (''$('' @ op @ '')'' @ Itoa m) ''$(''"
    "\<not> HasPrefix (''$('' @ op @ '')'' @ Itoa m) ''$(not)''"
  using assms Cut_None[of "''$(&&)''" "CHR ''$''" "''(&&)''" "Itoa m"] Itoa_no_dollar[of m]
  by (auto simp: Contains_def HasPrefix_def)

text \<open>
  A relational rule compares numbers: with a rule result \<open>$(op)m\<close> and no filter, the value \<open>n\<close>,
  given as a number or as its decimal text, passes exactly when \<open>n op m\<close> holds, for all 64-bit \<open>n\<close>
  and \<open>m\<close>.  The regular expression for the operator is taken to capture what is between the parentheses.
\<close>

theorem ResultMatch_number:
  assumes "Compile h operator_reg = Inr submatches" "submatches (''$('' @ op @ '')'' @ Itoa m) = [''$('' @ op @ '')'', op]"
    and "op \<in> {''<'', ''<='', ''>'', ''>=''}" "Filter rs = []" "Result rs = VStr (''$('' @ op @ '')'' @ Itoa m)"
    and "- (2 ^ 63) \<le> n" "n < 2 ^ 63" "- (2 ^ 63) \<le> m" "m < 2 ^ 63" "v \<in> {VInt n, VStr (Itoa n)}"
  shows "ResultMatch h rs v = Some
    (op = ''<'' \<and> n < m \<or> op = ''<='' \<and> n \<le> m \<or> op = ''>'' \<and> n > m \<or> op = ''>='' \<and> n \<ge> m, None)"
proof -
  define rule where "rule = ''$('' @ op @ '')'' @ Itoa m"
  note parts = number_rule_parts[OF assms(3), of m, folded rule_def]
  have "StringMatch h rule operator_reg = (op, True, None)"
    using assms(1,2) by (simp add: StringMatch_def rule_def)
  moreover have "drop (length op + 3) rule = Itoa m" by (simp add: rule_def numeral_3_eq_3)
  ultimately have "DealMathCompute h (VStr (Itoa n)) rule = (compare_op op n m, None)"
    using ParseInt_Itoa[OF assms(6,7)] ParseInt_Itoa[OF assms(8,9)] by (simp add: DealMathCompute_def)
  then have "match_string h rs rule (Itoa n) = (compare_op op n m, None)"
    using parts assms(4) by (simp add: match_string_def)
  then have "ResultMatch h rs v = Some (compare_op op n m, None)"
    using assms(5,10)[folded rule_def] by (auto simp: ResultMatch_def)
  then show ?thesis using assms(3) by (auto simp: compare_op_def)
qed

lemma ResultMatch_number_witness:
  "ResultMatch demo_host \<lparr>rs_Type = [], Param = [], Filter = [], Require = [], Result = VStr ''$(<=)90''\<rparr> (VStr ''90'') = Some (True, None)"
proof -
  have i: "Itoa 90 = ''90''" by code_simp
  let ?f = "\<lambda>s. if s = ''$(<=)90'' then [''$(<=)'', ''<=''] else []"
  have "Compile demo_host operator_reg = Inr ?f" by (simp add: demo_host_def)
  from ResultMatch_number[OF this, of "''<=''" 90 "\<lparr>rs_Type = [], Param = [], Filter = [], Require = [], Result = VStr ''$(<=)90''\<rparr>" 90 "VStr ''90''"]
  show ?thesis using i by simp
qed

section \<open>Reports\<close>

lemma check_result_sound:
  "check_result h c = Some (res, msg) \<Longrightarrow>
     res \<in> {1, 2, -1, -2, -3} \<and> (res = 1 \<longleftrightarrow> AnalysisRule h (Check c) = Some (True, None))
     \<and> (res = 2 \<longleftrightarrow> AnalysisRule h (Check c) = Some (False, None))"
  by (auto simp: check_result_def bl_SuccessCode_def FailCode_def ErrorCode_def ErrorFile_def ErrorConfigWrite_def Let_def
      split: option.splits prod.splits if_splits)

text \<open>
  An analysis without an error reports on exactly the selected checks of the baseline, in their
  order: all of them if the task names none, and those it names otherwise.  The code of a check is 1
  exactly when it passed, 2 exactly when it failed without an error, and one of the error codes
  otherwise.
\<close>

theorem AnalysisBaseline_reports:
  assumes "AnalysisBaseline h td = Some (ret, None)" "getBaselineConfigData h (td_BaselineId td) = Inr info"
  shows "list_all2 (\<lambda>c r. ret_CheckId r = CheckId c \<and> ret_Result r \<in> {1, 2, -1, -2, -3}
        \<and> (ret_Result r = 1 \<longleftrightarrow> AnalysisRule h (Check c) = Some (True, None))
        \<and> (ret_Result r = 2 \<longleftrightarrow> AnalysisRule h (Check c) = Some (False, None)))
      (filter (\<lambda>c. td_CheckIdList td = [] \<or> CheckId c \<in> set (td_CheckIdList td)) (CheckList info))
      (rb_CheckList ret)"
proof -
  have "check_loop h ids cs = Some rs \<Longrightarrow> list_all2 (\<lambda>c r. ret_CheckId r = CheckId c \<and> ret_Result r \<in> {1, 2, -1, -2, -3}
        \<and> (ret_Result r = 1 \<longleftrightarrow> AnalysisRule h (Check c) = Some (True, None))
        \<and> (ret_Result r = 2 \<longleftrightarrow> AnalysisRule h (Check c) = Some (False, None)))
      (filter (\<lambda>c. ids = [] \<or> CheckId c \<in> set ids) cs) rs" for ids cs rs
  proof (induction cs arbitrary: rs)
    case (Cons c cs)
    show ?case
    proof (cases "ids = [] \<or> CheckId c \<in> set ids")
      case True
      then obtain res msg rs' where "check_result h c = Some (res, msg)" "check_loop h ids cs = Some rs'"
        "rs = ret_check c (res, msg) # rs'" using Cons.prems by (auto split: option.splits)
      then show ?thesis using Cons.IH[of rs'] check_result_sound[of h c res msg] True by (auto simp: ret_check_def)
    next
      case False
      then show ?thesis using Cons by simp
    qed
  qed simp
  then show ?thesis using assms by (auto simp: AnalysisBaseline_def Let_def)
qed

lemma AnalysisBaseline_reports_witness:
  "\<exists>ret. AnalysisBaseline demo_host \<lparr>td_BaselineId = 7, td_CheckIdList = [1, 5]\<rparr> = Some (ret, None)
     \<and> map (\<lambda>r. (ret_CheckId r, ret_Result r)) (rb_CheckList ret) = [(1, 1)]"
proof -
  let ?td = "\<lparr>td_BaselineId = 7, td_CheckIdList = [1, 5]\<rparr>"
  have "Itoa 7 = ''7''" by code_simp
  then obtain info c where i: "getBaselineConfigData demo_host 7 = Inr info" "CheckList info = [c]" "CheckId c = 1"
    "Check c = \<lparr>Condition = ''all'', Rules = [exists_rule ''/a'']\<rparr>"
    by (auto simp: getBaselineConfigData_def BindYaml_def demo_host_def exists_rule_def)
  have a: "AnalysisRule demo_host (Check c) = Some (True, None)"
    by (simp add: i(4) AnalysisRule_def CheckRule_def rule_value_def exists_rule_def IfFileExist_def demo_host_def ResultMatch_def)
  then obtain ret where r: "AnalysisBaseline demo_host ?td = Some (ret, None)"
    using i by (simp add: AnalysisBaseline_def check_result_def)
  have "list_all2 (\<lambda>c r. ret_CheckId r = CheckId c \<and> (ret_Result r = 1 \<longleftrightarrow> AnalysisRule demo_host (Check c) = Some (True, None)))
      [c] (rb_CheckList ret)"
    using AnalysisBaseline_reports[OF r] i by (auto elim: list_all2_mono)
  then show ?thesis using r a i(3) by (auto simp: list_all2_Cons1)
qed

text \<open>
  A baseline without a configuration file is reported as a success: the error of opening the file
  is lost, and the analysis ends with status \<open>success\<close>, no error and no checks.
\<close>

theorem missing_baseline_succeeds:
  assumes "Yaml h (if i < 6000 then ''config/linux/'' @ Itoa i @ ''.yaml'' else ''config/container/'' @ Itoa i @ ''.yaml'') = None"
  shows "Analysis h (Inl i) = Some (\<lparr>rb_BaselineId = i, rb_BaselineVersion = [], rb_Status = ''success'', rb_Msg = [],
    rb_CheckList = []\<rparr>, None)"
  using assms
  by (cases "i < 6000")
    (simp_all add: Analysis_def AnalysisBaseline_def getBaselineConfigData_def BindYaml_def empty_baseline_def Let_def)

lemma missing_baseline_succeeds_witness:
  "Analysis demo_host (Inl 8) = Some (\<lparr>rb_BaselineId = 8, rb_BaselineVersion = [], rb_Status = ''success'', rb_Msg = [],
    rb_CheckList = []\<rparr>, None)"
proof -
  have "Itoa 8 = ''8''" by code_simp
  then have "Yaml demo_host (''config/linux/'' @ Itoa 8 @ ''.yaml'') = None" by (simp add: demo_host_def)
  then show ?thesis using missing_baseline_succeeds[of demo_host 8] by simp
qed

text \<open>
  The permission check compares modes as numbers: a file that anybody may read, write and
  execute (mode 077) passes a requirement of 644, and a file with mode 644 does not.
\<close>

theorem FilePermission_numeric:
  "FilePermission (h\<lparr>Stat := \<lambda>_. Inr (63, u, g)\<rparr>) [f, ''644''] = (True, None)
   \<and> FilePermission (h\<lparr>Stat := \<lambda>_. Inr (420, u, g)\<rparr>) [f, ''644''] = (False, None)"
proof -
  have d: "digit_char 7 = CHR ''7''" "digit_char 6 = CHR ''6''" "digit_char 4 = CHR ''4''" by code_simp+
  have o: "octal 63 = ''77''" "octal 420 = ''644''"
    by (simp_all add: octal.simps[of 63] octal.simps[of 7] octal.simps[of 420] octal.simps[of 52] octal.simps[of 6] d)
  have "Itoa 77 = ''77''" "Itoa 644 = ''644''"
    by (simp_all add: Itoa_def nat_digits.simps[of 77] nat_digits.simps[of 7] nat_digits.simps[of 644]
        nat_digits.simps[of 64] nat_digits.simps[of 6] d)
  then have "Atoi ''77'' = (77, None)" "Atoi ''644'' = (644, None)"
    using ParseInt_Itoa[of 77] ParseInt_Itoa[of 644] by simp_all
  then show ?thesis using o by (simp add: FilePermission_def)
qed

end
