(* ===== verification/AgentPlugins.thy ===== *)
theory AgentPlugins
  imports AgentBuffer GoStrings
begin

text \<open>
  The agent's side of the stream (\<open>agent/transport\<close>) and its plugin manager (\<open>agent/plugin\<close>).  The
  manager keeps the plugins by name; a command of the server either carries a task or the list of the
  plugins that should run, which the plugin daemon then loads and removes.  What the host does is a
  parameter: whether the executable of a plugin has the right signature, downloading it, starting
  it.  The three goroutines of a started plugin also assign to the error \<open>Load\<close> returns; they are taken
  to do so after it has returned.
\<close>

section \<open>Plugins\<close>

record proto_Config =
  cfg_Name :: string
  cfg_Type :: string
  cfg_Version :: string
  cfg_Sha256 :: string
  cfg_Signature :: string
  cfg_DownloadUrls :: "string list"
  cfg_Detail :: string

text \<open>\<open>exited\<close> is that \<open>cmd.ProcessState\<close> is set.\<close>

record Plugin =
  plg_Config :: proto_Config
  exited :: bool
  was_shutdown :: bool

record plugin_host =
  CheckSignature :: "proto_Config \<Rightarrow> bool"
  Download :: "proto_Config \<Rightarrow> string option"
  Spawn :: "proto_Config \<Rightarrow> string option"
  PathMatch :: "string \<Rightarrow> bool \<times> string option"

type_synonym plugins = "(string, Plugin) gomap"

text \<open>\<open>Shutdown\<close> returns once the process is gone, killed after ten seconds if need be.\<close>

definition Shutdown :: "Plugin \<Rightarrow> Plugin" where
  "Shutdown p = p\<lparr>was_shutdown := True, exited := True\<rparr>"

definition name_char :: "char \<Rightarrow> bool" where
  "name_char c = (let n = of_char c :: nat
     in 48 \<le> n \<and> n \<le> 57 \<or> 65 \<le> n \<and> n \<le> 90 \<or> 97 \<le> n \<and> n \<le> 122 \<or> n = 95 \<or> n = 45)"

text \<open>
  The regular expression is anchored and \<open>QuoteMeta\<close> only adds backslashes, which it does not match;
  an empty name matches with the empty string, which counts as no match.
\<close>

definition valid_name :: "string \<Rightarrow> bool" where
  "valid_name s \<longleftrightarrow> s \<noteq> [] \<and> list_all name_char s"

datatype load_error = ErrDuplicatePlugin | LoadErr string

text \<open>The part of \<open>Load\<close> after a running plugin of another version was shut down.\<close>

definition load_rest :: "plugin_host \<Rightarrow> plugins \<Rightarrow> proto_Config \<Rightarrow> Plugin option \<times> load_error option \<times> plugins" where
  "load_rest h m config0 =
     (let config = (if cfg_Signature config0 = [] then config0\<lparr>cfg_Signature := cfg_Sha256 config0\<rparr> else config0);
          (match, match_err) = PathMatch h (cfg_Name config)
      in if \<not> match then (None, map_option LoadErr match_err, m)
         else case (if CheckSignature h config then None else Download h config) of
           Some err \<Rightarrow> (None, Some (LoadErr err), m)
         | None \<Rightarrow>
             (case Spawn h config of
                Some err \<Rightarrow> (None, Some (LoadErr err), m)
              | None \<Rightarrow>
                  let plg = \<lparr>plg_Config = config, exited = False, was_shutdown = False\<rparr>
                  in (Some plg, None, mput m (cfg_Name config) plg)))"

definition Load :: "plugin_host \<Rightarrow> plugins \<Rightarrow> proto_Config \<Rightarrow> Plugin option \<times> load_error option \<times> plugins" where
  "Load h m config =
     (let name = cfg_Name config
      in if \<not> valid_name name then (None, Some (LoadErr (''invalid config name: '' @ name)), m)
         else case map_of m name of
           Some p \<Rightarrow>
             if cfg_Version (plg_Config p) = cfg_Version config \<and> \<not> exited p then (None, Some ErrDuplicatePlugin, m)
             else load_rest h (if \<not> exited p then mput m name (Shutdown p) else m) config
         | None \<Rightarrow> load_rest h m config)"

definition GetAll :: "plugins \<Rightarrow> Plugin list" where
  "GetAll m = map snd m"

section \<open>Synchronising\<close>

text \<open>
  The agent: its plugins, the pending configurations (capacity 1), the errors it reports and the
  plugins whose directories were deleted.  \<open>currentState\<close> is abnormal exactly when there are errors.
\<close>

record agent =
  plugs :: plugins
  syncCh :: "(string, proto_Config) gomap list"
  abnormalErrs :: "string list"
  removed :: "string list"

definition SetRunning :: "agent \<Rightarrow> agent" where
  "SetRunning a = a\<lparr>abnormalErrs := []\<rparr>"

definition SetAbnormal :: "string \<Rightarrow> agent \<Rightarrow> agent" where
  "SetAbnormal err a = a\<lparr>abnormalErrs := abnormalErrs a @ [err]\<rparr>"

definition Sync :: "(string, proto_Config) gomap \<Rightarrow> agent \<Rightarrow> string option \<times> agent" where
  "Sync cfgs a =
     (case chan_try_send 1 (syncCh a) cfgs of
        Some ch \<Rightarrow> (None, a\<lparr>syncCh := ch\<rparr>)
      | None \<Rightarrow> (Some ''plugins are syncing or context has been cancled'', a))"

text \<open>
  The loading loop of the daemon.  \<^const>\<open>None\<close> is the panic of logging through a \<open>nil\<close> plugin, when \<open>Load\<close>
  returns neither a plugin nor an error.
\<close>

fun load_all :: "plugin_host \<Rightarrow> string \<Rightarrow> proto_Config list \<Rightarrow> agent \<Rightarrow> agent option" where
  "load_all h product [] a = Some a"
| "load_all h product (cfg # cfgs) a =
     (if cfg_Name cfg = product then load_all h product cfgs a
      else case Load h (plugs a) cfg of
        (_, Some ErrDuplicatePlugin, m) \<Rightarrow> load_all h product cfgs (a\<lparr>plugs := m\<rparr>)
      | (_, Some (LoadErr err), m) \<Rightarrow>
          load_all h product cfgs (SetAbnormal (''load plugin '' @ cfg_Name cfg @ '' failed: '' @ err) (a\<lparr>plugs := m\<rparr>))
      | (None, None, m) \<Rightarrow> None
      | (Some _, None, m) \<Rightarrow> load_all h product cfgs (a\<lparr>plugs := m\<rparr>))"

text \<open>The removing loop: a plugin without a configuration is shut down and its directory deleted.\<close>

fun remove_all :: "(string, proto_Config) gomap \<Rightarrow> Plugin list \<Rightarrow> agent \<Rightarrow> agent" where
  "remove_all cfgs [] a = a"
| "remove_all cfgs (p # ps) a =
     (let name = cfg_Name (plg_Config p)
      in if map_of cfgs name = None
         then remove_all cfgs ps (a\<lparr>plugs := mdel (plugs a) name, removed := removed a @ [name]\<rparr>)
         else remove_all cfgs ps a)"

text \<open>A round of \<open>Startup\<close> on the next configuration.\<close>

definition sync_round :: "plugin_host \<Rightarrow> string \<Rightarrow> agent \<Rightarrow> agent option" where
  "sync_round h product a =
     (case syncCh a of
        [] \<Rightarrow> Some a
      | cfgs # ch \<Rightarrow>
          map_option (\<lambda>b. remove_all cfgs (GetAll (plugs b)) b)
            (load_all h product (map snd cfgs) (a\<lparr>syncCh := ch\<rparr>)))"

text \<open>When the context is cancelled all plugins are shut down and forgotten.\<close>

definition startup_cancel :: "agent \<Rightarrow> agent" where
  "startup_cancel a = a\<lparr>plugs := []\<rparr>"

text \<open>The process of a plugin ends by itself or by \<open>Shutdown\<close>; only the former is reported.\<close>

definition plugin_exits :: "string \<Rightarrow> int \<Rightarrow> agent \<Rightarrow> agent" where
  "plugin_exits n code a =
     (case map_of (plugs a) n of
        None \<Rightarrow> a
      | Some p \<Rightarrow>
          let a' = a\<lparr>plugs := mput (plugs a) n (p\<lparr>exited := True\<rparr>)\<rparr>
          in if was_shutdown p then a'
             else SetAbnormal (''plugin '' @ n @ '' exited with code '' @ Itoa code @ '' unexpectedly'') a')"

section \<open>Sending and connecting\<close>

text \<open>
  A tick of \<open>handleSend\<close>, given whether \<open>client.Send\<close> succeeds: the records of the package, the number
  counted as sent and the buffer afterwards; \<^const>\<open>None\<close> is the panic on a \<open>nil\<close> record.
\<close>

fun put_all :: "EncodedRecord option list \<Rightarrow> pools \<Rightarrow> pools option" where
  "put_all [] ps = Some ps"
| "put_all (r # rs) ps = (case PutEncodedRecord ps r of None \<Rightarrow> None | Some ps' \<Rightarrow> put_all rs ps')"

definition handleSend_tick :: "bool \<Rightarrow> buffer_state \<Rightarrow> (EncodedRecord option list \<times> nat \<times> buffer_state) option" where
  "handleSend_tick sent st =
     (let (recs, st') = ReadEncodedRecords st
      in if length recs = 0 then Some ([], 0, st')
         else map_option (\<lambda>ps. (recs, if sent then length recs else 0, st'\<lparr>bpools := ps\<rparr>)) (put_all recs (bpools st')))"

datatype connectivity = Ready | Connecting | Idle | TransientFailure | ShutdownState

text \<open>The stored connection and the counter of its reuses; \<open>state\<close> is what \<open>GetState\<close> reports.\<close>

record conn_store =
  conn :: "nat option"
  retries :: int
  closed :: "nat set"
  NetMode :: string

definition GetConnection :: "(nat \<Rightarrow> connectivity) \<Rightarrow> string + nat \<Rightarrow> conn_store \<Rightarrow> (string + nat) \<times> conn_store" where
  "GetConnection state dial s =
     (let redial = (\<lambda>s. case dial of
              Inr c \<Rightarrow> (Inr c, s\<lparr>conn := Some c, NetMode := ''public'', retries := 0\<rparr>)
            | Inl err \<Rightarrow> (Inl err, s));
          close = (\<lambda>c s. s\<lparr>closed := insert c (closed s)\<rparr>);
          reuse = (\<lambda>c. let s' = s\<lparr>retries := wrap32 (retries s + 1)\<rparr>
                       in if retries s' > 5 then redial (close c s') else (Inr c, s'))
      in case conn s of
           None \<Rightarrow> redial s
         | Some c \<Rightarrow>
             (case (if c \<in> closed s then ShutdownState else state c) of
                Ready \<Rightarrow> reuse c
              | Connecting \<Rightarrow> redial (close c s)
              | Idle \<Rightarrow> reuse c
              | TransientFailure \<Rightarrow> redial (close c s)
              | ShutdownState \<Rightarrow> redial s))"

text \<open>
  The outer loop of \<open>startTransfer\<close> on the successive outcomes of \<open>GetConnection\<close>, none of them cut off by
  the context: how many of them it consumes before it gives up, if it does.
\<close>

fun transfer_loop :: "nat \<Rightarrow> bool list \<Rightarrow> nat option" where
  "transfer_loop r [] = None"
| "transfer_loop r (got # rest) =
     (if \<not> got then (if r > 5 then Some 1 else map_option Suc (transfer_loop (Suc r) rest))
      else map_option Suc (transfer_loop 0 rest))"

section \<open>Commands\<close>

record agent_task =
  at_DataType :: int
  at_ObjectName :: string
  at_Data :: string
  at_Token :: string

record agent_command =
  ac_Task :: "agent_task option"
  ac_Configs :: "proto_Config list"

text \<open>
  What the command handler meets: its product and version, the regions it knows, the outcome of
  decoding an upload request and the metadata of a task, of the control program, of updating the agent, and whether a
  plugin's task goroutine is ready to take a task.
\<close>

record receive_env =
  Product :: string
  Version :: string
  LookupRegion :: "string \<Rightarrow> bool"
  DecodeUpload :: "string \<Rightarrow> bool"
  DecodeMeta :: "string \<Rightarrow> (string, json) gomap option"
  Control :: "string \<Rightarrow> bool"
  Update :: "proto_Config \<Rightarrow> string option"
  TaskReady :: "Plugin \<Rightarrow> bool"

record transport =
  ag :: agent
  IDC :: string
  Region :: string
  cancelled :: bool
  uploads :: "(string \<times> string) list"
  delivered :: "(string \<times> agent_task) list"

definition set_metadata :: "receive_env \<Rightarrow> (string, json) gomap \<Rightarrow> transport \<Rightarrow> transport" where
  "set_metadata e req t =
     (let t1 = (case map_of req ''idc'' of
                  Some (JStr idc) \<Rightarrow> if Control e (''--idc='' @ idc) then t\<lparr>IDC := idc\<rparr> else t
                | _ \<Rightarrow> t)
      in case map_of req ''region'' of
           Some (JStr region) \<Rightarrow>
             if LookupRegion e region \<and> Control e (''--region='' @ region) then t1\<lparr>Region := region\<rparr> else t1
         | _ \<Rightarrow> t1)"

text \<open>A task for the agent itself; the result tells whether the handler goes on receiving.\<close>

definition agent_task_step :: "receive_env \<Rightarrow> agent_task \<Rightarrow> transport \<Rightarrow> bool \<times> transport" where
  "agent_task_step e task t =
     (if at_DataType task = 1050 then
        (True, if DecodeUpload e (at_Data task) then t\<lparr>uploads := uploads t @ [(at_Data task, at_Token task)]\<rparr> else t)
      else if at_DataType task = 1051 then
        (True, case DecodeMeta e (at_Data task) of None \<Rightarrow> t | Some req \<Rightarrow> set_metadata e req t)
      else if at_DataType task = 1060 then (False, t\<lparr>cancelled := True\<rparr>)
      else (True, t))"

definition SendTask :: "receive_env \<Rightarrow> agent_task \<Rightarrow> transport \<Rightarrow> transport" where
  "SendTask e task t =
     (case map_of (plugs (ag t)) (at_ObjectName task) of
        None \<Rightarrow> t
      | Some p \<Rightarrow> if TaskReady e p then t\<lparr>delivered := delivered t @ [(at_ObjectName task, task)]\<rparr> else t)"

definition config_map :: "proto_Config list \<Rightarrow> (string, proto_Config) gomap" where
  "config_map cs = foldl (\<lambda>m c. mput m (cfg_Name c) c) [] cs"

definition handleReceive_round :: "receive_env \<Rightarrow> agent_command \<Rightarrow> transport \<Rightarrow> bool \<times> transport" where
  "handleReceive_round e cmd t =
     (case ac_Task cmd of
        Some task \<Rightarrow>
          if at_ObjectName task = Product e then agent_task_step e task t else (True, SendTask e task t)
      | None \<Rightarrow>
          let a = SetRunning (ag t);
              cfgs = config_map (ac_Configs cmd);
              sync = (\<lambda>a. (True, t\<lparr>ag := snd (Sync (mdel cfgs (Product e)) a)\<rparr>))
          in case map_of cfgs (Product e) of
               Some cfg \<Rightarrow>
                 if cfg_Version cfg \<noteq> Version e then
                   (case Update e cfg of
                      None \<Rightarrow> (False, t\<lparr>ag := a, cancelled := True\<rparr>)
                    | Some err \<Rightarrow> sync (SetAbnormal (''agent update failed: '' @ err) a))
                 else sync a
             | None \<Rightarrow> sync a)"

section \<open>Synchronising brings up the configured plugins\<close>

definition wf_plugins :: "plugins \<Rightarrow> bool" where
  "wf_plugins m \<longleftrightarrow> wf_gomap m \<and> (\<forall>n p. map_of m n = Some p \<longrightarrow> cfg_Name (plg_Config p) = n)"

definition running :: "plugins \<Rightarrow> string \<Rightarrow> string \<Rightarrow> bool" where
  "running m n v \<longleftrightarrow> (\<exists>p. map_of m n = Some p \<and> \<not> exited p \<and> cfg_Version (plg_Config p) = v)"

text \<open>A host on which every executable is there or can be had, and starts.\<close>

definition good_host :: "plugin_host \<Rightarrow> bool" where
  "good_host h \<longleftrightarrow> (\<forall>c. PathMatch h (cfg_Name c) = (True, None) \<and> (CheckSignature h c \<or> Download h c = None) \<and> Spawn h c = None)"

lemma load_rest_good:
  assumes "good_host h" "wf_plugins m"
  shows "\<exists>plg m'. load_rest h m c = (Some plg, None, m') \<and> wf_plugins m' \<and> running m' (cfg_Name c) (cfg_Version c)
    \<and> (\<forall>n. n \<noteq> cfg_Name c \<longrightarrow> map_of m' n = map_of m n)"
proof -
  define c' where "c' = (if cfg_Signature c = [] then c\<lparr>cfg_Signature := cfg_Sha256 c\<rparr> else c)"
  have n: "cfg_Name c' = cfg_Name c" "cfg_Version c' = cfg_Version c" by (simp_all add: c'_def)
  have g: "PathMatch h (cfg_Name c') = (True, None)" "CheckSignature h c' \<or> Download h c' = None" "Spawn h c' = None"
    using assms(1) by (simp_all add: good_host_def)
  define plg where "plg = \<lparr>plg_Config = c', exited = False, was_shutdown = False\<rparr>"
  have "load_rest h m c = (Some plg, None, mput m (cfg_Name c') plg)"
    using g by (auto simp: load_rest_def c'_def[symmetric] plg_def Let_def)
  moreover have "wf_plugins (mput m (cfg_Name c') plg)" using assms(2) by (simp add: wf_plugins_def plg_def)
  ultimately show ?thesis using n by (simp add: running_def plg_def)
qed

lemma Load_good:
  assumes "good_host h" "wf_plugins m" "valid_name (cfg_Name c)"
  shows "\<exists>plg err m'. Load h m c = (plg, err, m') \<and> (err = None \<and> plg \<noteq> None \<or> err = Some ErrDuplicatePlugin)
    \<and> wf_plugins m' \<and> running m' (cfg_Name c) (cfg_Version c) \<and> (\<forall>n. n \<noteq> cfg_Name c \<longrightarrow> map_of m' n = map_of m n)"
proof (cases "map_of m (cfg_Name c)")
  case None
  then show ?thesis using load_rest_good[OF assms(1,2), of c] assms(3) by (auto simp: Load_def)
next
  case (Some p)
  show ?thesis
  proof (cases "cfg_Version (plg_Config p) = cfg_Version c \<and> \<not> exited p")
    case True
    then show ?thesis using Some assms by (auto simp: Load_def running_def)
  next
    case False
    define m1 where "m1 = (if \<not> exited p then mput m (cfg_Name c) (Shutdown p) else m)"
    have "wf_plugins m1" using assms(2) Some by (auto simp: m1_def wf_plugins_def Shutdown_def)
    from load_rest_good[OF assms(1) this, of c] obtain plg m' where
      l: "load_rest h m1 c = (Some plg, None, m')" "wf_plugins m'" "running m' (cfg_Name c) (cfg_Version c)"
        "\<forall>n. n \<noteq> cfg_Name c \<longrightarrow> map_of m' n = map_of m1 n" by blast
    have "Load h m c = (Some plg, None, m')" using Some False assms(3) l(1) by (simp add: Load_def m1_def)
    moreover have "\<forall>n. n \<noteq> cfg_Name c \<longrightarrow> map_of m1 n = map_of m n" by (simp add: m1_def)
    ultimately show ?thesis using l(2-4) by auto
  qed
qed

lemma load_all_good:
  assumes "good_host h" "\<forall>c \<in> set cs. valid_name (cfg_Name c) \<and> cfg_Name c \<noteq> product" "distinct (map cfg_Name cs)"
  shows "wf_plugins (plugs a) \<Longrightarrow> \<exists>b. load_all h product cs a = Some b \<and> wf_plugins (plugs b)
    \<and> (\<forall>c \<in> set cs. running (plugs b) (cfg_Name c) (cfg_Version c))
    \<and> (\<forall>n. n \<notin> cfg_Name ` set cs \<longrightarrow> map_of (plugs b) n = map_of (plugs a) n)
    \<and> abnormalErrs b = abnormalErrs a \<and> syncCh b = syncCh a"
  using assms(2,3)
proof (induction cs arbitrary: a)
  case (Cons c cs)
  obtain plg err m' where l: "Load h (plugs a) c = (plg, err, m')" "err = None \<and> plg \<noteq> None \<or> err = Some ErrDuplicatePlugin"
    "wf_plugins m'" "running m' (cfg_Name c) (cfg_Version c)" "\<forall>n. n \<noteq> cfg_Name c \<longrightarrow> map_of m' n = map_of (plugs a) n"
    using Load_good[OF assms(1) Cons.prems(1), of c] Cons.prems(2) by auto
  have "load_all h product (c # cs) a = load_all h product cs (a\<lparr>plugs := m'\<rparr>)"
    using l(1,2) Cons.prems(2) by (cases plg) auto
  moreover obtain b where b: "load_all h product cs (a\<lparr>plugs := m'\<rparr>) = Some b" "wf_plugins (plugs b)"
    "\<forall>c \<in> set cs. running (plugs b) (cfg_Name c) (cfg_Version c)"
    "\<forall>n. n \<notin> cfg_Name ` set cs \<longrightarrow> map_of (plugs b) n = map_of m' n" "abnormalErrs b = abnormalErrs a" "syncCh b = syncCh a"
    using Cons.IH[of "a\<lparr>plugs := m'\<rparr>"] l(3) Cons.prems(2,3) by auto
  moreover have "running (plugs b) (cfg_Name c) (cfg_Version c)"
    using l(4) b(4) Cons.prems(3) by (simp add: running_def)
  ultimately show ?case using l(5) by auto
qed simp

lemma remove_all_plugs:
  "map_of (plugs (remove_all cfgs ps a)) n =
     (if map_of cfgs n = None \<and> n \<in> (\<lambda>p. cfg_Name (plg_Config p)) ` set ps then None else map_of (plugs a) n)"
  "abnormalErrs (remove_all cfgs ps a) = abnormalErrs a" "syncCh (remove_all cfgs ps a) = syncCh a"
  "wf_gomap (plugs a) \<Longrightarrow> wf_gomap (plugs (remove_all cfgs ps a))"
  by (induction ps arbitrary: a) (auto simp: Let_def)

lemma sync_converges:
  assumes "good_host h" "wf_plugins (plugs a)" "syncCh a = cfgs # ch"
    and "wf_gomap cfgs" "\<forall>n c. map_of cfgs n = Some c \<longrightarrow> cfg_Name c = n \<and> valid_name n \<and> n \<noteq> product"
  shows "\<exists>b. sync_round h product a = Some b \<and> wf_plugins (plugs b) \<and> abnormalErrs b = abnormalErrs a \<and> syncCh b = ch
    \<and> (\<forall>n. case map_of cfgs n of None \<Rightarrow> map_of (plugs b) n = None | Some c \<Rightarrow> running (plugs b) n (cfg_Version c))"
proof -
  have k: "map_of cfgs n = Some c \<longleftrightarrow> (n, c) \<in> set cfgs" for n c using map_of_Some_iff[OF assms(4)] by blast
  then have names: "map cfg_Name (map snd cfgs) = map fst cfgs" using assms(5) by auto
  have p1: "\<forall>c \<in> set (map snd cfgs). valid_name (cfg_Name c) \<and> cfg_Name c \<noteq> product"
  proof
    fix c
    assume "c \<in> set (map snd cfgs)"
    then obtain n where "map_of cfgs n = Some c" using k by auto
    then show "valid_name (cfg_Name c) \<and> cfg_Name c \<noteq> product" using assms(5) by blast
  qed
  have p2: "distinct (map cfg_Name (map snd cfgs))" using assms(4) by (simp only: names)
  have p3: "wf_plugins (plugs (a\<lparr>syncCh := ch\<rparr>))" using assms(2) by simp
  obtain b where b: "load_all h product (map snd cfgs) (a\<lparr>syncCh := ch\<rparr>) = Some b" "wf_plugins (plugs b)"
    "\<forall>c \<in> set (map snd cfgs). running (plugs b) (cfg_Name c) (cfg_Version c)" "abnormalErrs b = abnormalErrs a" "syncCh b = ch"
    using load_all_good[OF assms(1) p1 p2 p3] by auto
  define b' where "b' = remove_all cfgs (GetAll (plugs b)) b"
  have g: "map_of (plugs b') n = (if map_of cfgs n = None \<and> n \<in> (\<lambda>p. cfg_Name (plg_Config p)) ` set (GetAll (plugs b)) then None
      else map_of (plugs b) n)" for n
    unfolding b'_def by (rule remove_all_plugs(1))
  have "n \<in> (\<lambda>p. cfg_Name (plg_Config p)) ` set (GetAll (plugs b))" if m: "map_of (plugs b) n = Some p" for n p
  proof (rule image_eqI)
    show "n = cfg_Name (plg_Config p)" using b(2) m unfolding wf_plugins_def by blast
    show "p \<in> set (GetAll (plugs b))" using map_of_SomeD[OF m] by (auto simp: GetAll_def intro: rev_image_eqI)
  qed
  then have none: "map_of (plugs b') n = None" if "map_of cfgs n = None" for n
    using g[of n] that by (cases "map_of (plugs b) n") auto
  have some: "running (plugs b') n (cfg_Version c)" if "map_of cfgs n = Some c" for n c
  proof -
    have "(n, c) \<in> set cfgs" using that k by blast
    then have "c \<in> set (map snd cfgs)" by (auto intro: rev_image_eqI)
    moreover have "cfg_Name c = n" using that assms(5) by blast
    moreover have "map_of (plugs b') n = map_of (plugs b) n" using g[of n] that by simp
    ultimately show ?thesis using b(3) unfolding running_def by auto
  qed
  have "wf_plugins (plugs b')" using b(2) g remove_all_plugs(4)[of b cfgs "GetAll (plugs b)"]
    by (auto simp: wf_plugins_def b'_def[symmetric] split: if_splits)
  then show ?thesis using assms(3) b none some remove_all_plugs(2,3)[of cfgs "GetAll (plugs b)" b]
    by (intro exI[of _ b']) (auto simp: sync_round_def b'_def[symmetric] split: option.splits)
qed

definition entries_of :: "proto_Config set \<Rightarrow> (string, proto_Config) gomap \<Rightarrow> bool" where
  "entries_of S m \<longleftrightarrow> wf_gomap m \<and> (\<forall>n c. map_of m n = Some c \<longrightarrow> cfg_Name c = n \<and> c \<in> S)"

lemma entries_of_mput: "entries_of S m \<Longrightarrow> c \<in> S \<Longrightarrow> entries_of S (mput m (cfg_Name c) c)"
  unfolding entries_of_def by (metis fun_upd_apply map_of_mput option.inject wf_mput)

lemma config_map_entries: "entries_of (set cs) (config_map cs)"
proof -
  have "entries_of S m \<Longrightarrow> set cs \<subseteq> S \<Longrightarrow> entries_of S (foldl (\<lambda>m c. mput m (cfg_Name c) c) m cs)" for S m
    by (induction cs arbitrary: m) (simp_all add: entries_of_mput)
  moreover have "entries_of (set cs) []" by (simp add: entries_of_def)
  ultimately show ?thesis by (simp add: config_map_def)
qed

text \<open>
  C16. A command with configurations and without a task is carried out: if the daemon has no earlier one waiting,
  the host can provide every executable (its signature is right or it can be downloaded, and it can be started), the names are valid and the command does not
  ask for another version of the agent itself, then after its next round the agent runs a plugin exactly
  for each name the command lists, other than the agent's own, in the version of the last entry with
  that name; all other plugins are gone and no error is reported.
\<close>

theorem config_command_applied:
  assumes "good_host h" "wf_plugins (plugs (ag t))" "syncCh (ag t) = []" "ac_Task cmd = None"
    and "\<forall>c \<in> set (ac_Configs cmd). valid_name (cfg_Name c) \<and> (cfg_Name c = Product e \<longrightarrow> cfg_Version c = Version e)"
  shows "\<exists>t' a. handleReceive_round e cmd t = (True, t') \<and> sync_round h (Product e) (ag t') = Some a
    \<and> wf_plugins (plugs a) \<and> abnormalErrs a = []
    \<and> (\<forall>n. case map_of (mdel (config_map (ac_Configs cmd)) (Product e)) n of
           None \<Rightarrow> map_of (plugs a) n = None | Some c \<Rightarrow> running (plugs a) n (cfg_Version c))"
proof -
  let ?cfgs = "mdel (config_map (ac_Configs cmd)) (Product e)"
  have cm: "wf_gomap (config_map (ac_Configs cmd))"
    and ce: "\<And>n c. map_of (config_map (ac_Configs cmd)) n = Some c \<Longrightarrow> cfg_Name c = n \<and> c \<in> set (ac_Configs cmd)"
    using config_map_entries[of "ac_Configs cmd"] unfolding entries_of_def by blast+
  define t' where "t' = t\<lparr>ag := (SetRunning (ag t))\<lparr>syncCh := [?cfgs]\<rparr>\<rparr>"
  have h: "handleReceive_round e cmd t = (True, t')"
  proof (cases "map_of (config_map (ac_Configs cmd)) (Product e)")
    case None
    then show ?thesis using assms(3,4)
      by (simp add: handleReceive_round_def Let_def Sync_def SetRunning_def chan_try_send_def t'_def)
  next
    case (Some c)
    then have "cfg_Version c = Version e" using ce assms(5) by blast
    then show ?thesis using Some assms(3,4)
      by (simp add: handleReceive_round_def Let_def Sync_def SetRunning_def chan_try_send_def t'_def)
  qed
  have "cfg_Name c = n \<and> valid_name n \<and> n \<noteq> Product e" if "map_of ?cfgs n = Some c" for n c
  proof -
    have "n \<noteq> Product e" "map_of (config_map (ac_Configs cmd)) n = Some c" using that by (simp_all split: if_splits)
    then show ?thesis using ce assms(5) by blast
  qed
  then have "wf_gomap ?cfgs" "\<forall>n c. map_of ?cfgs n = Some c \<longrightarrow> cfg_Name c = n \<and> valid_name n \<and> n \<noteq> Product e"
    using cm by (simp_all only: wf_mdel) blast
  moreover have "wf_plugins (plugs (ag t'))" "syncCh (ag t') = ?cfgs # []" "abnormalErrs (ag t') = []"
    using assms(2) by (simp_all add: t'_def SetRunning_def)
  ultimately obtain b where "sync_round h (Product e) (ag t') = Some b" "wf_plugins (plugs b)" "abnormalErrs b = []"
    "\<forall>n. case map_of ?cfgs n of None \<Rightarrow> map_of (plugs b) n = None | Some c \<Rightarrow> running (plugs b) n (cfg_Version c)"
    using sync_converges[OF assms(1), of "ag t'" ?cfgs "[]" "Product e"] by metis
  then show ?thesis using h by blast
qed

definition easy_host :: plugin_host where
  "easy_host = \<lparr>CheckSignature = (\<lambda>_. True), Download = (\<lambda>_. None), Spawn = (\<lambda>_. None), PathMatch = (\<lambda>_. (True, None))\<rparr>"

definition demo_cfg :: "string \<Rightarrow> proto_Config" where
  "demo_cfg v = \<lparr>cfg_Name = ''driver'', cfg_Type = [], cfg_Version = v, cfg_Sha256 = ''a'', cfg_Signature = [],
     cfg_DownloadUrls = [], cfg_Detail = []\<rparr>"

definition demo_plugin :: Plugin where
  "demo_plugin = \<lparr>plg_Config = demo_cfg ''1'', exited = False, was_shutdown = False\<rparr>"

definition demo_transport :: transport where
  "demo_transport = \<lparr>ag = \<lparr>plugs = [(''driver'', demo_plugin)], syncCh = [], abnormalErrs = [], removed = []\<rparr>,
     IDC = [], Region = [], cancelled = False, uploads = [], delivered = []\<rparr>"

definition demo_renv :: receive_env where
  "demo_renv = \<lparr>Product = ''agent'', Version = ''1'', LookupRegion = (\<lambda>_. False), DecodeUpload = (\<lambda>_. True), DecodeMeta = (\<lambda>_. None),
     Control = (\<lambda>_. True), Update = (\<lambda>_. None), TaskReady = (\<lambda>_. True)\<rparr>"

lemma config_command_applied_witness:
  "\<exists>t' a. handleReceive_round demo_renv \<lparr>ac_Task = None, ac_Configs = [demo_cfg ''2'']\<rparr> demo_transport = (True, t')
     \<and> sync_round easy_host ''agent'' (ag t') = Some a \<and> running (plugs a) ''driver'' ''2''"
proof -
  have "good_host easy_host" by (simp add: good_host_def easy_host_def)
  moreover have "valid_name ''driver''" by code_simp
  moreover have "wf_plugins (plugs (ag demo_transport))"
    by (simp add: wf_plugins_def demo_transport_def demo_plugin_def demo_cfg_def)
  moreover have "map_of (mdel (config_map [demo_cfg ''2'']) ''agent'') ''driver'' = Some (demo_cfg ''2'')"
    by (simp add: config_map_def demo_cfg_def)
  moreover have "\<forall>c \<in> set [demo_cfg ''2'']. valid_name (cfg_Name c) \<and> (cfg_Name c = Product demo_renv \<longrightarrow> cfg_Version c = Version demo_renv)"
    using calculation(2) by (simp add: demo_cfg_def demo_renv_def)
  moreover have "syncCh (ag demo_transport) = []" "Product demo_renv = ''agent''"
    by (simp_all add: demo_transport_def demo_renv_def)
  ultimately obtain t' a where r: "handleReceive_round demo_renv \<lparr>ac_Task = None, ac_Configs = [demo_cfg ''2'']\<rparr> demo_transport = (True, t')"
      "sync_round easy_host ''agent'' (ag t') = Some a"
      "case map_of (mdel (config_map [demo_cfg ''2'']) ''agent'') ''driver'' of
           None \<Rightarrow> map_of (plugs a) ''driver'' = None | Some c \<Rightarrow> running (plugs a) ''driver'' (cfg_Version c)"
    using config_command_applied[of easy_host demo_transport "\<lparr>ac_Task = None, ac_Configs = [demo_cfg ''2'']\<rparr>" demo_renv]
    by (metis agent_command.select_convs(1,2))
  then have "running (plugs a) ''driver'' ''2''" by (simp add: config_map_def demo_cfg_def)
  then show ?thesis using r(1,2) by blast
qed

text \<open>
  A failing upgrade leaves the host without the plugin: the running version is shut down before
  the new one is downloaded, so that when the download fails the plugin is down, still listed with the
  old version, and the error is reported.
\<close>

theorem failed_upgrade_stops_plugin:
  assumes "map_of (plugs a) n = Some p" "\<not> exited p" "cfg_Version (plg_Config p) \<noteq> cfg_Version c"
    and "cfg_Name c = n" "valid_name n" "n \<noteq> product" "syncCh a = [[(n, c)]]"
    and "PathMatch h n = (True, None)" "\<forall>c. \<not> CheckSignature h c \<and> Download h c = Some err"
  shows "\<exists>b. sync_round h product a = Some b \<and> map_of (plugs b) n = Some (Shutdown p) \<and> exited (Shutdown p)
    \<and> abnormalErrs b = abnormalErrs a @ [''load plugin '' @ n @ '' failed: '' @ err]"
proof -
  have "load_rest h m c = (None, Some (LoadErr err), m)" for m
    using assms(4,8,9) by (auto simp: load_rest_def Let_def)
  then have "Load h (plugs a) c = (None, Some (LoadErr err), mput (plugs a) n (Shutdown p))"
    using assms by (simp add: Load_def)
  then have "load_all h product [c] (a\<lparr>syncCh := []\<rparr>)
      = Some (SetAbnormal (''load plugin '' @ n @ '' failed: '' @ err) (a\<lparr>syncCh := [], plugs := mput (plugs a) n (Shutdown p)\<rparr>))"
    using assms(4,6) by simp
  then show ?thesis using assms(7)
    by (auto simp: sync_round_def remove_all_plugs SetAbnormal_def Shutdown_def)
qed

lemma failed_upgrade_stops_plugin_witness:
  "\<exists>b. sync_round \<lparr>CheckSignature = (\<lambda>_. False), Download = (\<lambda>_. Some ''timeout''), Spawn = (\<lambda>_. None), PathMatch = (\<lambda>_. (True, None))\<rparr>
      ''agent'' \<lparr>plugs = [(''driver'', demo_plugin)], syncCh = [[(''driver'', demo_cfg ''2'')]], abnormalErrs = [], removed = []\<rparr> = Some b
    \<and> map_of (plugs b) ''driver'' = Some (Shutdown demo_plugin)"
proof -
  have "valid_name ''driver''" by code_simp
  then show ?thesis
    using failed_upgrade_stops_plugin[of "\<lparr>plugs = [(''driver'', demo_plugin)], syncCh = [[(''driver'', demo_cfg ''2'')]],
        abnormalErrs = [], removed = []\<rparr>" "''driver''" demo_plugin "demo_cfg ''2''" "''agent''"
        "\<lparr>CheckSignature = (\<lambda>_. False), Download = (\<lambda>_. Some ''timeout''), Spawn = (\<lambda>_. None), PathMatch = (\<lambda>_. (True, None))\<rparr>" "''timeout''"]
    by (force simp: demo_plugin_def demo_cfg_def)
qed

section \<open>Sending\<close>

lemma put_all_wf:
  "wf_pools ps \<Longrightarrow> None \<notin> set rs \<Longrightarrow> \<exists>ps'. put_all rs ps = Some ps' \<and> wf_pools ps'"
proof (induction rs arbitrary: ps)
  case (Cons r rs)
  obtain ps1 where p: "PutEncodedRecord ps r = Some ps1"
    using Cons.prems(2) PutEncodedRecord_nil[of ps r] by (cases "PutEncodedRecord ps r") auto
  then show ?case using Cons.IH[OF PutEncodedRecord_wf[OF Cons.prems(1) p]] Cons.prems(2) by simp
qed simp

text \<open>
  A tick of the sender takes everything the buffer holds into one package and leaves an empty
  well-formed buffer behind, whether the package could be sent or not: after a failed send the records
  are neither counted nor kept for the next connection.
\<close>

theorem handleSend_tick_drains:
  assumes "wf_buffer st" "None \<notin> set (pending st)"
  shows "\<exists>st'. handleSend_tick sent st = Some (pending st, if sent then length (pending st) else 0, st')
    \<and> pending st' = [] \<and> wf_buffer st'"
proof -
  have r: "ReadEncodedRecords st = (pending st, st\<lparr>offset := 0\<rparr>)" by (simp add: ReadEncodedRecords_def pending_def)
  obtain ps where ps: "put_all (pending st) (bpools st) = Some ps" "wf_pools ps"
    using put_all_wf[of "bpools st" "pending st"] assms by (auto simp: wf_buffer_def)
  show ?thesis
  proof (cases "pending st = []")
    case True
    then show ?thesis using assms(1) r by (auto simp: handleSend_tick_def pending_def wf_buffer_def)
  next
    case False
    then show ?thesis using assms(1) r ps by (simp add: handleSend_tick_def pending_def wf_buffer_def)
  qed
qed

lemma handleSend_tick_drains_witness:
  "\<exists>st st'. pending st = [Some (new_record 0)] \<and> handleSend_tick False st = Some ([Some (new_record 0)], 0, st') \<and> pending st' = []"
proof -
  have h: "hook buffer_init = None" and p: "pending buffer_init = []" by (simp_all add: buffer_init_def pending_def)
  obtain st where w: "WriteEncodedRecord buffer_init (Some (new_record 0)) = Some st"
    using WriteEncodedRecord_total[OF wf_buffer_init h, of "Some (new_record 0)"] by auto
  have "wf_buffer st" "pending st = [Some (new_record 0)]"
    using wf_WriteEncodedRecord[OF wf_buffer_init w] pending_WriteEncodedRecord[OF wf_buffer_init h w] p by simp_all
  then show ?thesis using handleSend_tick_drains[of st False] by auto
qed

section \<open>Connecting\<close>

definition fails :: "nat \<Rightarrow> bool list \<Rightarrow> bool" where
  "fails n outs \<longleftrightarrow> take n outs = replicate n False"

lemma fails_simps: "fails 0 xs" "fails (Suc n) (x # xs) \<longleftrightarrow> \<not> x \<and> fails n xs" "\<not> fails (Suc n) []"
  by (auto simp: fails_def)

lemma fails_mono: "fails n xs \<Longrightarrow> m \<le> n \<Longrightarrow> fails m xs"
  unfolding fails_def by (metis min.absorb1 take_replicate take_take)

lemma fails_drop_Cons: "(\<exists>k. fails 7 (drop k (x # xs))) \<longleftrightarrow> fails 7 (x # xs) \<or> (\<exists>k. fails 7 (drop k xs))"
proof
  assume "\<exists>k. fails 7 (drop k (x # xs))"
  then obtain k where k: "fails 7 (drop k (x # xs))" by blast
  then show "fails 7 (x # xs) \<or> (\<exists>k. fails 7 (drop k xs))" by (cases k) auto
next
  assume "fails 7 (x # xs) \<or> (\<exists>k. fails 7 (drop k xs))"
  then show "\<exists>k. fails 7 (drop k (x # xs))" by (metis drop0 drop_Suc_Cons)
qed

lemma transfer_loop_fails:
  "r \<le> 6 \<Longrightarrow> transfer_loop r outs \<noteq> None \<longleftrightarrow> fails (7 - r) outs \<or> (\<exists>k. fails 7 (drop k outs))"
proof (induction outs arbitrary: r)
  case Nil
  then show ?case by (auto simp: fails_def)
next
  case (Cons x outs)
  have n: "7 - r = Suc (6 - r)" using Cons.prems by simp
  have f: "fails (7 - r) (x # outs) \<longleftrightarrow> \<not> x \<and> fails (6 - r) outs" "fails 7 (x # outs) \<longleftrightarrow> \<not> x \<and> fails 6 outs"
    unfolding n using fails_simps(2)[of 6 x outs] by (simp_all add: fails_simps(2))
  show ?case
  proof (cases x)
    case True
    have "fails 7 outs \<Longrightarrow> \<exists>k. fails 7 (drop k outs)" by (metis drop0)
    then have "transfer_loop 0 outs \<noteq> None \<longleftrightarrow> (\<exists>k. fails 7 (drop k outs))" using Cons.IH[of 0] by auto
    then show ?thesis using True f by (simp add: fails_drop_Cons)
  next
    case False
    show ?thesis
    proof (cases "r = 6")
      case True
      then show ?thesis using False f(1) fails_simps(1)[of outs] by simp
    next
      case r: False
      then have "transfer_loop (Suc r) outs \<noteq> None \<longleftrightarrow> fails (6 - r) outs \<or> (\<exists>k. fails 7 (drop k outs))"
        using Cons.IH[of "Suc r"] Cons.prems by simp
      moreover have "fails 6 outs \<Longrightarrow> fails (6 - r) outs" using fails_mono by simp
      ultimately show ?thesis using False f r Cons.prems by (auto simp: fails_drop_Cons)
    qed
  qed
qed

text \<open>
  The transfer gives up exactly when seven attempts in a row to get a connection fail: as long as
  one of any seven consecutive attempts succeeds it goes on.
\<close>

theorem transfer_gives_up:
  "transfer_loop 0 outs \<noteq> None \<longleftrightarrow> (\<exists>k. take 7 (drop k outs) = replicate 7 False)"
proof -
  have "fails 7 outs \<Longrightarrow> \<exists>k. fails 7 (drop k outs)" by (metis drop0)
  then show ?thesis using transfer_loop_fails[of 0 outs] by (auto simp: fails_def)
qed

fun get_calls :: "(nat \<Rightarrow> connectivity) \<Rightarrow> string + nat \<Rightarrow> nat \<Rightarrow> conn_store \<Rightarrow> (string + nat) list" where
  "get_calls state dial 0 s = []"
| "get_calls state dial (Suc n) s = (let (r, s') = GetConnection state dial s in r # get_calls state dial n s')"

text \<open>
  A connection that stays ready is handed out five more times after it was made; the next call
  closes it and dials anew, and if that fails the closed connection is not handed out again.
\<close>

theorem connection_reuse_bounded:
  assumes "c \<noteq> d"
  shows "get_calls (\<lambda>_. Ready) (Inr d) 7 \<lparr>conn = Some c, retries = 0, closed = {}, NetMode = mode\<rparr> = replicate 5 (Inr c) @ [Inr d, Inr d]
    \<and> get_calls (\<lambda>_. Ready) (Inl err) 7 \<lparr>conn = Some c, retries = 0, closed = {}, NetMode = mode\<rparr> = replicate 5 (Inr c) @ [Inl err, Inl err]"
proof -
  have w: "wrap32 1 = 1" "wrap32 2 = 2" "wrap32 3 = 3" "wrap32 4 = 4" "wrap32 5 = 5" "wrap32 6 = 6"
    by (simp_all add: wrap32_id)
  have n: "(7::nat) = Suc (Suc (Suc (Suc (Suc (Suc (Suc 0))))))" "(5::nat) = Suc (Suc (Suc (Suc (Suc 0))))" by simp_all
  show ?thesis unfolding n using assms by (simp add: GetConnection_def Let_def w)
qed

lemma connection_reuse_bounded_witness:
  "get_calls (\<lambda>_. Ready) (Inr 2) 7 \<lparr>conn = Some 1, retries = 0, closed = {}, NetMode = ''unknown''\<rparr> = [Inr 1, Inr 1, Inr 1, Inr 1, Inr 1, Inr 2, Inr 2]"
  using connection_reuse_bounded[of 1 2 "''unknown''" "[]"] by (simp add: eval_nat_numeral)

end
