(* ===== verification/ManagerAuth.thy ===== *)
theory ManagerAuth
  imports GoStrings
begin

text \<open>
  The access control of the manager's API (\<open>manager/biz/midware/tokenAuth.go\<close> and \<open>rbacAuth.go\<close>): a token
  names the user, and the first matching rule, by descending id, tells which levels of users may
  use a path.  Parameters are the sessions in Redis, the verification of a JWT with the secret, and
  the regular expressions of the rules; an expression that does not compile is \<^const>\<open>None\<close>.
\<close>

section \<open>Rules\<close>

record User =
  Username :: string
  Password :: string
  Salt :: string
  Level :: int

record MetaRule =
  rule_ID :: int
  Desc :: string
  PathEqual :: "string list"
  PathPre :: "string list"
  PathRegex :: "string list"
  AuthorizedRoles :: "int list"
  AllowAnyone :: bool

record AcRule =
  ar_rule :: MetaRule
  pathRegexList :: "(string \<Rightarrow> bool) list"
  roleMap :: "int list"

definition NewAcRule :: "(string \<Rightarrow> (string \<Rightarrow> bool) option) \<Rightarrow> MetaRule \<Rightarrow> AcRule" where
  "NewAcRule compile rule =
     \<lparr>ar_rule = rule, pathRegexList = List.map_filter compile (PathRegex rule), roleMap = AuthorizedRoles rule\<rparr>"

definition MatchPath :: "AcRule \<Rightarrow> string \<Rightarrow> bool" where
  "MatchPath c path \<longleftrightarrow>
     path \<in> set (PathEqual (ar_rule c)) \<or> list_ex (\<lambda>v. HasPrefix path v) (PathPre (ar_rule c))
     \<or> list_ex (\<lambda>v. v path) (pathRegexList c)"

definition GetUser :: "(string, User) gomap \<Rightarrow> string \<Rightarrow> User option" where
  "GetUser users name = map_of users name"

definition MatchRole :: "(string, User) gomap \<Rightarrow> AcRule \<Rightarrow> string \<Rightarrow> bool" where
  "MatchRole users c role \<longleftrightarrow>
     AllowAnyone (ar_rule c) \<or> (case GetUser users role of None \<Rightarrow> False | Some u \<Rightarrow> Level u \<in> set (roleMap c))"

text \<open>
  The controller for a rule file that was read and decoded.  \<open>sort.Slice\<close> leaves the order of rules with
  the same id open; the theorems are about files without double ids.
\<close>

definition NewAcController :: "(string \<Rightarrow> (string \<Rightarrow> bool) option) \<Rightarrow> MetaRule list \<Rightarrow> AcRule list" where
  "NewAcController compile rules = map (NewAcRule compile) (sort_key (\<lambda>r. - rule_ID r) rules)"

fun IsRequestGranted :: "(string, User) gomap \<Rightarrow> AcRule list \<Rightarrow> string \<Rightarrow> string \<Rightarrow> bool" where
  "IsRequestGranted users [] path role = True"
| "IsRequestGranted users (v # vs) path role =
     (if MatchPath v path then MatchRole users v role else IsRequestGranted users vs path role)"

section \<open>The middlewares\<close>

text \<open>A middleware lets the request go on, with the user it set if any, aborts it, or panics.\<close>

datatype verdict = Next "string option" | Abort nat | MidPanic

record auth_env =
  ApiAuth :: bool
  Sessions :: "string \<Rightarrow> string"
  VerifyToken :: "string \<Rightarrow> string + (string, json) gomap"
  UserTable :: "(string, User) gomap"

definition whiteUrlList :: "string list" where
  "whiteUrlList = [''/api/v6/investigate/file/DownloadFileByToken'', ''/api/v1/agent/heartbeat/join'',
     ''/api/v1/agent/heartbeat/evict'', ''/api/v1/user/login'', ''/api/v1/user/sso_url'', ''/api/v1/user/sso_logout'',
     ''/api/v1/user/sso_token'', ''/api/v1/agent/updateSubTask'', ''/api/v1/agent/subTask/update'',
     ''/api/v6/shared/Upload'', ''/api/v1/agent/queryInfo'', ''/api/v6/kube/inner/cluster/list'',
     ''/api/v6/component/GetComponentInstances'', ''/api/v6/user/getCaptcha'', ''/api/v6/systemRouter/InsertAlert'']"

text \<open>The user a token stands for: the one of a session, or the one claimed in a verified JWT.\<close>

definition token_user :: "auth_env \<Rightarrow> string \<Rightarrow> verdict" where
  "token_user e token =
     (if HasPrefix token ''seesion-'' then
        (if Sessions e token = [] then Abort 401 else Next (Some (Sessions e token)))
      else (case VerifyToken e token of
              Inl _ \<Rightarrow> Abort 401
            | Inr payload \<Rightarrow>
                (case map_of payload ''username'' of
                   None \<Rightarrow> Abort 401
                 | Some (JStr u) \<Rightarrow> if u = [] then Abort 401 else Next (Some u)
                 | Some _ \<Rightarrow> MidPanic)))"

definition TokenAuth :: "auth_env \<Rightarrow> string \<Rightarrow> string \<Rightarrow> verdict" where
  "TokenAuth e path token =
     (if \<not> ApiAuth e then Next None
      else if HasPrefix path ''/api/v1/agent/getConfig/'' then Next None
      else if path \<in> set whiteUrlList then Next None
      else if token = [] then Abort 401
      else token_user e token)"

definition queryRolesByHeaders :: "string option \<Rightarrow> string" where
  "queryRolesByHeaders user = (case user of None \<Rightarrow> [] | Some u \<Rightarrow> u)"

text \<open>\<^const>\<open>None\<close> is the controller that could not be made, because the rule file is missing or malformed.\<close>

definition RBACAuth :: "auth_env \<Rightarrow> AcRule list option \<Rightarrow> string \<Rightarrow> string option \<Rightarrow> verdict" where
  "RBACAuth e worker path user =
     (case worker of
        None \<Rightarrow> Next user
      | Some rules \<Rightarrow>
          if IsRequestGranted (UserTable e) rules path (queryRolesByHeaders user) then Next user else Abort 403)"

text \<open>
  The groups of the router and the middlewares each of them uses.  Only the routes below \<open>/api/v1\<close> and \<open>/api/v6\<close> check the rules.  The job routes check
  the token alone and the route between the instances of the manager the signature; \<open>akskOK\<close> tells whether \<open>AKSKAuth\<close> lets the request pass.
  Every other path is a page of the console.
\<close>

datatype route_group = InnerGroup | JobGroup | ApiGroup | PageGroup

definition jobRoutes :: "string list" where
  "jobRoutes = [''/api/v0/job/new'', ''/api/v0/job/distribute'', ''/api/v0/job/stop'', ''/api/v0/job/stat'', ''/api/v0/job/result'']"

definition RegisterRouter :: "string \<Rightarrow> route_group" where
  "RegisterRouter path =
     (if path = ''/api/v0/inner/sync'' then InnerGroup
      else if path \<in> set jobRoutes then JobGroup
      else if HasPrefix path ''/api/v1/'' \<or> HasPrefix path ''/api/v6/'' then ApiGroup
      else PageGroup)"

definition api_request :: "auth_env \<Rightarrow> AcRule list option \<Rightarrow> bool \<Rightarrow> string \<Rightarrow> string \<Rightarrow> verdict" where
  "api_request e worker akskOK path token =
     (case RegisterRouter path of
        InnerGroup \<Rightarrow> if akskOK then Next None else Abort 401
      | JobGroup \<Rightarrow> TokenAuth e path token
      | ApiGroup \<Rightarrow> (case TokenAuth e path token of Next user \<Rightarrow> RBACAuth e worker path user | v \<Rightarrow> v)
      | PageGroup \<Rightarrow> Next None)"

section \<open>What is granted\<close>

lemma IsRequestGranted_find:
  "IsRequestGranted users vs path role =
     (case find (\<lambda>v. MatchPath v path) vs of None \<Rightarrow> True | Some v \<Rightarrow> MatchRole users v role)"
  by (induction vs) auto

text \<open>In a list sorted by descending id, the first match is the match with the largest id.\<close>

lemma find_largest:
  assumes "sorted (map (\<lambda>r. - rule_ID r) rs)" "distinct (map rule_ID rs)" "r \<in> set rs" "P r"
    and "\<forall>r' \<in> set rs. P r' \<longrightarrow> rule_ID r' \<le> rule_ID r"
  shows "find P rs = Some r"
  using assms
proof (induction rs)
  case (Cons x rs)
  show ?case
  proof (cases "x = r")
    case True
    then show ?thesis using Cons.prems(4) by simp
  next
    case False
    then have r: "r \<in> set rs" using Cons.prems(3) by simp
    then have "rule_ID r \<le> rule_ID x" "rule_ID r \<noteq> rule_ID x" using Cons.prems(1,2) by (auto simp: image_iff)
    then have "\<not> P x" using Cons.prems(5) by fastforce
    then show ?thesis using Cons.IH r Cons.prems by simp
  qed
qed simp

lemma granted_by_largest:
  assumes "distinct (map rule_ID rules)" "r \<in> set rules" "MatchPath (NewAcRule compile r) path"
    and "\<forall>r' \<in> set rules. MatchPath (NewAcRule compile r') path \<longrightarrow> rule_ID r' \<le> rule_ID r"
  shows "IsRequestGranted users (NewAcController compile rules) path role = MatchRole users (NewAcRule compile r) role"
proof -
  let ?rs = "sort_key (\<lambda>r. - rule_ID r) rules"
  have "distinct (map rule_ID ?rs)"
    using assms(1) by (metis distinct_map distinct_sort set_sort)
  then have "find (\<lambda>r. MatchPath (NewAcRule compile r) path) ?rs = Some r"
    using assms(2-4) by (intro find_largest) simp_all
  moreover have "find (\<lambda>v. MatchPath v path) (map (NewAcRule compile) xs)
      = map_option (NewAcRule compile) (find (\<lambda>r. MatchPath (NewAcRule compile r) path) xs)" for xs
    by (induction xs) auto
  ultimately show ?thesis by (simp add: IsRequestGranted_find NewAcController_def)
qed

text \<open>The user behind a token that passes the first middleware.\<close>

definition vouched :: "auth_env \<Rightarrow> string \<Rightarrow> string \<Rightarrow> bool" where
  "vouched e token name \<longleftrightarrow> token \<noteq> [] \<and> (HasPrefix token ''seesion-'' \<and> Sessions e token = name
     \<or> (\<exists>payload. VerifyToken e token = Inr payload \<and> map_of payload ''username'' = Some (JStr name)))"

lemma TokenAuth_vouched:
  assumes "ApiAuth e" "\<not> HasPrefix path ''/api/v1/agent/getConfig/''" "path \<notin> set whiteUrlList" "TokenAuth e path token = Next user"
  shows "\<exists>name. user = Some name \<and> name \<noteq> [] \<and> vouched e token name"
  using assms by (auto simp: TokenAuth_def token_user_def vouched_def split: if_splits sum.splits option.splits json.splits)

text \<open>
  C10. No request reaches a protected route below \<open>/api/v1\<close> or \<open>/api/v6\<close> without an authorised user: with authentication on and a
  path that is not whitelisted, if among the rules that match the path the one with the largest id
  does not allow anyone, then a request that reaches the handler has a token of a session or a
  verified JWT, and it stands for a known user whose level the rule lists.  For the job routes a token of any user is enough,
  whatever the rules say, and the route between the managers needs the signature only.
\<close>

theorem api_request_authorized:
  assumes "ApiAuth e" "\<not> HasPrefix path ''/api/v1/agent/getConfig/''" "path \<notin> set whiteUrlList"
    and "distinct (map rule_ID rules)" "r \<in> set rules" "MatchPath (NewAcRule compile r) path" "\<not> AllowAnyone r"
    and "\<forall>r' \<in> set rules. MatchPath (NewAcRule compile r') path \<longrightarrow> rule_ID r' \<le> rule_ID r"
    and "api_request e (Some (NewAcController compile rules)) akskOK path token = Next user"
  shows "case RegisterRouter path of
      ApiGroup \<Rightarrow> \<exists>name u. user = Some name \<and> vouched e token name \<and> map_of (UserTable e) name = Some u \<and> Level u \<in> set (AuthorizedRoles r)
    | JobGroup \<Rightarrow> \<exists>name. user = Some name \<and> name \<noteq> [] \<and> vouched e token name
    | InnerGroup \<Rightarrow> akskOK
    | PageGroup \<Rightarrow> \<not> HasPrefix path ''/api/v1/'' \<and> \<not> HasPrefix path ''/api/v6/''"
proof (cases "RegisterRouter path")
  case ApiGroup
  obtain user' where t: "TokenAuth e path token = Next user'"
    and rb: "RBACAuth e (Some (NewAcController compile rules)) path user' = Next user"
    using assms(9) ApiGroup by (auto simp: api_request_def split: verdict.splits)
  have u: "user' = user" and g: "IsRequestGranted (UserTable e) (NewAcController compile rules) path (queryRolesByHeaders user)"
    using rb by (auto simp: RBACAuth_def split: if_splits)
  obtain name where name: "user = Some name" "vouched e token name" using TokenAuth_vouched[OF assms(1-3) t] u by blast
  have "MatchRole (UserTable e) (NewAcRule compile r) name"
    using g granted_by_largest[OF assms(4,5,6,8)] name(1) by (simp add: queryRolesByHeaders_def)
  then show ?thesis using assms(7) name ApiGroup
    by (auto simp: MatchRole_def NewAcRule_def GetUser_def split: option.splits)
next
  case JobGroup
  then show ?thesis using TokenAuth_vouched[OF assms(1-3)] assms(9) by (simp add: api_request_def)
next
  case InnerGroup
  then show ?thesis using assms(9) by (simp add: api_request_def split: if_splits)
next
  case PageGroup
  then show ?thesis by (auto simp: RegisterRouter_def split: if_splits)
qed

definition demo_auth :: auth_env where
  "demo_auth = \<lparr>ApiAuth = True, Sessions = (\<lambda>t. if t = ''seesion-1'' then ''root'' else []),
     VerifyToken = (\<lambda>_. Inl ''verify token failed''),
     UserTable = [(''root'', \<lparr>Username = ''root'', Password = [], Salt = [], Level = 0\<rparr>)]\<rparr>"

definition admin_rule :: MetaRule where
  "admin_rule = \<lparr>rule_ID = 1, Desc = [], PathEqual = [''/api/v1/user/del''], PathPre = [], PathRegex = [],
     AuthorizedRoles = [0], AllowAnyone = False\<rparr>"

lemma api_request_authorized_witness:
  "api_request demo_auth (Some (NewAcController (\<lambda>_. None) [admin_rule])) False ''/api/v1/user/del'' ''seesion-1'' = Next (Some ''root'')
   \<and> (\<exists>u. map_of (UserTable demo_auth) ''root'' = Some u \<and> Level u \<in> set (AuthorizedRoles admin_rule))"
proof -
  have p: "\<not> HasPrefix ''/api/v1/user/del'' ''/api/v1/agent/getConfig/''" "''/api/v1/user/del'' \<notin> set whiteUrlList"
    by (simp_all add: HasPrefix_def whiteUrlList_def)
  have m: "MatchPath (NewAcRule (\<lambda>_. None) admin_rule) ''/api/v1/user/del''"
    by (simp add: MatchPath_def NewAcRule_def admin_rule_def)
  have g: "RegisterRouter ''/api/v1/user/del'' = ApiGroup" by (simp add: RegisterRouter_def jobRoutes_def HasPrefix_def)
  have a: "api_request demo_auth (Some (NewAcController (\<lambda>_. None) [admin_rule])) False ''/api/v1/user/del'' ''seesion-1'' = Next (Some ''root'')"
    using p m g by (simp add: api_request_def TokenAuth_def token_user_def RBACAuth_def NewAcController_def demo_auth_def
        HasPrefix_def queryRolesByHeaders_def MatchRole_def GetUser_def) (simp add: NewAcRule_def admin_rule_def)
  have "\<exists>name u. Some ''root'' = Some name \<and> map_of (UserTable demo_auth) name = Some u \<and> Level u \<in> set (AuthorizedRoles admin_rule)"
    using api_request_authorized[OF _ p _ _ m _ _ a] g by (auto simp: demo_auth_def admin_rule_def)
  then show ?thesis using a by auto
qed

text \<open>
  The job routes ignore the rules: whoever has a session may start a job, also where the rule for the path lists no level at all.
\<close>

lemma job_routes_ignore_rules:
  "path \<in> set jobRoutes \<Longrightarrow> api_request e worker akskOK path token = TokenAuth e path token"
  by (auto simp: api_request_def RegisterRouter_def jobRoutes_def)

end
