(* ===== verification/DistributedJob.thy ===== *)
theory DistributedJob
  imports GoStrings "HOL-Library.Countable"
begin

text \<open>
  Distributed jobs of the manager, \<open>server/manager/internal/distribute/job\<close> and the registry client
  \<open>server/manager/infra/discovery/sd.go\<close>.

  A job is created on one manager instance and announced to the others; its items are published
  round-robin on one Redis channel per instance, and the goroutines of every instance take them
  from there.  Redis is a service: what the code sends to it is a list of \<open>redis_cmd\<close>, what it answers
  is an argument.  So are the answers of HTTP requests and the JSON encoder.  A panic is \<^const>\<open>None\<close>.
\<close>

section \<open>Data\<close>

datatype redis_cmd =
    HMSet string "(string \<times> json) list"
  | HSetR string string json
  | HIncrBy string string int
  | Expire string int
  | Publish string string
  | LPush string "string list"
  | SetEx string string int

record ApiEntry =
  ae_path :: string
  ae_register_name :: string
  ae_method :: string
  ae_scheme :: string
  ae_timeout :: int
  ae_port_num :: "int option"

record JobArgs =
  ja_Name :: string
  ja_Host :: string
  ja_Path :: string
  ja_Args :: json
  ja_Scheme :: string
  ja_Method :: string
  ja_Timeout :: int

text \<open>What the code reads of an HTTP response: \<open>Ok\<close>, \<open>StatusCode\<close> and the body.\<close>

record response =
  rp_Ok :: bool
  rp_StatusCode :: int
  rp_body :: string

record JobResWithArgs =
  jr_Args :: JobArgs
  jr_Response :: "response option"
  jr_Result :: string

record SimpleJob =
  sj_Id :: string
  sj_Name :: string
  sj_Mode :: int
  sj_Meta :: ApiEntry
  sj_Workers :: "string list"
  sj_ConNum :: int
  sj_Timeout :: int
  sj_NeedRes :: bool
  sj_Done :: bool

definition HttpMethodGet :: string where "HttpMethodGet = ''GET''"
definition HttpMethodPost :: string where "HttpMethodPost = ''POST''"
definition FinishFlag :: string where "FinishFlag = ''FINISH''"
definition defaultExpireTime :: int where "defaultExpireTime = 60 * 60 * 12"

definition JobInfo :: "string \<Rightarrow> string" where "JobInfo i = ''JobInfo:'' @ i"
definition JobStat :: "string \<Rightarrow> string" where "JobStat i = ''JobStat:'' @ i"
definition JobResp :: "string \<Rightarrow> string" where "JobResp i = ''JobResp:'' @ i"
definition JobRetry :: "string \<Rightarrow> string" where "JobRetry i = ''JobRetry:'' @ i"

definition jobIdFmt :: "string \<Rightarrow> int \<Rightarrow> string" where
  "jobIdFmt name t = ''id-'' @ name @ ''-'' @ Itoa t"

definition jobChannel :: "string \<Rightarrow> string \<Rightarrow> string" where
  "jobChannel host jid = ''chan-'' @ host @ ''-'' @ jid"

definition api :: "string \<Rightarrow> string \<Rightarrow> string \<Rightarrow> int option \<Rightarrow> ApiEntry" where
  "api svr path meth port = \<lparr>ae_path = path, ae_register_name = svr @ ''_http'', ae_method = meth,
     ae_scheme = ''https'', ae_timeout = 15, ae_port_num = port\<rparr>"

definition InitApiMap :: "string \<Rightarrow> (string, ApiEntry) gomap" where
  "InitApiMap svr =
     [(''Server_AgentStat'', api svr ''/conn/stat'' HttpMethodGet None),
      (''Server_AgentList'', api svr ''/conn/list'' HttpMethodGet None),
      (''Agent_Config'', api svr ''/command'' HttpMethodPost None),
      (''Agent_Ctrl'', api svr ''/command'' HttpMethodPost None),
      (''Agent_Task'', api svr ''/command'' HttpMethodPost None),
      (''Agent_Quick_Config'', api svr ''/command'' HttpMethodPost (Some 1)),
      (''Agent_Config_v2'', api svr ''/command'' HttpMethodPost (Some 1))]"

section \<open>The registry client\<close>

text \<open>
  The answer of the registry: an error of the request, a body that does not decode, or the decoded
  instances as pairs of address and port.
\<close>

datatype fetch_answer = ReqError string | BadBody string | Instances "(string \<times> int) list"

fun FetchRegistry :: "fetch_answer \<Rightarrow> string list \<times> string option" where
  "FetchRegistry (ReqError e) = ([], Some e)"
| "FetchRegistry (BadBody e) = ([], Some e)"
| "FetchRegistry (Instances is) = (map (\<lambda>(ip, port). host_port ip port) is, None)"

definition mg_GetHosts :: "fetch_answer \<Rightarrow> string list" where
  "mg_GetHosts a = fst (FetchRegistry a)"

definition mg_GetOtherHosts :: "string \<Rightarrow> int \<Rightarrow> fetch_answer \<Rightarrow> string list" where
  "mg_GetOtherHosts ip port a =
     (case FetchRegistry a of
        (hosts, Some e) \<Rightarrow> []
      | (hosts, None) \<Rightarrow> filter (\<lambda>h. h \<noteq> host_port ip port) hosts)"

section \<open>A job\<close>

definition NewSimpleJob ::
  "string \<Rightarrow> int \<Rightarrow> int \<Rightarrow> string \<Rightarrow> string \<Rightarrow> int \<Rightarrow> ApiEntry \<Rightarrow> string list \<Rightarrow> int \<Rightarrow> int \<Rightarrow> bool \<Rightarrow>
   SimpleJob \<times> redis_cmd list" where
  "NewSimpleJob localHost nano now jid name mode meta workers conNum timeout needRes =
     (let setFlag = (jid = []);
          i = (if setFlag then jobIdFmt name nano else jid);
          sj = \<lparr>sj_Id = i, sj_Name = name, sj_Mode = mode, sj_Meta = meta, sj_Workers = workers,
                sj_ConNum = conNum, sj_Timeout = timeout, sj_NeedRes = needRes, sj_Done = False\<rparr>
      in (sj,
          (if setFlag then
             [HMSet (JobInfo i) [(''id'', JStr i), (''name'', JStr ''name''), (''conNum'', JNum conNum),
                (''timeout'', JNum timeout), (''newAt'', JNum now)],
              Expire (JobInfo i) defaultExpireTime]
           else []) @
          [HSetR (JobStat i) (localHost @ ''_new'') (JStr ''ok''), Expire (JobStat i) defaultExpireTime]))"

definition NewApiJob ::
  "(string, ApiEntry) gomap \<Rightarrow> string \<Rightarrow> int \<Rightarrow> int \<Rightarrow> string \<Rightarrow> string \<Rightarrow> int \<Rightarrow> int \<Rightarrow> bool \<Rightarrow>
   (SimpleJob \<times> redis_cmd list) option" where
  "NewApiJob apiMap localHost nano now jid name conNum timeout needRes =
     (case map_of apiMap name of
        None \<Rightarrow> None
      | Some e \<Rightarrow> Some (NewSimpleJob localHost nano now jid name 0 e [] conNum timeout needRes))"

subsection \<open>Distribution\<close>

definition retriesMax :: nat where "retriesMax = 10"

text \<open>
  Publishing one item: \<open>val r\<close> is the number of receivers Redis reports for attempt \<open>r\<close>.  The result is
  the number of attempts and the last answer.
\<close>

function publish_loop :: "(nat \<Rightarrow> int) \<Rightarrow> nat \<Rightarrow> nat \<times> int \<Rightarrow> nat \<times> int" where
  "publish_loop val retries acc =
     (if retries < retriesMax
      then if val retries = 1 then (fst acc + 1, 1)
           else publish_loop val (retries + 1) (fst acc + 1, val retries)
      else acc)"
  by pat_completeness auto
termination by (relation "measure (\<lambda>(val, retries, acc). retriesMax - retries)") auto

declare publish_loop.simps [simp del]

record dist_state =
  ds_ok :: nat
  ds_failed :: nat
  ds_undist :: int
  ds_cmds :: "redis_cmd list"

definition Distribute_item ::
  "(JobArgs \<Rightarrow> string option) \<Rightarrow> (nat \<Rightarrow> nat \<Rightarrow> int) \<Rightarrow> string list \<Rightarrow> string \<Rightarrow> nat \<Rightarrow> JobArgs \<Rightarrow>
   dist_state \<Rightarrow> dist_state option" where
  "Distribute_item marshal val hosts jid i item ds =
     (if hosts = [] then None
      else let ds = ds\<lparr>ds_undist := ds_undist ds - 1\<rparr>;
               ch = jobChannel (hosts ! (i mod length hosts)) jid
           in case marshal item of
                None \<Rightarrow> Some (ds\<lparr>ds_failed := ds_failed ds + 1\<rparr>)
              | Some bytes \<Rightarrow>
                  let (n, v) = publish_loop (val i) 0 (0, 0);
                      ds = ds\<lparr>ds_cmds := ds_cmds ds @ replicate n (Publish ch bytes)\<rparr>
                  in if v \<noteq> 1 then Some (ds\<lparr>ds_failed := ds_failed ds + 1\<rparr>)
                     else Some (ds\<lparr>ds_ok := ds_ok ds + 1\<rparr>))"

fun Distribute_loop ::
  "(JobArgs \<Rightarrow> string option) \<Rightarrow> (nat \<Rightarrow> nat \<Rightarrow> int) \<Rightarrow> string list \<Rightarrow> string \<Rightarrow> nat \<Rightarrow> JobArgs list \<Rightarrow>
   dist_state \<Rightarrow> dist_state option" where
  "Distribute_loop marshal val hosts jid i [] ds = Some ds"
| "Distribute_loop marshal val hosts jid i (item # items) ds =
     (case Distribute_item marshal val hosts jid i item ds of
        None \<Rightarrow> None
      | Some ds' \<Rightarrow> Distribute_loop marshal val hosts jid (Suc i) items ds')"

definition Distribute ::
  "(JobArgs \<Rightarrow> string option) \<Rightarrow> (nat \<Rightarrow> nat \<Rightarrow> int) \<Rightarrow> string \<Rightarrow> fetch_answer \<Rightarrow> SimpleJob \<Rightarrow>
   string + JobArgs list \<Rightarrow> (redis_cmd list \<times> string option) option" where
  "Distribute marshal val localHost reg sj dis =
     (case dis of
        Inl e \<Rightarrow> Some ([HSetR (JobStat (sj_Id sj)) (localHost @ ''_distribute'') (JStr ''failed'')], Some e)
      | Inr items \<Rightarrow>
          (case Distribute_loop marshal val (mg_GetHosts reg) (sj_Id sj) 0 items
                  \<lparr>ds_ok = 0, ds_failed = 0, ds_undist = int (length items), ds_cmds = []\<rparr> of
             None \<Rightarrow> None
           | Some ds \<Rightarrow> Some (ds_cmds ds @
               [HSetR (JobInfo (sj_Id sj)) ''distribute_failed_count'' (JNum (int (ds_failed ds))),
                HSetR (JobInfo (sj_Id sj)) ''distribute_ok_count'' (JNum (int (ds_ok ds))),
                HSetR (JobInfo (sj_Id sj)) ''un_distribute_count'' (JNum (ds_undist ds)),
                HSetR (JobStat (sj_Id sj)) (localHost @ ''_distribute'') (JStr ''ok'')], None)))"

definition job_Finish :: "fetch_answer \<Rightarrow> SimpleJob \<Rightarrow> redis_cmd list" where
  "job_Finish reg sj =
     concat (map (\<lambda>host. replicate (nat (sj_ConNum sj)) (Publish (jobChannel host (sj_Id sj)) FinishFlag))
       (mg_GetHosts reg))"

text \<open>Publishing again what failed: \<open>pops\<close> are the answers of \<open>RPop\<close>, one for each element of the list.\<close>

definition job_Retry :: "fetch_answer \<Rightarrow> SimpleJob \<Rightarrow> string list \<Rightarrow> redis_cmd list option" where
  "job_Retry reg sj pops =
     (let hosts = mg_GetHosts reg in
      if hosts = [] \<and> pops \<noteq> [] then None
      else Some (map (\<lambda>(i, d). Publish (jobChannel (hosts ! (i mod length hosts)) (sj_Id sj)) d)
             (enumerate 0 pops)))"

subsection \<open>The workers\<close>

function push2Redis_loop :: "string \<Rightarrow> nat \<Rightarrow> 'a list \<Rightarrow> 'a list list" where
  "push2Redis_loop key i list =
     (if i + 50 < length list then take 50 (drop i list) # push2Redis_loop key (i + 50) list
      else if drop i list = [] then [] else [drop i list])"
  by pat_completeness auto
termination by (relation "measure (\<lambda>(key, i, list). length list - i)") auto

declare push2Redis_loop.simps [simp del]

definition push2Redis :: "string \<Rightarrow> string list \<Rightarrow> redis_cmd list" where
  "push2Redis key list = map (LPush key) (push2Redis_loop key 0 list)"

text \<open>
  Where a worker is: waiting for a message, inside \<open>Do\<close> with a payload, or between \<open>Do\<close> and the end of the call of \<open>Rlt\<close>
  with the result (\<^const>\<open>None\<close> when it is not a \<open>JobResWithArgs\<close>).
\<close>

datatype work_phase = WIdle | WDoing string | WDone "JobResWithArgs option"

record job_worker =
  wk_phase :: work_phase
  wk_doOK :: int
  wk_doFail :: int
  wk_results :: "string list"
  wk_retry :: "string list"
  wk_returned :: bool

definition new_worker :: job_worker where
  "new_worker = \<lparr>wk_phase = WIdle, wk_doOK = 0, wk_doFail = 0, wk_results = [], wk_retry = [], wk_returned = False\<rparr>"

text \<open>\<open>Do\<close> has returned.\<close>

definition worker_did :: "string \<Rightarrow> JobResWithArgs option \<Rightarrow> string option \<Rightarrow> job_worker \<Rightarrow> job_worker" where
  "worker_did payload rlt err w =
     (case err of None \<Rightarrow> w
      | Some e \<Rightarrow> w\<lparr>wk_doFail := wk_doFail w + 1, wk_retry := wk_retry w @ [payload]\<rparr>)\<lparr>wk_phase := WDone rlt\<rparr>"

text \<open>\<open>Rlt\<close> has returned, and its result is not looked at.\<close>

definition worker_rlt :: "bool \<Rightarrow> JobResWithArgs option \<Rightarrow> job_worker \<Rightarrow> job_worker" where
  "worker_rlt needRes rlt w =
     (let w = w\<lparr>wk_phase := WIdle, wk_doOK := wk_doOK w + 1\<rparr>
      in if needRes then (case rlt of Some r \<Rightarrow> w\<lparr>wk_results := wk_results w @ [jr_Result r]\<rparr> | None \<Rightarrow> w) else w)"

definition worker_return :: "SimpleJob \<Rightarrow> job_worker \<Rightarrow> redis_cmd list" where
  "worker_return sj w =
     [HIncrBy (JobInfo (sj_Id sj)) ''do_ok_count'' (wk_doOK w),
      HIncrBy (JobInfo (sj_Id sj)) ''do_failed_count'' (wk_doFail w)] @
     (if sj_NeedRes sj then push2Redis (JobResp (sj_Id sj)) (wk_results w) else []) @
     push2Redis (JobRetry (sj_Id sj)) (wk_retry w)"

text \<open>
  The state of \<open>Run\<close> on one instance: the payloads waiting in the subscription, the workers and what
  was sent to Redis.  \<open>rn_sent\<close> records the messages delivered, \<open>rn_taken\<close> the items taken from the channel, \<open>rn_did\<close> the calls of \<open>Do\<close> that
  returned, each with its payload, result and error, \<open>rn_rlt\<close> the arguments of the calls of \<open>Rlt\<close>, and \<open>rn_cut\<close> whether a worker left for
  another reason than a finish message; the code has none of the five.
\<close>

record run_state =
  rn_ch :: "string list"
  rn_closed :: bool
  rn_job :: SimpleJob
  rn_workers :: "job_worker list"
  rn_cmds :: "redis_cmd list"
  rn_sent :: "string list"
  rn_taken :: "string list"
  rn_did :: "(string \<times> JobResWithArgs option \<times> string option) list"
  rn_rlt :: "JobResWithArgs option list"
  rn_cut :: bool

definition Run_start :: "string \<Rightarrow> SimpleJob \<Rightarrow> run_state" where
  "Run_start localHost sj =
     \<lparr>rn_ch = [], rn_closed = False, rn_job = sj, rn_workers = replicate (nat (sj_ConNum sj)) new_worker,
      rn_cmds = [HSetR (JobStat (sj_Id sj)) (localHost @ ''_run'') (JStr ''ok'')],
      rn_sent = [], rn_taken = [], rn_did = [], rn_rlt = [], rn_cut = False\<rparr>"

text \<open>\<open>Run\<close> up to the start of the workers: if the subscription is not confirmed, it ends with what it has sent.\<close>

definition Run_begin :: "string \<Rightarrow> SimpleJob \<Rightarrow> string option \<Rightarrow> redis_cmd list + run_state" where
  "Run_begin localHost sj receiveErr =
     (case receiveErr of
        Some e \<Rightarrow> Inl (rn_cmds (Run_start localHost sj) @
          [Expire (JobResp (sj_Id sj)) defaultExpireTime, Expire (JobRetry (sj_Id sj)) defaultExpireTime])
      | None \<Rightarrow> Inr (Run_start localHost sj))"

definition leave :: "nat \<Rightarrow> run_state \<Rightarrow> run_state" where
  "leave i s = s\<lparr>rn_workers := (rn_workers s)[i := (rn_workers s ! i)\<lparr>wk_returned := True\<rparr>],
     rn_cmds := rn_cmds s @ worker_return (rn_job s) (rn_workers s ! i)\<rparr>"

definition Run_over :: "string \<Rightarrow> run_state \<Rightarrow> redis_cmd list option" where
  "Run_over localHost s =
     (if list_all wk_returned (rn_workers s)
      then Some (rn_cmds s @ [HSetR (JobStat (sj_Id (rn_job s))) (localHost @ ''_finish'') (JStr ''ok''),
             Expire (JobResp (sj_Id (rn_job s))) defaultExpireTime,
             Expire (JobRetry (sj_Id (rn_job s))) defaultExpireTime])
      else None)"

abbreviation waiting :: "run_state \<Rightarrow> nat \<Rightarrow> bool" where
  "waiting s i \<equiv> i < length (rn_workers s) \<and> \<not> wk_returned (rn_workers s ! i) \<and> wk_phase (rn_workers s ! i) = WIdle"

text \<open>
  Taking an item, the return of \<open>Do\<close> and the return of \<open>Rlt\<close> are steps of their own, so that the calls of several workers overlap.
  Their results are open.  A worker looks at the timer and at \<open>Done\<close> only while it waits for a message.
\<close>

inductive run_step :: "run_state \<Rightarrow> run_state \<Rightarrow> bool" where
  message: "\<not> rn_closed s \<Longrightarrow> run_step s (s\<lparr>rn_ch := rn_ch s @ [m], rn_sent := rn_sent s @ [m]\<rparr>)"
| take: "waiting s i \<Longrightarrow> rn_ch s = m # ms \<Longrightarrow> m \<noteq> FinishFlag \<Longrightarrow>
    run_step s (s\<lparr>rn_ch := ms, rn_taken := rn_taken s @ [m], rn_workers := (rn_workers s)[i := (rn_workers s ! i)\<lparr>wk_phase := WDoing m\<rparr>]\<rparr>)"
| did: "i < length (rn_workers s) \<Longrightarrow> wk_phase (rn_workers s ! i) = WDoing m \<Longrightarrow>
    run_step s (s\<lparr>rn_did := rn_did s @ [(m, rlt, err)], rn_workers := (rn_workers s)[i := worker_did m rlt err (rn_workers s ! i)]\<rparr>)"
| rlt: "i < length (rn_workers s) \<Longrightarrow> wk_phase (rn_workers s ! i) = WDone r \<Longrightarrow>
    run_step s (s\<lparr>rn_rlt := rn_rlt s @ [r], rn_workers := (rn_workers s)[i := worker_rlt (sj_NeedRes (rn_job s)) r (rn_workers s ! i)]\<rparr>)"
| finish: "waiting s i \<Longrightarrow> rn_ch s = FinishFlag # ms \<Longrightarrow> run_step s (leave i (s\<lparr>rn_ch := ms\<rparr>))"
| closed: "waiting s i \<Longrightarrow> rn_ch s = [] \<Longrightarrow> rn_closed s \<Longrightarrow> run_step s (leave i (s\<lparr>rn_cut := True\<rparr>))"
| timeout: "waiting s i \<Longrightarrow> run_step s (leave i (s\<lparr>rn_cut := True\<rparr>))"
| stopped: "waiting s i \<Longrightarrow> sj_Done (rn_job s) \<Longrightarrow> run_step s (leave i (s\<lparr>rn_cut := True\<rparr>))"
| stop: "run_step s (s\<lparr>rn_job := (rn_job s)\<lparr>sj_Done := True\<rparr>\<rparr>)"
| close_sub: "run_step s (s\<lparr>rn_closed := True\<rparr>)"

inductive run_reachable :: "run_state \<Rightarrow> run_state \<Rightarrow> bool" for s0 where
  start: "run_reachable s0 s0"
| step: "run_reachable s0 s \<Longrightarrow> run_step s s' \<Longrightarrow> run_reachable s0 s'"

inductive_cases run_stepE: "run_step s s'"

definition job_Stop :: "SimpleJob \<Rightarrow> SimpleJob option" where
  "job_Stop sj = (if sj_Done sj then None else Some (sj\<lparr>sj_Done := True\<rparr>))"

section \<open>Results of the periodic jobs and the default functions\<close>

definition AgentListRlt ::
  "(string \<Rightarrow> string + string list) \<Rightarrow> JobResWithArgs option \<Rightarrow> redis_cmd list \<times> string option" where
  "AgentListRlt unmarshal v =
     (case v of
        None \<Rightarrow> ([], None)
      | Some jPack \<Rightarrow>
          (case jr_Response jPack of
             None \<Rightarrow> ([], None)
           | Some r \<Rightarrow>
               if rp_StatusCode r \<noteq> 200 then ([], None)
               else (case unmarshal (rp_body r) of
                       Inl e \<Rightarrow> ([], Some e)
                     | Inr agents \<Rightarrow> (map (\<lambda>a. SetEx a (ja_Host (jr_Args jPack)) 3600) agents, None))))"

record mg_ConnStat =
  cs_AgentInfo :: "(string, json) gomap option"
  cs_PluginsInfo :: "json list option"

text \<open>
  The heartbeats of one agent center: every connection gets the address of the center and goes to the
  heartbeat writer.  A \<open>nil\<close> element of the decoded list is a panic.
\<close>

fun AgentHBRlt_loop :: "string \<Rightarrow> int \<Rightarrow> mg_ConnStat option list \<Rightarrow> mg_ConnStat list option" where
  "AgentHBRlt_loop ip port [] = Some []"
| "AgentHBRlt_loop ip port (None # cs) = None"
| "AgentHBRlt_loop ip port (Some c # cs) =
     (let c' = (case cs_AgentInfo c of
                  None \<Rightarrow> c
                | Some ai \<Rightarrow> c\<lparr>cs_AgentInfo := Some (mput (mput ai ''source_ip'' (JStr ip)) ''source_port'' (JNum port))\<rparr>)
      in map_option ((#) c') (AgentHBRlt_loop ip port cs))"

definition AgentHBRlt ::
  "(string \<Rightarrow> string + mg_ConnStat option list) \<Rightarrow> JobResWithArgs option \<Rightarrow> (mg_ConnStat list \<times> string option) option" where
  "AgentHBRlt unmarshal v =
     (case v of
        None \<Rightarrow> Some ([], None)
      | Some jPack \<Rightarrow>
          (case jr_Response jPack of
             None \<Rightarrow> Some ([], None)
           | Some r \<Rightarrow>
               if rp_StatusCode r \<noteq> 200 then Some ([], None)
               else (case unmarshal (rp_body r) of
                       Inl e \<Rightarrow> Some ([], Some e)
                     | Inr stats \<Rightarrow>
                         let arr = Split (ja_Host (jr_Args jPack)) '':'' in
                         if length arr \<noteq> 2 then Some ([], None)
                         else (case ParseInt (arr ! 1) of
                                 (port, Some e) \<Rightarrow> Some ([], Some (ParseInt_Error (arr ! 1) e))
                               | (port, None) \<Rightarrow>
                                   map_option (\<lambda>cs. (cs, None)) (AgentHBRlt_loop (arr ! 0) port stats)))))"

record ('dis, 'do, 'rlt) apiJobFunc =
  ajf_disMap :: "(string, 'dis) gomap"
  ajf_doMap :: "(string, 'do) gomap"
  ajf_rltMap :: "(string, 'rlt) gomap"

definition ajf_Register ::
  "'dis \<Rightarrow> 'do \<Rightarrow> 'rlt \<Rightarrow> ('dis, 'do, 'rlt) apiJobFunc \<Rightarrow> string \<Rightarrow> 'dis option \<Rightarrow> 'do option \<Rightarrow> 'rlt option \<Rightarrow>
   ('dis, 'do, 'rlt) apiJobFunc" where
  "ajf_Register defaultDis defaultDo defaultRlt jf name dis doj rlt =
     jf\<lparr>ajf_disMap := mput (ajf_disMap jf) name (case dis of Some d \<Rightarrow> d | None \<Rightarrow> defaultDis),
        ajf_doMap := mput (ajf_doMap jf) name (case doj of Some d \<Rightarrow> d | None \<Rightarrow> defaultDo),
        ajf_rltMap := mput (ajf_rltMap jf) name (case rlt of Some d \<Rightarrow> d | None \<Rightarrow> defaultRlt)\<rparr>"

definition defaultApiDistribute ::
  "(string, ApiEntry) gomap \<Rightarrow> string \<Rightarrow> fetch_answer \<Rightarrow> (JobArgs list \<times> string option) option" where
  "defaultApiDistribute apiMap name reg =
     (case map_of apiMap name of
        None \<Rightarrow> None
      | Some e \<Rightarrow>
          (case FetchRegistry reg of
             (hosts, Some err) \<Rightarrow> Some ([], Some err)
           | (hosts, None) \<Rightarrow>
               Some (map (\<lambda>host. \<lparr>ja_Name = name, ja_Host = host, ja_Path = ae_path e, ja_Args = JNull,
                  ja_Scheme = ae_scheme e, ja_Method = ae_method e, ja_Timeout = ae_timeout e\<rparr>) hosts, None)))"

definition job_url :: "JobArgs \<Rightarrow> string" where
  "job_url ja = ja_Scheme ja @ ''://'' @ ja_Host ja @ ja_Path ja"

text \<open>\<open>request m url\<close> is what the HTTP client answers: the response, which may be \<open>nil\<close>, and the error.\<close>

definition defaultApiDo ::
  "(string \<Rightarrow> string + JobArgs) \<Rightarrow> (string \<Rightarrow> string \<Rightarrow> response option \<times> string option) \<Rightarrow> string \<Rightarrow>
   (JobResWithArgs option \<times> string option) option" where
  "defaultApiDo unmarshal request args =
     (case unmarshal args of
        Inl e \<Rightarrow> Some (None, Some e)
      | Inr ja \<Rightarrow>
          let url = job_url ja in
          if ja_Method ja \<noteq> HttpMethodGet \<and> ja_Method ja \<noteq> HttpMethodPost
          then Some (None, Some ''request method not support'')
          else (case request (ja_Method ja) url of
                  (None, err) \<Rightarrow> None
                | (Some r, err) \<Rightarrow>
                    let result = (if rp_Ok r then ''url:'' @ url @ ''; Result:'' @ rp_body r
                                  else ''url:'' @ url @ ''; Result:StatusCode is '' @ Itoa (rp_StatusCode r))
                    in Some (Some \<lparr>jr_Args = ja, jr_Response = Some r, jr_Result = result\<rparr>, err)))"

section \<open>The job manager\<close>

record NewSyncInfo =
  ns_Id :: string
  ns_Name :: string
  ns_ConNum :: int
  ns_Timeout :: int
  ns_NeedRes :: bool

record mg_TransInfo =
  ti_Action :: string
  ti_Data :: string

record runner =
  ru_name :: string
  ru_job :: SimpleJob

type_synonym jobManager = "(string, runner) gomap"

definition NewJobManager :: jobManager where "NewJobManager = []"

definition jm_inform :: "jobManager \<Rightarrow> runner \<Rightarrow> jobManager" where
  "jm_inform jm r = mput jm (sj_Id (ru_job r)) r"

definition jm_over :: "jobManager \<Rightarrow> string \<Rightarrow> jobManager" where
  "jm_over jm jid = mdel jm jid"

definition jm_syncSend :: "string list \<Rightarrow> mg_TransInfo \<Rightarrow> (string \<times> mg_TransInfo) list" where
  "jm_syncSend othHosts ti = map (\<lambda>host. (''http://'' @ host @ ''/api/v0/inner/sync'', ti)) othHosts"

definition newJob ::
  "(NewSyncInfo \<Rightarrow> string) \<Rightarrow> (string, ApiEntry) gomap \<Rightarrow> string \<Rightarrow> int \<Rightarrow> int \<Rightarrow> string list \<Rightarrow> jobManager \<Rightarrow>
   string \<Rightarrow> int \<Rightarrow> int \<Rightarrow> bool \<Rightarrow> jobManager \<times> redis_cmd list \<times> (string \<times> mg_TransInfo) list \<times> (string + SimpleJob)" where
  "newJob marshal apiMap localHost nano now othHosts jm name conNum timeout needRes =
     (case NewApiJob apiMap localHost nano now [] name conNum timeout needRes of
        None \<Rightarrow> (jm, [], [], Inl ''new job failed'')
      | Some (job, cmds) \<Rightarrow>
          (jm_inform jm \<lparr>ru_name = name, ru_job = job\<rparr>, cmds,
           jm_syncSend othHosts
             \<lparr>ti_Action = ''new'',
              ti_Data = marshal \<lparr>ns_Id = sj_Id job, ns_Name = name, ns_ConNum = conNum,
                                ns_Timeout = timeout, ns_NeedRes = False\<rparr>\<rparr>,
           Inr job))"

definition stop_runner :: "jobManager \<Rightarrow> string \<Rightarrow> jobManager option" where
  "stop_runner jm jid =
     (case map_of jm jid of
        None \<Rightarrow> Some jm
      | Some r \<Rightarrow> map_option (\<lambda>j. mput jm jid (r\<lparr>ru_job := j\<rparr>)) (job_Stop (ru_job r)))"

definition syncRecv ::
  "(string \<Rightarrow> NewSyncInfo option) \<Rightarrow> (string \<Rightarrow> string option) \<Rightarrow> (string, ApiEntry) gomap \<Rightarrow> string \<Rightarrow> int \<Rightarrow> int \<Rightarrow>
   jobManager \<Rightarrow> mg_TransInfo \<Rightarrow> (jobManager \<times> redis_cmd list) option" where
  "syncRecv unmarshalNew unmarshalStop apiMap localHost nano now jm ti =
     (if ti_Action ti = ''new'' then
        (case unmarshalNew (ti_Data ti) of
           None \<Rightarrow> Some (jm, [])
         | Some ns \<Rightarrow>
             (case NewApiJob apiMap localHost nano now (ns_Id ns) (ns_Name ns) (ns_ConNum ns) (ns_Timeout ns) (ns_NeedRes ns) of
                None \<Rightarrow> Some (jm, [])
              | Some (job, cmds) \<Rightarrow> Some (jm_inform jm \<lparr>ru_name = ns_Name ns, ru_job = job\<rparr>, cmds)))
      else if ti_Action ti = ''stop'' then
        (case unmarshalStop (ti_Data ti) of
           None \<Rightarrow> Some (jm, [])
         | Some jid \<Rightarrow> map_option (\<lambda>jm'. (jm', [])) (stop_runner jm jid))
      else Some (jm, []))"

definition stopJob ::
  "(string \<Rightarrow> string) \<Rightarrow> string list \<Rightarrow> jobManager \<Rightarrow> string \<Rightarrow> (jobManager \<times> (string \<times> mg_TransInfo) list) option" where
  "stopJob marshalStop othHosts jm jid =
     map_option (\<lambda>jm'. (jm', jm_syncSend othHosts \<lparr>ti_Action = ''stop'', ti_Data = marshalStop jid\<rparr>))
       (stop_runner jm jid)"

definition jm_distribute ::
  "(JobArgs \<Rightarrow> string option) \<Rightarrow> (nat \<Rightarrow> nat \<Rightarrow> int) \<Rightarrow> string \<Rightarrow> fetch_answer \<Rightarrow> jobManager \<Rightarrow> string \<Rightarrow>
   string + JobArgs list \<Rightarrow> redis_cmd list option" where
  "jm_distribute marshal val localHost reg jm jid dis =
     (case map_of jm jid of
        None \<Rightarrow> Some []
      | Some r \<Rightarrow> map_option fst (Distribute marshal val localHost reg (ru_job r) dis))"

definition jm_retry :: "fetch_answer \<Rightarrow> jobManager \<Rightarrow> string \<Rightarrow> string list \<Rightarrow> redis_cmd list option" where
  "jm_retry reg jm jid pops =
     (case map_of jm jid of None \<Rightarrow> Some [] | Some r \<Rightarrow> job_Retry reg (ru_job r) pops)"

definition jm_finish :: "fetch_answer \<Rightarrow> jobManager \<Rightarrow> string \<Rightarrow> redis_cmd list" where
  "jm_finish reg jm jid =
     (case map_of jm jid of None \<Rightarrow> [] | Some r \<Rightarrow> job_Finish reg (ru_job r))"

record cronJob =
  cj_name :: string
  cj_interval :: int
  cj_conNum :: int
  cj_timeout :: int

definition cron_Add :: "cronJob list \<Rightarrow> string \<Rightarrow> int \<Rightarrow> int \<Rightarrow> int \<Rightarrow> cronJob list" where
  "cron_Add jobs name interval conNum timeout =
     jobs @ [\<lparr>cj_name = name, cj_interval = interval, cj_conNum = conNum, cj_timeout = timeout\<rparr>]"

definition cronLock :: "cronJob \<Rightarrow> int \<Rightarrow> string" where
  "cronLock cj now = ''LOCK:'' @ cj_name cj @ '':'' @ Itoa (now div cj_interval cj)"

text \<open>
  A tick of a periodic job at second \<open>now\<close>: \<open>setnx\<close> is what Redis answers for a lock name.  The job is
  created, distributed and finished only by the instance that got the lock.
\<close>

definition Manage_tick ::
  "(string \<Rightarrow> bool) \<Rightarrow> (NewSyncInfo \<Rightarrow> string) \<Rightarrow> (string, ApiEntry) gomap \<Rightarrow> string \<Rightarrow> int \<Rightarrow> int \<Rightarrow> string list \<Rightarrow>
   (JobArgs \<Rightarrow> string option) \<Rightarrow> (nat \<Rightarrow> nat \<Rightarrow> int) \<Rightarrow> fetch_answer \<Rightarrow> string + JobArgs list \<Rightarrow>
   jobManager \<Rightarrow> cronJob \<Rightarrow> (jobManager \<times> redis_cmd list \<times> (string \<times> mg_TransInfo) list) option" where
  "Manage_tick setnx marshal apiMap localHost nano now othHosts jmarshal val reg dis jm cj =
     (if \<not> setnx (cronLock cj now) then Some (jm, [], [])
      else case newJob marshal apiMap localHost nano now othHosts jm (cj_name cj) (cj_conNum cj) (cj_timeout cj) False of
             (jm', cmds, posts, Inl e) \<Rightarrow> Some (jm', cmds, posts)
           | (jm', cmds, posts, Inr job) \<Rightarrow>
               (case jm_distribute jmarshal val localHost reg jm' (sj_Id job) dis of
                  None \<Rightarrow> None
                | Some ds \<Rightarrow> Some (jm', cmds @ ds @ jm_finish reg jm' (sj_Id job), posts)))"

section \<open>Distribution of the items\<close>

lemma publish_loop_spec:
  "publish_loop val k (a, v0) = (n, v) \<Longrightarrow> k < retriesMax \<Longrightarrow>
     n = a + min (retriesMax - k) (Suc (length (takeWhile (\<lambda>r. val r \<noteq> 1) [k..<retriesMax]))) \<and>
     (v = 1 \<longleftrightarrow> (\<exists>r. k \<le> r \<and> r < retriesMax \<and> val r = 1))"
proof (induction val k "(a, v0)" arbitrary: a v0 rule: publish_loop.induct)
  case (1 val k a v0)
  have up: "[k..<retriesMax] = k # [Suc k..<retriesMax]" using 1(3) by (rule upt_conv_Cons)
  show ?case
  proof (cases "val k = 1")
    case True
    then show ?thesis using 1(2,3) up by (auto simp: publish_loop.simps[of val k])
  next
    case False
    then have step: "publish_loop val (k + 1) (a + 1, val k) = (n, v)"
      using 1(2,3) by (simp add: publish_loop.simps[of val k])
    show ?thesis
    proof (cases "k + 1 < retriesMax")
      case lt: True
      have ex: "(\<exists>r. k \<le> r \<and> r < retriesMax \<and> val r = 1) \<longleftrightarrow> (\<exists>r. k + 1 \<le> r \<and> r < retriesMax \<and> val r = 1)"
        using False by (metis Suc_eq_plus1 Suc_leD le_antisym not_less_eq_eq)
      show ?thesis using 1(1)[OF 1(3) False _ lt] step False up lt unfolding ex by auto
    next
      case ge: False
      then have k: "Suc k = retriesMax" using 1(3) by simp
      have "(n, v) = (a + 1, val k)" using step ge by (simp add: publish_loop.simps[of val "Suc k"])
      then show ?thesis using False k up by (auto simp: less_Suc_eq_le) (metis le_antisym less_Suc_eq_le)
    qed
  qed
qed

text \<open>How often an item is published and whether it arrived, by the ten possible answers.\<close>

definition attempts :: "(nat \<Rightarrow> int) \<Rightarrow> nat" where
  "attempts val = min retriesMax (Suc (length (takeWhile (\<lambda>r. val r \<noteq> 1) [0..<retriesMax])))"

definition arrived :: "(nat \<Rightarrow> int) \<Rightarrow> bool" where
  "arrived val \<longleftrightarrow> list_ex (\<lambda>r. val r = 1) [0..<retriesMax]"

lemma publish_loop_attempts:
  "publish_loop val 0 (0, 0) = (n, v) \<Longrightarrow> n = attempts val \<and> (v = 1 \<longleftrightarrow> arrived val)"
  using publish_loop_spec[of val 0 0 0 n v]
  by (auto simp: attempts_def arrived_def retriesMax_def list_ex_iff)

definition item_ok :: "(JobArgs \<Rightarrow> string option) \<Rightarrow> (nat \<Rightarrow> nat \<Rightarrow> int) \<Rightarrow> nat \<times> JobArgs \<Rightarrow> bool" where
  "item_ok marshal val p \<longleftrightarrow> marshal (snd p) \<noteq> None \<and> arrived (val (fst p))"

definition item_publishes ::
  "(JobArgs \<Rightarrow> string option) \<Rightarrow> (nat \<Rightarrow> nat \<Rightarrow> int) \<Rightarrow> string list \<Rightarrow> string \<Rightarrow> nat \<times> JobArgs \<Rightarrow> redis_cmd list" where
  "item_publishes marshal val hosts jid p =
     (case marshal (snd p) of
        None \<Rightarrow> []
      | Some b \<Rightarrow> replicate (attempts (val (fst p))) (Publish (jobChannel (hosts ! (fst p mod length hosts)) jid) b))"

lemma Distribute_item_spec:
  "hosts \<noteq> [] \<Longrightarrow> Distribute_item marshal val hosts jid i item ds =
     Some \<lparr>ds_ok = ds_ok ds + (if item_ok marshal val (i, item) then 1 else 0),
           ds_failed = ds_failed ds + (if item_ok marshal val (i, item) then 0 else 1),
           ds_undist = ds_undist ds - 1,
           ds_cmds = ds_cmds ds @ item_publishes marshal val hosts jid (i, item)\<rparr>"
  using publish_loop_attempts[of "val i"]
  by (cases "publish_loop (val i) 0 (0, 0)")
    (auto simp: Distribute_item_def item_ok_def item_publishes_def Let_def split: option.splits)

lemma Distribute_loop_spec:
  "hosts \<noteq> [] \<Longrightarrow> Distribute_loop marshal val hosts jid i items ds =
     Some \<lparr>ds_ok = ds_ok ds + length (filter (item_ok marshal val) (enumerate i items)),
           ds_failed = ds_failed ds + length (filter (\<lambda>p. \<not> item_ok marshal val p) (enumerate i items)),
           ds_undist = ds_undist ds - int (length items),
           ds_cmds = ds_cmds ds @ concat (map (item_publishes marshal val hosts jid) (enumerate i items))\<rparr>"
  by (induction items arbitrary: i ds) (auto simp: Distribute_item_spec)

lemma Distribute_no_hosts:
  "mg_GetHosts reg = [] \<Longrightarrow> items \<noteq> [] \<Longrightarrow> Distribute marshal val lh reg sj (Inr items) = None"
  by (cases items) (simp_all add: Distribute_def Distribute_item_def)

text \<open>
  C26. Distributing a job: item \<open>i\<close> is published on the channel of instance \<open>i mod n\<close>, again and again until
  Redis reports one receiver, at most ten times, and the two counts say how many items arrived and how many
  did not; with no instance known the manager crashes by a division by zero as soon as there is an item.
\<close>

theorem Distribute_round_robin:
  "Distribute marshal val lh reg sj (Inr items) =
     (let hosts = mg_GetHosts reg; ps = enumerate 0 items; jid = sj_Id sj in
      if hosts = [] \<and> items \<noteq> [] then None
      else Some (concat (map (item_publishes marshal val hosts jid) ps) @
        [HSetR (JobInfo jid) ''distribute_failed_count'' (JNum (int (length (filter (\<lambda>p. \<not> item_ok marshal val p) ps)))),
         HSetR (JobInfo jid) ''distribute_ok_count'' (JNum (int (length (filter (item_ok marshal val) ps)))),
         HSetR (JobInfo jid) ''un_distribute_count'' (JNum 0),
         HSetR (JobStat jid) (lh @ ''_distribute'') (JStr ''ok'')], None))"
proof (cases "mg_GetHosts reg = []")
  case True
  then show ?thesis by (cases items) (simp_all add: Distribute_def Distribute_item_def Let_def)
next
  case False
  then show ?thesis by (simp add: Distribute_def Distribute_loop_spec Let_def)
qed

section \<open>Saving results\<close>

lemma push2Redis_loop_concat: "concat (push2Redis_loop key i xs) = drop i xs"
proof (induction key i xs rule: push2Redis_loop.induct)
  case (1 key i xs)
  show ?case
  proof (cases "i + 50 < length xs")
    case True
    then have "concat (push2Redis_loop key i xs) = take 50 (drop i xs) @ drop (i + 50) xs"
      using 1 by (simp add: push2Redis_loop.simps[of key i])
    then show ?thesis by (metis add.commute append_take_drop_id drop_drop)
  next
    case False
    then show ?thesis by (simp add: push2Redis_loop.simps[of key i])
  qed
qed

lemma push2Redis_loop_bounds: "c \<in> set (push2Redis_loop key i xs) \<Longrightarrow> c \<noteq> [] \<and> length c \<le> 50"
proof (induction key i xs rule: push2Redis_loop.induct)
  case (1 key i xs)
  then show ?case by (auto simp: push2Redis_loop.simps[of key i] split: if_splits)
qed

section \<open>Handling the items\<close>

definition incr_sum :: "string \<Rightarrow> redis_cmd list \<Rightarrow> int" where
  "incr_sum fld cmds = (\<Sum>c\<leftarrow>cmds. case c of HIncrBy k f n \<Rightarrow> if f = fld then n else 0 | _ \<Rightarrow> 0)"

lemma incr_sum_simps [simp]:
  "incr_sum fld [] = 0"
  "incr_sum fld (xs @ ys) = incr_sum fld xs + incr_sum fld ys"
  "incr_sum fld (push2Redis key l) = 0"
  by (simp_all add: incr_sum_def push2Redis_def comp_def)

lemma incr_sum_return [simp]:
  "incr_sum ''do_ok_count'' (worker_return sj w) = wk_doOK w"
  "incr_sum ''do_failed_count'' (worker_return sj w) = wk_doFail w"
  unfolding worker_return_def incr_sum_simps(2) by (simp_all add: incr_sum_def push2Redis_def comp_def)

lemma incr_sum_finish:
  "incr_sum fld [HSetR k f v, Expire k1 t1, Expire k2 t2] = 0"
  by (simp add: incr_sum_def)

text \<open>The counters of the workers that still run, and the number of those that have returned.\<close>

definition live_sum :: "(job_worker \<Rightarrow> int) \<Rightarrow> job_worker list \<Rightarrow> int" where
  "live_sum f ws = (\<Sum>w\<leftarrow>ws. if wk_returned w then 0 else f w)"

definition returned :: "job_worker list \<Rightarrow> int" where
  "returned ws = (\<Sum>w\<leftarrow>ws. if wk_returned w then 1 else 0)"

lemma sum_list_int_update:
  fixes xs :: "int list"
  shows "i < length xs \<Longrightarrow> sum_list (xs[i := x]) = sum_list xs + x - xs ! i"
  by (induction xs arbitrary: i) (auto split: nat.splits)

lemma worker_sums_update:
  assumes "i < length ws" "\<not> wk_returned (ws ! i)"
  shows "live_sum f (ws[i := w]) = live_sum f ws + (if wk_returned w then 0 else f w) - f (ws ! i)"
    and "returned (ws[i := w]) = returned ws + (if wk_returned w then 1 else 0)"
  using assms by (simp_all add: live_sum_def returned_def map_update sum_list_int_update)

lemma worker_sums_start [simp]:
  "f new_worker = 0 \<Longrightarrow> live_sum f (replicate n new_worker) = 0"
  "returned (replicate n new_worker) = 0"
  by (simp_all add: live_sum_def returned_def sum_list_replicate new_worker_def)

lemma all_returned:
  "list_all wk_returned ws \<Longrightarrow> live_sum f ws = 0 \<and> returned ws = int (length ws)"
  by (induction ws) (auto simp: live_sum_def returned_def)

lemma returned_less: "\<not> list_all wk_returned ws \<Longrightarrow> returned ws < int (length ws)"
proof (induction ws)
  case (Cons w ws)
  have "returned ws \<le> int (length ws)" by (induction ws) (auto simp: returned_def)
  then show ?case using Cons by (auto simp: returned_def)
qed simp

lemma worker_did_simps [simp]:
  "wk_doOK (worker_did m r err w) = wk_doOK w"
  "wk_doFail (worker_did m r err w) = wk_doFail w + (if err = None then 0 else 1)"
  "wk_returned (worker_did m r err w) = wk_returned w"
  "wk_phase (worker_did m r err w) = WDone r"
  by (simp_all add: worker_did_def split: option.splits)

lemma worker_rlt_simps [simp]:
  "wk_doOK (worker_rlt nr r w) = wk_doOK w + 1"
  "wk_doFail (worker_rlt nr r w) = wk_doFail w"
  "wk_returned (worker_rlt nr r w) = wk_returned w"
  "wk_phase (worker_rlt nr r w) = WIdle"
  by (simp_all add: worker_rlt_def Let_def split: option.splits)

text \<open>The items that workers are at, and the results that are not yet passed on.\<close>

definition doing1 :: "job_worker \<Rightarrow> string multiset" where
  "doing1 w = (case wk_phase w of WDoing m \<Rightarrow> {#m#} | _ \<Rightarrow> {#})"

definition done1 :: "job_worker \<Rightarrow> JobResWithArgs option multiset" where
  "done1 w = (case wk_phase w of WDone r \<Rightarrow> {#r#} | _ \<Rightarrow> {#})"

abbreviation doing :: "job_worker list \<Rightarrow> string multiset" where
  "doing ws \<equiv> sum_list (map doing1 ws)"

abbreviation donem :: "job_worker list \<Rightarrow> JobResWithArgs option multiset" where
  "donem ws \<equiv> sum_list (map done1 ws)"

lemma sum_list_mset_update:
  fixes f :: "'w \<Rightarrow> 'a multiset"
  shows "i < length ws \<Longrightarrow> sum_list (map f (ws[i := w])) + f (ws ! i) = sum_list (map f ws) + f w"
  by (induction ws arbitrary: i) (auto split: nat.splits simp: ac_simps)

definition run_inv :: "nat \<Rightarrow> run_state \<Rightarrow> bool" where
  "run_inv n s \<longleftrightarrow> length (rn_workers s) = n \<and>
     (\<exists>c. rn_sent s = c @ rn_ch s \<and> filter (\<lambda>m. m \<noteq> FinishFlag) c = rn_taken s \<and>
          (\<not> rn_cut s \<longrightarrow> int (length (filter (\<lambda>m. m = FinishFlag) c)) = returned (rn_workers s))) \<and>
     list_all (\<lambda>w. wk_returned w \<longrightarrow> wk_phase w = WIdle) (rn_workers s) \<and>
     mset (rn_taken s) = mset (map fst (rn_did s)) + doing (rn_workers s) \<and>
     mset (map (fst \<circ> snd) (rn_did s)) = mset (rn_rlt s) + donem (rn_workers s) \<and>
     incr_sum ''do_ok_count'' (rn_cmds s) + live_sum wk_doOK (rn_workers s) = int (length (rn_rlt s)) \<and>
     incr_sum ''do_failed_count'' (rn_cmds s) + live_sum wk_doFail (rn_workers s)
       = int (length (filter (\<lambda>d. snd (snd d) \<noteq> None) (rn_did s)))"

lemma list_all_update: "list_all P xs \<Longrightarrow> P x \<Longrightarrow> list_all P (xs[i := x])"
  by (auto simp: list_all_iff dest!: set_update_subset_insert[THEN subsetD])

lemma returned_idle:
  "run_inv n s \<Longrightarrow> i < length (rn_workers s) \<Longrightarrow> wk_phase (rn_workers s ! i) \<noteq> WIdle \<Longrightarrow> \<not> wk_returned (rn_workers s ! i)"
  by (auto simp: run_inv_def list_all_length)

lemma phase_update:
  assumes "i < length ws"
  shows "doing (ws[i := w]) + doing1 (ws ! i) = doing ws + doing1 w" "donem (ws[i := w]) + done1 (ws ! i) = donem ws + done1 w"
  using assms by (simp_all add: sum_list_mset_update)

lemma run_inv_leave:
  assumes "run_inv n s" and i: "waiting s i"
  shows "run_inv n (leave i (s\<lparr>rn_cut := True\<rparr>))"
    and "rn_ch s = FinishFlag # ms \<Longrightarrow> run_inv n (leave i (s\<lparr>rn_ch := ms\<rparr>))"
proof -
  let ?w = "(rn_workers s ! i)\<lparr>wk_returned := True\<rparr>"
  obtain c where c: "rn_sent s = c @ rn_ch s" "filter (\<lambda>m. m \<noteq> FinishFlag) c = rn_taken s"
    "\<not> rn_cut s \<longrightarrow> int (length (filter (\<lambda>m. m = FinishFlag) c)) = returned (rn_workers s)"
    using assms(1) by (auto simp: run_inv_def)
  have p: "doing ((rn_workers s)[i := ?w]) = doing (rn_workers s)" "donem ((rn_workers s)[i := ?w]) = donem (rn_workers s)"
    using phase_update[of i "rn_workers s" ?w] i by (simp_all add: doing1_def done1_def)
  have l: "list_all (\<lambda>w. wk_returned w \<longrightarrow> wk_phase w = WIdle) ((rn_workers s)[i := ?w])"
    using assms by (intro list_all_update) (simp_all add: run_inv_def)
  show "run_inv n (leave i (s\<lparr>rn_cut := True\<rparr>))"
    using assms c l by (auto simp: run_inv_def leave_def worker_sums_update p)
  assume ch: "rn_ch s = FinishFlag # ms"
  have "rn_sent s = (c @ [FinishFlag]) @ ms" using c ch by simp
  moreover have "filter (\<lambda>m. m \<noteq> FinishFlag) (c @ [FinishFlag]) = rn_taken s" using c by simp
  moreover have "\<not> rn_cut s \<longrightarrow> int (length (filter (\<lambda>m. m = FinishFlag) (c @ [FinishFlag])))
      = returned (rn_workers s) + 1" using c by simp
  ultimately show "run_inv n (leave i (s\<lparr>rn_ch := ms\<rparr>))"
    using assms l unfolding run_inv_def leave_def by (simp add: worker_sums_update p)
qed

lemma run_inv_take:
  assumes inv: "run_inv n s" and i: "waiting s i" and ch: "rn_ch s = m # ms" "m \<noteq> FinishFlag"
  shows "run_inv n (s\<lparr>rn_ch := ms, rn_taken := rn_taken s @ [m], rn_workers := (rn_workers s)[i := (rn_workers s ! i)\<lparr>wk_phase := WDoing m\<rparr>]\<rparr>)"
proof -
  let ?w = "(rn_workers s ! i)\<lparr>wk_phase := WDoing m\<rparr>"
  obtain c where c: "rn_sent s = c @ rn_ch s" "filter (\<lambda>m. m \<noteq> FinishFlag) c = rn_taken s"
    "\<not> rn_cut s \<longrightarrow> int (length (filter (\<lambda>m. m = FinishFlag) c)) = returned (rn_workers s)"
    using inv by (auto simp: run_inv_def)
  have p: "doing ((rn_workers s)[i := ?w]) = doing (rn_workers s) + {#m#}" "donem ((rn_workers s)[i := ?w]) = donem (rn_workers s)"
    using phase_update[of i "rn_workers s" ?w] i by (simp_all add: doing1_def done1_def)
  have l: "list_all (\<lambda>w. wk_returned w \<longrightarrow> wk_phase w = WIdle) ((rn_workers s)[i := ?w])"
    using inv i by (intro list_all_update) (simp_all add: run_inv_def)
  have "rn_sent s = (c @ [m]) @ ms" using c ch by simp
  moreover have "filter (\<lambda>m. m \<noteq> FinishFlag) (c @ [m]) = rn_taken s @ [m]" using c ch by simp
  moreover have "\<not> rn_cut s \<longrightarrow> int (length (filter (\<lambda>m. m = FinishFlag) (c @ [m]))) = returned (rn_workers s)"
    using c ch by simp
  ultimately show ?thesis
    using inv i l unfolding run_inv_def by (simp add: worker_sums_update p)
qed

lemma run_inv_did:
  assumes inv: "run_inv n s" and i: "i < length (rn_workers s)" "wk_phase (rn_workers s ! i) = WDoing m"
  shows "run_inv n (s\<lparr>rn_did := rn_did s @ [(m, r, err)], rn_workers := (rn_workers s)[i := worker_did m r err (rn_workers s ! i)]\<rparr>)"
proof -
  let ?w = "worker_did m r err (rn_workers s ! i)"
  have nr: "\<not> wk_returned (rn_workers s ! i)" using returned_idle[OF inv i(1)] i(2) by simp
  have p: "doing ((rn_workers s)[i := ?w]) + {#m#} = doing (rn_workers s)" "donem ((rn_workers s)[i := ?w]) = donem (rn_workers s) + {#r#}"
    using phase_update[of i "rn_workers s" ?w] i by (simp_all add: doing1_def done1_def)
  have l: "list_all (\<lambda>w. wk_returned w \<longrightarrow> wk_phase w = WIdle) ((rn_workers s)[i := ?w])"
    using inv nr by (intro list_all_update) (simp_all add: run_inv_def)
  show ?thesis using inv i nr l p(1)[symmetric] unfolding run_inv_def by (simp add: worker_sums_update p(2))
qed

lemma run_inv_rlt:
  assumes inv: "run_inv n s" and i: "i < length (rn_workers s)" "wk_phase (rn_workers s ! i) = WDone r"
  shows "run_inv n (s\<lparr>rn_rlt := rn_rlt s @ [r], rn_workers := (rn_workers s)[i := worker_rlt nr r (rn_workers s ! i)]\<rparr>)"
proof -
  let ?w = "worker_rlt nr r (rn_workers s ! i)"
  have nr: "\<not> wk_returned (rn_workers s ! i)" using returned_idle[OF inv i(1)] i(2) by simp
  have p: "doing ((rn_workers s)[i := ?w]) = doing (rn_workers s)" "donem ((rn_workers s)[i := ?w]) + {#r#} = donem (rn_workers s)"
    using phase_update[of i "rn_workers s" ?w] i by (simp_all add: doing1_def done1_def)
  have l: "list_all (\<lambda>w. wk_returned w \<longrightarrow> wk_phase w = WIdle) ((rn_workers s)[i := ?w])"
    using inv nr by (intro list_all_update) (simp_all add: run_inv_def)
  show ?thesis using inv i nr l p(2)[symmetric] unfolding run_inv_def by (simp add: worker_sums_update p(1))
qed

lemma run_inv_step: "run_step s s' \<Longrightarrow> run_inv n s \<Longrightarrow> run_inv n s'"
proof (induction rule: run_step.induct)
  case (message s m)
  then show ?case unfolding run_inv_def by auto
next
  case (take i s m ms)
  then show ?case by (intro run_inv_take)
next
  case (did i s m r err)
  then show ?case by (intro run_inv_did)
next
  case (rlt i s r)
  then show ?case by (intro run_inv_rlt)
next
  case (finish i s ms)
  then show ?case by (intro run_inv_leave(2))
next
  case (closed i s)
  then show ?case by (intro run_inv_leave(1))
next
  case (timeout i s)
  then show ?case by (intro run_inv_leave(1))
next
  case (stopped i s)
  then show ?case by (intro run_inv_leave(1))
qed (simp_all add: run_inv_def)

lemma run_reachable_inv:
  "run_reachable s0 s \<Longrightarrow> run_inv n s0 \<Longrightarrow> run_inv n s"
  by (induction rule: run_reachable.induct) (auto intro: run_inv_step)

lemma run_inv_start: "run_inv (nat (sj_ConNum sj)) (Run_start lh sj)"
proof -
  have "doing (replicate k new_worker) = {#}" "donem (replicate k new_worker) = {#}" for k
    by (induction k) (simp_all add: doing1_def done1_def new_worker_def)
  then show ?thesis
    by (auto simp: run_inv_def Run_start_def incr_sum_def list_all_iff new_worker_def[THEN arg_cong[of _ _ wk_doOK]]
      new_worker_def[THEN arg_cong[of _ _ wk_doFail]] new_worker_def[THEN arg_cong[of _ _ wk_phase]])
qed

lemma finish_prefix:
  assumes eq: "c @ r = jobs @ replicate n FinishFlag" and jobs: "FinishFlag \<notin> set jobs" and n: "0 < n"
  shows "length (filter (\<lambda>m. m = FinishFlag) c) = n \<Longrightarrow> filter (\<lambda>m. m \<noteq> FinishFlag) c = jobs \<and> r = []"
    and "r = [] \<Longrightarrow> length (filter (\<lambda>m. m = FinishFlag) c) = n"
proof -
  have no: "filter (\<lambda>m. m = FinishFlag) xs = []" "filter (\<lambda>m. m \<noteq> FinishFlag) xs = xs" if "set xs \<subseteq> set jobs" for xs
    using that jobs by (auto simp: filter_empty_conv filter_id_conv)
  show "r = [] \<Longrightarrow> length (filter (\<lambda>m. m = FinishFlag) c) = n" using eq no by simp
  assume len: "length (filter (\<lambda>m. m = FinishFlag) c) = n"
  obtain us where "c = jobs @ us \<and> us @ r = replicate n FinishFlag \<or> c @ us = jobs \<and> r = us @ replicate n FinishFlag"
    using eq by (auto simp: append_eq_append_conv2)
  then show "filter (\<lambda>m. m \<noteq> FinishFlag) c = jobs \<and> r = []"
  proof
    assume a: "c = jobs @ us \<and> us @ r = replicate n FinishFlag"
    then have us: "\<forall>m \<in> set us. m = FinishFlag" by (metis Un_iff in_set_replicate set_append)
    then have "filter (\<lambda>m. m = FinishFlag) us = us" "filter (\<lambda>m. m \<noteq> FinishFlag) us = []" by simp_all
    then have "length us = n" using len a no[of jobs] by simp
    moreover have "length us + length r = n" using a by (metis length_append length_replicate)
    ultimately show ?thesis using a no[of jobs] us by simp
  next
    assume "c @ us = jobs \<and> r = us @ replicate n FinishFlag"
    then have "filter (\<lambda>m. m = FinishFlag) c = []" by (intro no) auto
    then show ?thesis using len n by simp
  qed
qed

lemma all_idle:
  "list_all (\<lambda>w. wk_returned w \<longrightarrow> wk_phase w = WIdle) ws \<Longrightarrow> list_all wk_returned ws \<Longrightarrow> doing ws = {#} \<and> donem ws = {#}"
  by (induction ws) (auto simp: doing1_def done1_def)

lemma items_handled:
  assumes reach: "run_reachable (Run_start lh sj) s"
    and sent: "rn_sent s = jobs @ replicate (nat (sj_ConNum sj)) FinishFlag" "FinishFlag \<notin> set jobs" "0 < sj_ConNum sj"
    and cut: "\<not> rn_cut s"
  shows "Run_over lh s = None \<Longrightarrow> rn_ch s \<noteq> []"
    and "Run_over lh s = Some cmds \<Longrightarrow> rn_taken s = jobs \<and> mset (map fst (rn_did s)) = mset jobs \<and>
           mset (rn_rlt s) = mset (map (fst \<circ> snd) (rn_did s)) \<and> incr_sum ''do_ok_count'' cmds = int (length jobs) \<and>
           incr_sum ''do_failed_count'' cmds = int (length (filter (\<lambda>d. snd (snd d) \<noteq> None) (rn_did s)))"
proof -
  let ?n = "nat (sj_ConNum sj)"
  have inv: "run_inv ?n s" by (rule run_reachable_inv[OF reach run_inv_start])
  then obtain c where c: "rn_sent s = c @ rn_ch s" "filter (\<lambda>m. m \<noteq> FinishFlag) c = rn_taken s"
    "int (length (filter (\<lambda>m. m = FinishFlag) c)) = returned (rn_workers s)"
    using cut by (auto simp: run_inv_def)
  have eq: "c @ rn_ch s = jobs @ replicate ?n FinishFlag" using c(1) sent(1) by simp
  have n: "0 < ?n" using sent(3) by simp
  have len: "length (rn_workers s) = ?n" using inv by (simp only: run_inv_def)
  note pre = finish_prefix[OF eq sent(2) n, unfolded c(2)]
  show "Run_over lh s = None \<Longrightarrow> rn_ch s \<noteq> []"
  proof
    assume "Run_over lh s = None" "rn_ch s = []"
    then have not: "\<not> list_all wk_returned (rn_workers s)" and "length (filter (\<lambda>m. m = FinishFlag) c) = ?n"
      using pre(2) by (auto simp: Run_over_def split: if_splits)
    then show False using returned_less[OF not] c(3) len by linarith
  qed
  assume over: "Run_over lh s = Some cmds"
  then have all: "list_all wk_returned (rn_workers s)" by (simp add: Run_over_def split: if_splits)
  then have "length (filter (\<lambda>m. m = FinishFlag) c) = ?n"
    using c(3) len all_returned[OF all, of wk_doOK] by linarith
  then have jobs: "rn_taken s = jobs" using pre(1) by blast
  have "doing (rn_workers s) = {#} \<and> donem (rn_workers s) = {#}" using all_idle[OF _ all] inv by (simp add: run_inv_def)
  then have m: "mset (map fst (rn_did s)) = mset jobs" "mset (rn_rlt s) = mset (map (fst \<circ> snd) (rn_did s))"
    using inv jobs by (simp_all add: run_inv_def)
  then have "length (rn_rlt s) = length jobs" by (metis length_map size_mset)
  then show "rn_taken s = jobs \<and> mset (map fst (rn_did s)) = mset jobs \<and> mset (rn_rlt s) = mset (map (fst \<circ> snd) (rn_did s)) \<and>
      incr_sum ''do_ok_count'' cmds = int (length jobs) \<and>
      incr_sum ''do_failed_count'' cmds = int (length (filter (\<lambda>d. snd (snd d) \<noteq> None) (rn_did s)))"
    using over all inv m jobs by (auto simp: Run_over_def run_inv_def all_returned incr_sum_finish)
qed

text \<open>
  C8. The workers of an instance, in every interleaving of their calls of \<open>Do\<close> and \<open>Rlt\<close>: when the subscription was confirmed, the items of a job and one
  finish message for each worker were delivered, and no worker timed out or was stopped, then a message is waiting
  as long as a worker has not returned.  Once all have returned, the items were taken in order, \<open>Do\<close> was called exactly once for each item, in
  whatever order the calls ended, and \<open>Rlt\<close> exactly once with each result.  The count of successful items reported to Redis is
  then the number of all items, also those whose request failed.
\<close>

theorem job_items_handled_once:
  assumes "Run_begin lh sj receiveErr = Inr s0" "run_reachable s0 s"
    and "rn_sent s = jobs @ replicate (nat (sj_ConNum sj)) FinishFlag" "FinishFlag \<notin> set jobs" "0 < sj_ConNum sj"
    and "\<not> rn_cut s"
  shows "case Run_over lh s of
           None \<Rightarrow> rn_ch s \<noteq> []
         | Some cmds \<Rightarrow> rn_taken s = jobs \<and> mset (map fst (rn_did s)) = mset jobs \<and>
             mset (rn_rlt s) = mset (map (fst \<circ> snd) (rn_did s)) \<and>
             incr_sum ''do_ok_count'' cmds = int (length jobs) \<and>
             incr_sum ''do_failed_count'' cmds = int (length (filter (\<lambda>d. snd (snd d) \<noteq> None) (rn_did s)))"
proof -
  have "s0 = Run_start lh sj" using assms(1) by (simp add: Run_begin_def split: option.splits)
  then show ?thesis using items_handled[of lh sj s jobs] assms by (cases "Run_over lh s") simp_all
qed

text \<open>
  Two workers and two items: the second worker takes the second item before the call for the first one, which fails, has ended, and
  its own call ends first.
\<close>

definition sample_job :: SimpleJob where
  "sample_job = \<lparr>sj_Id = ''j'', sj_Name = ''Agent_Task'', sj_Mode = 0, sj_Meta = api ''ac'' ''/command'' HttpMethodPost None,
     sj_Workers = [], sj_ConNum = 2, sj_Timeout = 60, sj_NeedRes = True, sj_Done = False\<rparr>"

lemma sample_run:
  "\<exists>s. run_reachable (Run_start ''h'' sample_job) s \<and> rn_sent s = [''a'', ''b'', FinishFlag, FinishFlag] \<and>
     \<not> rn_cut s \<and> map fst (rn_did s) = [''b'', ''a''] \<and> list_all wk_returned (rn_workers s)"
proof -
  define st where "st ch se tk dd rl ws cm = \<lparr>rn_ch = ch, rn_closed = False, rn_job = sample_job, rn_workers = ws, rn_cmds = cm,
      rn_sent = se, rn_taken = tk, rn_did = dd, rn_rlt = rl, rn_cut = False\<rparr>" for ch se tk dd rl ws cm
  have put: "run_step (st ch se tk dd rl ws cm) (st (ch @ [m]) (se @ [m]) tk dd rl ws cm)" for ch se tk dd rl ws cm m
    using run_step.message[of "st ch se tk dd rl ws cm" m] by (simp add: st_def)
  have tak: "run_step (st (m # ms) se tk dd rl ws cm) (st ms se (tk @ [m]) dd rl (ws[i := (ws ! i)\<lparr>wk_phase := WDoing m\<rparr>]) cm)"
    if "i < length ws" "\<not> wk_returned (ws ! i)" "wk_phase (ws ! i) = WIdle" "m \<noteq> FinishFlag" for m ms se tk dd rl ws cm i
    using run_step.take[where s = "st (m # ms) se tk dd rl ws cm" and i = i and m = m and ms = ms] that by (simp add: st_def)
  have did: "run_step (st ch se tk dd rl ws cm) (st ch se tk (dd @ [(m, r, e)]) rl (ws[i := worker_did m r e (ws ! i)]) cm)"
    if "i < length ws" "wk_phase (ws ! i) = WDoing m" for ch se tk dd rl ws cm i m r e
    using run_step.did[where s = "st ch se tk dd rl ws cm" and i = i and m = m] that by (simp add: st_def)
  have rlt: "run_step (st ch se tk dd rl ws cm) (st ch se tk dd (rl @ [r]) (ws[i := worker_rlt True r (ws ! i)]) cm)"
    if "i < length ws" "wk_phase (ws ! i) = WDone r" for ch se tk dd rl ws cm i r
    using run_step.rlt[where s = "st ch se tk dd rl ws cm" and i = i and r = r] that by (simp add: st_def sample_job_def)
  have fin: "run_step (st (FinishFlag # ms) se tk dd rl ws cm)
      (st ms se tk dd rl (ws[i := (ws ! i)\<lparr>wk_returned := True\<rparr>]) (cm @ worker_return sample_job (ws ! i)))"
    if "i < length ws" "\<not> wk_returned (ws ! i)" "wk_phase (ws ! i) = WIdle" for ms se tk dd rl ws cm i
    using run_step.finish[where s = "st (FinishFlag # ms) se tk dd rl ws cm" and i = i and ms = ms] that by (simp add: st_def leave_def)
  let ?S = "Run_start ''h'' sample_job" and ?q = "[''a'', ''b'', FinishFlag, FinishFlag]" and ?n = new_worker
  let ?d = "\<lambda>m. ?n\<lparr>wk_phase := WDoing m\<rparr>" and ?c = "[HSetR (JobStat (sj_Id sample_job)) (''h'' @ ''_run'') (JStr ''ok'')]"
  let ?A = "worker_did ''a'' None (Some ''refused'') (?d ''a'')" and ?B = "worker_did ''b'' None None (?d ''b'')"
  let ?A' = "worker_rlt True None ?A" and ?B' = "worker_rlt True None ?B"
  let ?D = "[(''b'', None, None), (''a'', None, Some ''refused'')]"
  have n: "\<not> wk_returned ?n" "wk_phase ?n = WIdle" "''a'' \<noteq> FinishFlag" "''b'' \<noteq> FinishFlag"
    by (simp_all add: new_worker_def FinishFlag_def)
  note go = run_reachable.step
  have S: "?S = st [] [] [] [] [] [?n, ?n] ?c" by (simp add: st_def Run_start_def) (simp add: sample_job_def numeral_2_eq_2)
  have 0: "run_reachable ?S (st ?q ?q [] [] [] [?n, ?n] ?c)"
    using go[OF go[OF go[OF go[OF run_reachable.start[of ?S, unfolded S] put[where m = "''a''"]] put[where m = "''b''"]] put[where m = FinishFlag]] put[where m = FinishFlag]]
    unfolding S[symmetric] by simp
  have 1: "run_reachable ?S (st [''b'', FinishFlag, FinishFlag] ?q [''a''] [] [] [?d ''a'', ?n] ?c)"
    using go[OF 0 tak[of 0]] n by simp
  have 2: "run_reachable ?S (st [FinishFlag, FinishFlag] ?q [''a'', ''b''] [] [] [?d ''a'', ?d ''b''] ?c)"
    using go[OF 1 tak[of 1]] n by simp
  have 3: "run_reachable ?S (st [FinishFlag, FinishFlag] ?q [''a'', ''b''] [(''b'', None, None)] [] [?d ''a'', ?B] ?c)"
    using go[OF 2 did[of 1 _ "''b''" _ _ _ _ _ _ None None]] by simp
  have 4: "run_reachable ?S (st [FinishFlag, FinishFlag] ?q [''a'', ''b''] ?D [] [?A, ?B] ?c)"
    using go[OF 3 did[of 0 _ "''a''" _ _ _ _ _ _ None "Some ''refused''"]] by simp
  have 5: "run_reachable ?S (st [FinishFlag, FinishFlag] ?q [''a'', ''b''] ?D [None] [?A', ?B] ?c)"
    using go[OF 4 rlt[of 0 _ None]] by simp
  have 6: "run_reachable ?S (st [FinishFlag, FinishFlag] ?q [''a'', ''b''] ?D [None, None] [?A', ?B'] ?c)"
    using go[OF 5 rlt[of 1 _ None]] by simp
  have 7: "run_reachable ?S (st [FinishFlag] ?q [''a'', ''b''] ?D [None, None] [?A'\<lparr>wk_returned := True\<rparr>, ?B'] (?c @ worker_return sample_job ?A'))"
    using go[OF 6 fin[of 0]] n by simp
  have "run_reachable ?S (st [] ?q [''a'', ''b''] ?D [None, None] [?A'\<lparr>wk_returned := True\<rparr>, ?B'\<lparr>wk_returned := True\<rparr>]
      ((?c @ worker_return sample_job ?A') @ worker_return sample_job ?B'))"
    using go[OF 7 fin[of 1]] n by simp
  then show ?thesis by (intro exI conjI) (assumption, simp_all add: st_def)
qed

theorem job_items_handled_once_witness:
  "\<exists>s cmds. run_reachable (Run_start ''h'' sample_job) s \<and> Run_over ''h'' s = Some cmds \<and> rn_taken s = [''a'', ''b''] \<and>
     map fst (rn_did s) = [''b'', ''a''] \<and> incr_sum ''do_ok_count'' cmds = 2"
proof -
  obtain s where s: "run_reachable (Run_start ''h'' sample_job) s" "rn_sent s = [''a'', ''b'', FinishFlag, FinishFlag]"
     "\<not> rn_cut s" "map fst (rn_did s) = [''b'', ''a'']" "list_all wk_returned (rn_workers s)"
    using sample_run by (elim exE conjE) (rule that)
  have n: "nat (sj_ConNum sample_job) = 2" "0 < sj_ConNum sample_job" by (simp_all add: sample_job_def)
  have b: "Run_begin ''h'' sample_job None = Inr (Run_start ''h'' sample_job)" by (simp add: Run_begin_def)
  have q: "rn_sent s = [''a'', ''b''] @ replicate (nat (sj_ConNum sample_job)) FinishFlag" by (simp add: s(2) n(1) numeral_2_eq_2)
  have f: "FinishFlag \<notin> set [''a'', ''b'']" by (simp add: FinishFlag_def)
  obtain cmds where o: "Run_over ''h'' s = Some cmds" using s(5) by (simp add: Run_over_def)
  have t: "rn_taken s = [''a'', ''b'']" "incr_sum ''do_ok_count'' cmds = 2"
    using job_items_handled_once[OF b s(1) q f n(2) s(3)] unfolding o option.case by simp_all
  show ?thesis by (intro exI conjI, rule s(1), rule o, rule t(1), rule s(4), rule t(2))
qed

section \<open>Announcing a job\<close>

text \<open>
  A job that is to save its results is announced to the other instances without that wish: an
  instance that receives the announcement runs the same job, with the same number of
  workers, and never saves a result.
\<close>

theorem announced_job_saves_nothing:
  assumes json: "\<And>ns. unmarshalNew (marshal ns) = Some ns"
    and new: "newJob marshal apiMap lh nano now othHosts jm name conNum timeout needRes = (jm', cmds, posts, Inr job)"
    and post: "(url, ti) \<in> set posts"
    and recv: "syncRecv unmarshalNew unmarshalStop apiMap lh2 nano2 now2 jm2 ti = Some (jm2', cmds2)"
  shows "\<exists>job2. map_of jm2' (sj_Id job) = Some \<lparr>ru_name = name, ru_job = job2\<rparr> \<and>
     job2 = job\<lparr>sj_NeedRes := False\<rparr> \<and>
     (\<forall>w. \<not> list_ex (\<lambda>c. case c of LPush k rs \<Rightarrow> k = JobResp (sj_Id job) | _ \<Rightarrow> False) (worker_return job2 w))"
proof -
  obtain e where e: "map_of apiMap name = Some e"
    using new by (auto simp: newJob_def NewApiJob_def split: option.splits)
  define i where "i = jobIdFmt name nano"
  have i: "i \<noteq> []" by (simp add: i_def jobIdFmt_def)
  have job: "job = \<lparr>sj_Id = i, sj_Name = name, sj_Mode = 0, sj_Meta = e, sj_Workers = [], sj_ConNum = conNum,
      sj_Timeout = timeout, sj_NeedRes = needRes, sj_Done = False\<rparr>"
    using new e by (auto simp: newJob_def NewApiJob_def NewSimpleJob_def Let_def i_def)
  have ti: "ti = \<lparr>ti_Action = ''new'', ti_Data = marshal \<lparr>ns_Id = i, ns_Name = name, ns_ConNum = conNum,
      ns_Timeout = timeout, ns_NeedRes = False\<rparr>\<rparr>"
    using new post e by (auto simp: newJob_def NewApiJob_def NewSimpleJob_def Let_def jm_syncSend_def i_def)
  have "jm2' = jm_inform jm2 \<lparr>ru_name = name, ru_job = job\<lparr>sj_NeedRes := False\<rparr>\<rparr>"
    using recv e i by (auto simp: syncRecv_def ti json NewApiJob_def NewSimpleJob_def Let_def job)
  then show ?thesis
    by (simp add: jm_inform_def job worker_return_def push2Redis_def list_ex_iff JobResp_def JobRetry_def)
qed

text \<open>An encoding of announcements that is read back, standing for the JSON encoder.\<close>

definition sample_marshal :: "NewSyncInfo \<Rightarrow> string" where
  "sample_marshal ns = replicate (to_nat (ns_Id ns, ns_Name ns, ns_ConNum ns, ns_Timeout ns, ns_NeedRes ns)) CHR ''x''"

definition sample_unmarshal :: "string \<Rightarrow> NewSyncInfo option" where
  "sample_unmarshal d =
     (let (i, n, c, t, r) = from_nat (length d) in Some \<lparr>ns_Id = i, ns_Name = n, ns_ConNum = c, ns_Timeout = t, ns_NeedRes = r\<rparr>)"

lemma sample_json: "sample_unmarshal (sample_marshal ns) = Some ns"
  by (simp add: sample_unmarshal_def sample_marshal_def)

lemma syncRecv_new:
  "ti_Action ti = ''new'' \<Longrightarrow> \<exists>jm' cmds. syncRecv unmarshalNew unmarshalStop apiMap lh nano now jm ti = Some (jm', cmds)"
  by (simp add: syncRecv_def split: option.split prod.split)

theorem announced_job_saves_nothing_witness:
  "\<exists>jm' cmds posts job jm2' cmds2 job2.
     newJob sample_marshal (InitApiMap ''ac'') ''h1'' 7 0 [''h2:80''] [] ''Agent_Task'' 5 60 True = (jm', cmds, posts, Inr job) \<and>
     posts \<noteq> [] \<and> sj_NeedRes job \<and>
     syncRecv sample_unmarshal Some (InitApiMap ''ac'') ''h2'' 8 0 [] (snd (hd posts)) = Some (jm2', cmds2) \<and>
     map_of jm2' (sj_Id job) = Some \<lparr>ru_name = ''Agent_Task'', ru_job = job2\<rparr> \<and> \<not> sj_NeedRes job2"
proof -
  obtain jm' cmds posts job where new:
    "newJob sample_marshal (InitApiMap ''ac'') ''h1'' 7 0 [''h2:80''] [] ''Agent_Task'' 5 60 True = (jm', cmds, posts, Inr job)"
    and job: "posts \<noteq> []" "sj_NeedRes job"
    by (simp add: newJob_def NewApiJob_def InitApiMap_def NewSimpleJob_def Let_def jm_syncSend_def)
  obtain url ti where hd: "hd posts = (url, ti)" by (cases "hd posts")
  then have post: "(url, ti) \<in> set posts" using job(1) by (metis list.set_sel(1))
  have "ti_Action ti = ''new''"
    using new post by (auto simp: newJob_def jm_syncSend_def split: option.splits)
  then obtain jm2' cmds2 where recv:
    "syncRecv sample_unmarshal Some (InitApiMap ''ac'') ''h2'' 8 0 [] ti = Some (jm2', cmds2)"
    using syncRecv_new by blast
  show ?thesis
    using announced_job_saves_nothing[OF sample_json new post recv] new job recv hd by auto
qed

text \<open>
  Stopping a running job a second time, before its workers have left, closes a closed channel: the
  manager crashes, on the instance that was asked and on every instance that receives the message.
\<close>

theorem second_stop_panics:
  assumes "map_of jm jid = Some r" "sj_Id (ru_job r) = jid" "stopJob marshalStop othHosts jm jid = Some (jm', posts)"
  shows "stopJob marshalStop othHosts jm' jid = None \<and>
     (unmarshalStop (ti_Data ti) = Some jid \<and> ti_Action ti = ''stop'' \<longrightarrow>
        syncRecv unmarshalNew unmarshalStop apiMap lh nano now jm' ti = None)"
  using assms by (auto simp: stopJob_def stop_runner_def job_Stop_def syncRecv_def split: option.splits if_splits)

theorem second_stop_panics_witness:
  "\<exists>jm' posts. stopJob id [''h2:80''] [(''j'', \<lparr>ru_name = ''Agent_Task'', ru_job = sample_job\<rparr>)] ''j'' = Some (jm', posts) \<and>
     stopJob id [''h2:80''] jm' ''j'' = None \<and>
     syncRecv (\<lambda>_. None) Some [] ''h'' 0 0 jm' \<lparr>ti_Action = ''stop'', ti_Data = ''j''\<rparr> = None"
proof -
  let ?jm = "[(''j'', \<lparr>ru_name = ''Agent_Task'', ru_job = sample_job\<rparr>)]"
  obtain jm' posts where st: "stopJob id [''h2:80''] ?jm ''j'' = Some (jm', posts)"
    by (simp add: stopJob_def stop_runner_def job_Stop_def sample_job_def)
  show ?thesis
    using second_stop_panics[where jm = ?jm and unmarshalNew = "\<lambda>_. None" and unmarshalStop = Some and apiMap = "[]" and lh = "''h''"
        and nano = 0 and now = 0 and ti = "\<lparr>ti_Action = ''stop'', ti_Data = ''j''\<rparr>", OF _ _ st] st
    by (simp add: sample_job_def)
qed

end
