(* ===== verification/DbWriter.thy ===== *)
theory DbWriter
  imports DistributedJob Batching
begin

text \<open>
  The asynchronous database writers of the manager, \<open>server/manager/internal/dbtask\<close>: \<open>db_writer.go\<close>,
  \<open>agent_hb.go\<close>, \<open>agent_subtask.go\<close> and \<open>agent_update_subtask.go\<close>.

  A writer is a bounded queue and a goroutine that turns queued values into write models and hands
  them to the database in bulk.  A document is a Go map to JSON values; a write model is an
  insertion or an update of the first document that has the fields of a filter, with a document
  inserted if there is none.  The bulk writes are unordered: the database may apply the
  models of one batch in any order.
\<close>

type_synonym doc = "(string, json) gomap"

datatype write_model =
    InsertOne doc
  | UpdateOne doc doc doc

definition SendCountWeight :: nat where "SendCountWeight = 1000"
definition channelSize :: nat where "channelSize = 1024 * 4"

section \<open>The queue of a writer\<close>

definition writer_Add :: "'v list \<Rightarrow> 'v \<Rightarrow> 'v list" where
  "writer_Add queue v = (case chan_try_send channelSize queue v of Some q \<Rightarrow> q | None \<Rightarrow> queue)"

text \<open>
  The registered writers: the queue of each key.  The first write through one of the
  functions registers its writer; \<open>asyncWrite\<close> adds to the queue.
\<close>

type_synonym 'v writers = "(string, 'v list) gomap"

definition registerWriter :: "'v writers \<Rightarrow> string \<Rightarrow> 'v writers" where
  "registerWriter ws key = mput ws key []"

definition asyncWrite :: "'v writers \<Rightarrow> string \<Rightarrow> 'v \<Rightarrow> 'v writers" where
  "asyncWrite ws key v = (case map_of ws key of Some q \<Rightarrow> mput ws key (writer_Add q v) | None \<Rightarrow> ws)"

definition once_write :: "string \<Rightarrow> 'v writers \<Rightarrow> 'v \<Rightarrow> 'v writers" where
  "once_write key ws v =
     asyncWrite (if map_of ws key = None then registerWriter ws key else ws) key v"

definition KeyAgentHB :: string where "KeyAgentHB = ''key_agentHB''"
definition KeyAgentSubTask :: string where "KeyAgentSubTask = ''key_agentSubTask''"
definition KeyAgentSubTaskUpdate :: string where "KeyAgentSubTaskUpdate = ''key_agentSubTask_update''"

definition HBAsyncWrite :: "'v writers \<Rightarrow> 'v \<Rightarrow> 'v writers" where
  "HBAsyncWrite = once_write KeyAgentHB"

definition SubTaskAsyncWrite :: "'v writers \<Rightarrow> 'v \<Rightarrow> 'v writers" where
  "SubTaskAsyncWrite = once_write KeyAgentSubTask"

definition SubTaskUpdateAsyncWrite :: "'v writers \<Rightarrow> 'v \<Rightarrow> 'v writers" where
  "SubTaskUpdateAsyncWrite = once_write KeyAgentSubTaskUpdate"

section \<open>The loop of a writer\<close>

text \<open>One round: \<open>ev\<close> is the write model of a received value, or a tick of the timer.\<close>

definition writer_step :: "nat \<Rightarrow> 'm list \<Rightarrow> 'm option \<Rightarrow> 'm list \<times> 'm list option" where
  "writer_step limit writes ev =
     (case ev of
        Some m \<Rightarrow>
          let writes = writes @ [m]
          in if length writes \<ge> limit then ([], Some writes) else (writes, None)
      | None \<Rightarrow> if length writes < 1 then (writes, None) else ([], Some writes))"

definition subTaskUpdate_model :: "int \<Rightarrow> doc \<Rightarrow> write_model option" where
  "subTaskUpdate_model now item =
     (let filt = (case (map_of item ''task_id'', map_of item ''agent_id'', map_of item ''token'') of
                    (Some t, Some a, _) \<Rightarrow> Some [(''task_id'', t), (''agent_id'', a)]
                  | (_, _, Some k) \<Rightarrow> Some [(''token'', k)]
                  | _ \<Rightarrow> None)
      in map_option (\<lambda>f. UpdateOne f (mput item ''update_time'' (JNum now)) []) filt)"

definition hb_model :: "(int \<Rightarrow> string) \<Rightarrow> int \<Rightarrow> mg_ConnStat \<Rightarrow> write_model option" where
  "hb_model fmt now conn =
     (case cs_AgentInfo conn of
        None \<Rightarrow> None
      | Some ai \<Rightarrow>
          (case map_of ai ''agent_id'' of
             None \<Rightarrow> None
           | Some agentID \<Rightarrow>
               let ai = (case map_of ai ''last_heartbeat_time'' of
                           Some (JNum t) \<Rightarrow> mput ai ''last_heartbeat_time_format'' (JStr (fmt t))
                         | _ \<Rightarrow> ai);
                   ai = (case cs_PluginsInfo conn of Some ps \<Rightarrow> mput ai ''plugins'' (JArr ps) | None \<Rightarrow> ai)
               in Some (UpdateOne [(''agent_id'', agentID)] ai
                    [(''first_heartbeat_time'', JNum now), (''first_heartbeat_time_format'', JStr (fmt now))])))"

text \<open>
  The three loops: received values that give no model are skipped.  An event is a value with
  the time of its arrival, or a tick.
\<close>

definition Run_round :: "nat \<Rightarrow> ('v \<Rightarrow> 'm option) \<Rightarrow> 'm list \<Rightarrow> 'v option \<Rightarrow> 'm list \<times> 'm list option" where
  "Run_round limit model writes ev =
     (case ev of
        None \<Rightarrow> writer_step limit writes None
      | Some v \<Rightarrow> (case model v of None \<Rightarrow> (writes, None) | Some m \<Rightarrow> writer_step limit writes (Some m)))"

definition subTaskWriter_Run :: "write_model list \<Rightarrow> doc option \<Rightarrow> write_model list \<times> write_model list option" where
  "subTaskWriter_Run = Run_round SendCountWeight (\<lambda>d. Some (InsertOne d))"

definition subTaskUpdateWriter_Run :: "write_model list \<Rightarrow> (int \<times> doc) option \<Rightarrow> write_model list \<times> write_model list option" where
  "subTaskUpdateWriter_Run = Run_round SendCountWeight (\<lambda>(now, d). subTaskUpdate_model now d)"

definition hbWriter_Run :: "(int \<Rightarrow> string) \<Rightarrow> write_model list \<Rightarrow> (int \<times> mg_ConnStat) option \<Rightarrow> write_model list \<times> write_model list option" where
  "hbWriter_Run fmt = Run_round SendCountWeight (\<lambda>(now, c). hb_model fmt now c)"

text \<open>The writers of alarms insert what they receive, in batches of a hundred.\<close>

definition hubAlarmWriter_Run :: "write_model list \<Rightarrow> doc option \<Rightarrow> write_model list \<times> write_model list option" where
  "hubAlarmWriter_Run = Run_round 100 (\<lambda>item. Some (InsertOne item))"

definition kubeAlarmWriter_Run :: "write_model list \<Rightarrow> doc option \<Rightarrow> write_model list \<times> write_model list option" where
  "kubeAlarmWriter_Run = Run_round 100 (\<lambda>item. Some (InsertOne item))"

definition raspAlarmWriter_Run :: "write_model list \<Rightarrow> doc option \<Rightarrow> write_model list \<times> write_model list option" where
  "raspAlarmWriter_Run = Run_round 100 (\<lambda>item. Some (InsertOne item))"

definition virusDetectionWriter_Run :: "write_model list \<Rightarrow> doc option \<Rightarrow> write_model list \<times> write_model list option" where
  "virusDetectionWriter_Run = Run_round 100 (\<lambda>item. Some (InsertOne item))"

interpretation db_batches: batcher "writer_step (Suc n)" "Suc n" for n
proof (unfold_locales, goal_cases)
  case (1 pending ev pending' out)
  then show ?case by (cases ev) (auto simp: writer_step_def Let_def split: if_splits)
next
  case (2 pending ev pending' out)
  then show ?case by (cases ev) (auto simp: writer_step_def Let_def split: if_splits)
next
  case (3 pending ev pending' b)
  then show ?case by (cases ev) (auto simp: writer_step_def Let_def split: if_splits)
next
  case (4 pending pending' out)
  then show ?case by (auto simp: writer_step_def split: if_splits)
qed

fun run_writer :: "nat \<Rightarrow> ('v \<Rightarrow> 'm option) \<Rightarrow> 'm list \<Rightarrow> 'v option list \<Rightarrow> 'm list \<times> 'm list list" where
  "run_writer limit model writes [] = (writes, [])"
| "run_writer limit model writes (ev # evs) =
     (let (writes', out) = Run_round limit model writes ev;
          (writes'', outs) = run_writer limit model writes' evs
      in (writes'', opt_list out @ outs))"

text \<open>The events of the loop as the batching contract sees them: skipped values are no event.\<close>

fun model_events :: "('v \<Rightarrow> 'm option) \<Rightarrow> 'v option list \<Rightarrow> 'm option list" where
  "model_events model [] = []"
| "model_events model (None # evs) = None # model_events model evs"
| "model_events model (Some v # evs) =
     (case model v of None \<Rightarrow> model_events model evs | Some m \<Rightarrow> Some m # model_events model evs)"

lemma run_writer_batches:
  "run_writer limit model writes evs = run_batches (writer_step limit) writes (model_events model evs)"
  by (induction model evs arbitrary: writes rule: model_events.induct)
    (auto simp: Run_round_def split: option.splits prod.splits)

lemma model_events_values:
  "concat (map opt_list (model_events model evs)) = List.map_filter model (concat (map opt_list evs))"
  by (induction model evs rule: model_events.induct) (auto simp: List.map_filter_simps split: option.splits)

lemma model_events_append: "model_events model (evs @ evs') = model_events model evs @ model_events model evs'"
  by (induction model evs rule: model_events.induct) (auto split: option.splits)

text \<open>
  C35. A writer of the database hands on the write model of every value it received that has one, exactly
  once and in order, in nonempty batches of at most its limit; a tick leaves nothing behind.
\<close>

theorem writer_hands_on_all:
  assumes "run_writer (Suc n) model [] evs = (rest, batches)"
  shows "concat batches @ rest = List.map_filter model (concat (map opt_list evs)) \<and>
     length rest < Suc n \<and> list_all (\<lambda>b. b \<noteq> [] \<and> length b \<le> Suc n) batches \<and>
     (evs \<noteq> [] \<and> last evs = None \<longrightarrow> rest = [])"
proof -
  have run: "run_batches (writer_step (Suc n)) [] (model_events model evs) = (rest, batches)"
    using assms by (simp add: run_writer_batches)
  have "rest = []" if "evs \<noteq> []" "last evs = None"
  proof -
    have "evs = butlast evs @ [None]" using that by (metis append_butlast_last_id)
    then have "model_events model evs = model_events model (butlast evs) @ [None]"
      by (metis model_events.simps(1,2) model_events_append)
    then show ?thesis using db_batches.run_tick_flushes run by metis
  qed
  then show ?thesis
    using db_batches.run_conserves[OF run] db_batches.run_bounds[OF run] by (simp add: model_events_values)
qed

theorem writer_hands_on_all_witness:
  "run_writer (Suc 1) (\<lambda>x. if x = 0 then None else Some x) [] [Some (1::int), Some 0, Some 2, Some 3, None] = ([], [[1, 2], [3]]) \<and>
   concat [[1, 2], [3]] @ [] = List.map_filter (\<lambda>x. if x = 0 then None else Some x)
     (concat (map opt_list [Some (1::int), Some 0, Some 2, Some 3, None]))"
proof -
  have run: "run_writer (Suc 1) (\<lambda>x. if x = 0 then None else Some x) [] [Some (1::int), Some 0, Some 2, Some 3, None] = ([], [[1, 2], [3]])"
    by (simp add: Run_round_def writer_step_def)
  show ?thesis using writer_hands_on_all[OF run] run by blast
qed

section \<open>The asset writer\<close>

text \<open>
  \<open>hub_asset.go\<close>: the assets of an agent, one document each, with the sequence number of the scan that
  found them.  The documents of another scan are deleted when the first document of a scan arrives;
  the insertions are buffered and handed on in batches.
\<close>

datatype asset_cmd =
    DeleteMany string string
  | BulkWrite "doc list"

record asset_worker =
  aw_writes :: "doc list"
  aw_seqCache :: "(string, string) gomap"

definition dtList :: "string list" where
  "dtList = map (\<lambda>n. Itoa n) [5050..5065]"

definition ip_list :: "string \<Rightarrow> string \<Rightarrow> doc \<Rightarrow> doc" where
  "ip_list src dst item =
     (case map_of item src of
        Some (JStr tmp) \<Rightarrow> if tmp \<noteq> [] then mput item dst (JArr (map JStr (Split tmp '','')))
                           else mput item dst (JArr [])
      | _ \<Rightarrow> mput item dst (JArr []))"

definition str_to_int :: "string \<Rightarrow> doc \<Rightarrow> doc" where
  "str_to_int k item =
     (case map_of item k of Some (JStr tmp) \<Rightarrow> mput item k (JNum (fst (ParseInt tmp))) | _ \<Rightarrow> item)"

definition asset_item :: "string list \<Rightarrow> int \<Rightarrow> string \<Rightarrow> doc \<Rightarrow> doc" where
  "asset_item commCache now dt item =
     (let item = ip_list ''in_ipv4_list'' ''intranet_ipv4'' item;
          item = ip_list ''in_ipv6_list'' ''intranet_ipv6'' item;
          item = ip_list ''ex_ipv4_list'' ''extranet_ipv4'' item;
          item = ip_list ''ex_ipv6_list'' ''extranet_ipv6'' item;
          item = foldl mdel item [''in_ipv4_list'', ''in_ipv6_list'', ''ex_ipv4_list'', ''ex_ipv6_list''];
          item = str_to_int ''start_time'' item;
          item = str_to_int ''last_login_time'' item;
          item = str_to_int ''modify_time'' item;
          item = str_to_int ''create_time'' item;
          item = (if dt = ''5050''
                  then mput item ''common'' (JBool (case map_of item ''checksum'' of Some (JStr cs) \<Rightarrow> cs \<in> set commCache | _ \<Rightarrow> False))
                  else item)
      in mput item ''update_time'' (JNum now))"

definition hubAsset_Run :: "(string, doc list) gomap \<Rightarrow> doc \<Rightarrow> (string, doc list) gomap" where
  "hubAsset_Run workerQueue item =
     (case map_of item ''data_type'' of
        Some (JStr dT) \<Rightarrow>
          (case map_of workerQueue dT of
             Some q \<Rightarrow> mput workerQueue dT (writer_Add q item)
           | None \<Rightarrow> workerQueue)
      | _ \<Rightarrow> workerQueue)"

definition WriterRun :: "string list \<Rightarrow> int \<Rightarrow> string \<Rightarrow> asset_worker \<Rightarrow> doc option \<Rightarrow> asset_worker \<times> asset_cmd list" where
  "WriterRun commCache now dt w ev =
     (case ev of
        None \<Rightarrow>
          if length (aw_writes w) < 1 then (w, []) else (w\<lparr>aw_writes := []\<rparr>, [BulkWrite (aw_writes w)])
      | Some item \<Rightarrow>
          (case (map_of item ''package_seq'', map_of item ''agent_id'') of
             (Some (JStr seq), Some (JStr agentID)) \<Rightarrow>
               let item = asset_item commCache now dt item;
                   new = ((case map_of (aw_seqCache w) agentID of Some q \<Rightarrow> q | None \<Rightarrow> []) \<noteq> seq);
                   w = (if new then w\<lparr>aw_seqCache := mput (aw_seqCache w) agentID seq\<rparr> else w);
                   dels = (if new then [DeleteMany agentID seq] else []);
                   writes = aw_writes w @ [item]
               in if length writes \<ge> 100 then (w\<lparr>aw_writes := []\<rparr>, dels @ [BulkWrite writes])
                  else (w\<lparr>aw_writes := writes\<rparr>, dels)
           | _ \<Rightarrow> (w, [])))"

fun asset_run :: "string list \<Rightarrow> int \<Rightarrow> string \<Rightarrow> asset_worker \<Rightarrow> doc option list \<Rightarrow> asset_cmd list" where
  "asset_run cc now dt w [] = []"
| "asset_run cc now dt w (ev # evs) = (let (w', cmds) = WriterRun cc now dt w ev in cmds @ asset_run cc now dt w' evs)"

text \<open>
  What the database holds after the commands: \<open>DeleteMany\<close> removes the agent's documents of another scan,
  \<open>BulkWrite\<close> inserts.  Both are what the database promises for these commands.
\<close>

definition asset_spec :: "('d \<Rightarrow> asset_cmd \<Rightarrow> 'd) \<Rightarrow> ('d \<Rightarrow> doc list) \<Rightarrow> bool" where
  "asset_spec exec docs \<longleftrightarrow>
     (\<forall>d a q. docs (exec d (DeleteMany a q)) =
        filter (\<lambda>x. \<not> (map_of x ''agent_id'' = Some (JStr a) \<and> map_of x ''package_seq'' \<noteq> Some (JStr q))) (docs d)) \<and>
     (\<forall>d ws. mset (docs (exec d (BulkWrite ws))) = mset (docs d) + mset ws)"

definition asset_doc :: "string \<Rightarrow> string \<Rightarrow> doc" where
  "asset_doc agent seq = [(''agent_id'', JStr agent), (''package_seq'', JStr seq)]"

lemma ip_list_other: "k \<noteq> dst \<Longrightarrow> map_of (ip_list src dst item) k = map_of item k"
  by (auto simp: ip_list_def split: option.splits json.splits)

lemma str_to_int_other: "k \<noteq> k' \<Longrightarrow> map_of (str_to_int k' item) k = map_of item k"
  by (auto simp: str_to_int_def split: option.splits json.splits)

lemma asset_item_keys:
  "map_of (asset_item cc now dt item) ''agent_id'' = map_of item ''agent_id''"
  "map_of (asset_item cc now dt item) ''package_seq'' = map_of item ''package_seq''"
  by (simp_all add: asset_item_def Let_def ip_list_other str_to_int_other)

lemma asset_run_two_scans:
  assumes "seq1 \<noteq> seq2" "seq1 \<noteq> []" "seq2 \<noteq> []"
  shows "asset_run cc now dt \<lparr>aw_writes = [], aw_seqCache = []\<rparr> [Some (asset_doc a seq1), Some (asset_doc a seq2), None]
     = [DeleteMany a seq1, DeleteMany a seq2,
        BulkWrite [asset_item cc now dt (asset_doc a seq1), asset_item cc now dt (asset_doc a seq2)]]"
  using assms by (simp add: WriterRun_def asset_doc_def[of _ seq1] asset_doc_def[of _ seq2] Let_def)

text \<open>
  A document of an old scan outlives the new one: when the last document of a scan is still buffered
  as the first document of the next scan arrives, the deletion runs before the buffered
  insertion, and the database is left with documents of both scans.
\<close>

theorem stale_assets_survive:
  assumes db: "asset_spec exec docs" and seqs: "seq1 \<noteq> seq2" "seq1 \<noteq> []" "seq2 \<noteq> []"
  shows "{Some (JStr seq1), Some (JStr seq2)} \<subseteq>
     (\<lambda>x. map_of x ''package_seq'') ` set (docs (foldl exec d0
        (asset_run cc now dt \<lparr>aw_writes = [], aw_seqCache = []\<rparr> [Some (asset_doc a seq1), Some (asset_doc a seq2), None])))"
proof -
  let ?d = "exec (exec d0 (DeleteMany a seq1)) (DeleteMany a seq2)"
  let ?ws = "[asset_item cc now dt (asset_doc a seq1), asset_item cc now dt (asset_doc a seq2)]"
  have "mset (docs (exec ?d (BulkWrite ?ws))) = mset (docs ?d) + mset ?ws"
    using db unfolding asset_spec_def by blast
  then have "set (docs (exec ?d (BulkWrite ?ws))) = set (docs ?d) \<union> set ?ws"
    by (metis set_mset_mset set_mset_union)
  moreover have "map_of (asset_item cc now dt (asset_doc a q)) ''package_seq'' = Some (JStr q)" for q
    by (simp add: asset_item_keys asset_doc_def)
  ultimately show ?thesis unfolding asset_run_two_scans[OF seqs] by (simp add: image_iff)
qed

definition sample_exec :: "doc list \<Rightarrow> asset_cmd \<Rightarrow> doc list" where
  "sample_exec d c =
     (case c of
        DeleteMany a q \<Rightarrow> filter (\<lambda>x. \<not> (map_of x ''agent_id'' = Some (JStr a) \<and> map_of x ''package_seq'' \<noteq> Some (JStr q))) d
      | BulkWrite ws \<Rightarrow> d @ ws)"

theorem stale_assets_survive_witness:
  "asset_spec sample_exec id \<and>
   Some (JStr ''s1'') \<in> (\<lambda>x. map_of x ''package_seq'') ` set (foldl sample_exec []
        (asset_run [] 9 ''5055'' \<lparr>aw_writes = [], aw_seqCache = []\<rparr> [Some (asset_doc ''agent'' ''s1''), Some (asset_doc ''agent'' ''s2''), None]))"
proof -
  have db: "asset_spec sample_exec id" by (simp add: asset_spec_def sample_exec_def)
  show ?thesis
    using stale_assets_survive[OF db, of "''s1''" "''s2''" "[]" "[]" 9 "''5055''" "''agent''"] db by auto
qed

end
