(* ===== verification/AgentTask.thy ===== *)
theory AgentTask
  imports DbWriter
begin

text \<open>
  Agent tasks of the manager, \<open>server/manager/internal/atask\<close>: \<open>task.go\<close>, \<open>subtask.go\<close>, \<open>job.go\<close> and \<open>fast.go\<close>.

  A task selects agents and writes one subtask for each; running it hands the next agents of
  its to-do list to a distributed job; the answers of the agent centers and of the agents update the
  subtasks.  The database, the locks in Redis and HTTP are services: their answers are arguments,
  and what is sent to them is the result.  Slices that several agents share are kept as arrays in a
  store.  A panic is \<^const>\<open>None\<close>.
\<close>

section \<open>Tasks\<close>

record AgentConfigMsg =
  cm_Name :: string
  cm_Type :: string
  cm_Signature :: string
  cm_Version :: string
  cm_SHA256 :: string
  cm_DownloadURL :: "string list"
  cm_Detail :: string

record AgentTaskMsg =
  tm_Name :: string
  tm_Data :: string
  tm_Token :: string
  tm_DataType :: int

record AgentTask =
  at_TaskID :: string
  at_TaskType :: string
  at_Action :: string
  at_SubTimeout :: int
  at_AgentCtrl :: int
  at_Task :: AgentTaskMsg
  at_Config :: "AgentConfigMsg list"
  at_InnerStatus :: string
  at_TaskStatus :: string
  at_ToDoList :: "string list"
  at_IDCount :: nat
  at_DistributedCount :: int
  at_JobList :: "string list"
  at_SubCreated :: int
  at_SubRunning :: int
  at_SubFailed :: int
  at_SubSucceed :: int
  at_CreateTime :: int
  at_UpdateTime :: int

definition TypeAgentConfig :: string where "TypeAgentConfig = ''Agent_Config''"
definition TypeAgentTask :: string where "TypeAgentTask = ''Agent_Task''"
definition TypeAgentCtrl :: string where "TypeAgentCtrl = ''Agent_Ctrl''"
definition TaskStatusCreated :: string where "TaskStatusCreated = ''created''"
definition TaskStatusRunning :: string where "TaskStatusRunning = ''running''"
definition TaskStatusFinished :: string where "TaskStatusFinished = ''finished''"
definition TaskStatusStopped :: string where "TaskStatusStopped = ''cancelled''"
definition TaskStatusFail :: string where "TaskStatusFail = ''failed''"
definition TaskStatusSuccess :: string where "TaskStatusSuccess = ''succeed''"
definition TaskStatusResultFail :: string where "TaskStatusResultFail = ''result_failed''"
definition TaskStatusResultSuccess :: string where "TaskStatusResultSuccess = ''result_succeed''"

lemmas status_defs = TaskStatusCreated_def TaskStatusRunning_def TaskStatusFinished_def TaskStatusStopped_def
  TaskStatusFail_def TaskStatusSuccess_def TaskStatusResultFail_def TaskStatusResultSuccess_def

text \<open>The updates of the stored task, each the fields of a \<open>$set\<close>, and what they set.\<close>

datatype task_update =
    SetTodo "string list" nat int
  | SetInner int string
  | SetRun "string list" int string string int "string list"
  | SetStop int string string
  | SetStat int int int int string int

fun task_set :: "task_update \<Rightarrow> AgentTask \<Rightarrow> AgentTask" where
  "task_set (SetTodo todo n now) t = t\<lparr>at_ToDoList := todo, at_IDCount := n, at_UpdateTime := now\<rparr>"
| "task_set (SetInner now s) t = t\<lparr>at_UpdateTime := now, at_InnerStatus := s\<rparr>"
| "task_set (SetRun todo now ts is dc jl) t =
     t\<lparr>at_ToDoList := todo, at_UpdateTime := now, at_TaskStatus := ts, at_InnerStatus := is,
       at_DistributedCount := dc, at_JobList := jl\<rparr>"
| "task_set (SetStop now ts is) t = t\<lparr>at_UpdateTime := now, at_TaskStatus := ts, at_InnerStatus := is\<rparr>"
| "task_set (SetStat c f s r ts now) t =
     t\<lparr>at_SubCreated := c, at_SubFailed := f, at_SubSucceed := s, at_SubRunning := r, at_TaskStatus := ts, at_UpdateTime := now\<rparr>"

section \<open>Creating a task\<close>

text \<open>
  The goroutine of \<open>CreateTask\<close> over the decoded heartbeats (\<^const>\<open>None\<close> where decoding failed): agents seen
  before are skipped, subtasks are inserted in batches of a hundred.
\<close>

record create_state =
  cr_todo :: "string list"
  cr_map :: "(string, bool) gomap"
  cr_writes :: "doc list"
  cr_bulks :: "doc list list"

definition new_subtask :: "string \<Rightarrow> string \<Rightarrow> int \<Rightarrow> string \<Rightarrow> doc" where
  "new_subtask tType taskID now agent =
     [(''append_data'', JNull), (''task_type'', JStr tType), (''task_data_type'', JNum 0), (''agent_id'', JStr agent),
      (''task_id'', JStr taskID), (''job_id'', JStr []), (''task_data'', JNull), (''task_url'', JStr []), (''token'', JStr []),
      (''status'', JStr TaskStatusCreated), (''status_msg'', JStr []), (''insert_time'', JNum now), (''update_time'', JNum now),
      (''job_time_out_time'', JNum 0), (''job_start_time'', JNum 0), (''task_result'', JStr []), (''task_resp'', JStr [])]"

definition create_one :: "string \<Rightarrow> string \<Rightarrow> int \<Rightarrow> create_state \<Rightarrow> string option \<Rightarrow> create_state" where
  "create_one tType taskID now s hb =
     (case hb of
        None \<Rightarrow> s
      | Some agent \<Rightarrow>
          if map_of (cr_map s) agent \<noteq> None then s
          else let writes = cr_writes s @ [new_subtask tType taskID now agent];
                   s = s\<lparr>cr_map := mput (cr_map s) agent True, cr_todo := cr_todo s @ [agent]\<rparr>
               in if length writes < 100 then s\<lparr>cr_writes := writes\<rparr>
                  else s\<lparr>cr_writes := [], cr_bulks := cr_bulks s @ [writes]\<rparr>)"

definition create_subtasks :: "string \<Rightarrow> string \<Rightarrow> int \<Rightarrow> string option list \<Rightarrow> doc list list \<times> string list" where
  "create_subtasks tType taskID now hbs =
     (let s = foldl (create_one tType taskID now) \<lparr>cr_todo = [], cr_map = [], cr_writes = [], cr_bulks = []\<rparr> hbs
      in (cr_bulks s @ (if length (cr_writes s) > 0 then [cr_writes s] else []), cr_todo s))"

text \<open>
  \<open>CreateTask\<close>: the task inserted by the caller's goroutine and, if the lock was taken, the insertions and
  the update of the task made by the other goroutine.
\<close>

definition CreateTask ::
  "string \<Rightarrow> int \<Rightarrow> bool \<Rightarrow> string option list \<Rightarrow> AgentTask \<Rightarrow> string \<Rightarrow> AgentTask \<times> doc list list \<times> task_update option" where
  "CreateTask taskID now lock hbs request tType =
     (let t = request\<lparr>at_InnerStatus := TaskStatusCreated, at_TaskStatus := TaskStatusCreated, at_ToDoList := [],
                at_TaskType := tType, at_JobList := [], at_CreateTime := now, at_UpdateTime := now, at_IDCount := 0,
                at_TaskID := taskID, at_DistributedCount := 0\<rparr>;
          (bulks, todo) = create_subtasks tType taskID now hbs
      in if lock then (t, bulks, Some (SetTodo todo (length todo) now)) else (t, [], None))"

definition CreateCtrlTask where "CreateCtrlTask taskID now lock hbs t = CreateTask taskID now lock hbs t TypeAgentTask"
definition CreateConfTask where "CreateConfTask taskID now lock hbs t = CreateTask taskID now lock hbs t TypeAgentConfig"
definition CreateTaskTask where "CreateTaskTask taskID now lock hbs t = CreateTask taskID now lock hbs t TypeAgentTask"

text \<open>Cancelling: the lock is a Redis answer, an error or whether it was free.\<close>

definition CancelTask :: "int \<Rightarrow> string + bool \<Rightarrow> string option \<Rightarrow> task_update option \<times> string option" where
  "CancelTask now lock dbErr =
     (case lock of
        Inl e \<Rightarrow> (None, Some e)
      | Inr False \<Rightarrow> (None, Some ''jobs is running, please try later'')
      | Inr True \<Rightarrow> (Some (SetStop now TaskStatusStopped TaskStatusStopped), dbErr))"

section \<open>Running a task\<close>

text \<open>
  A positive \<open>float64\<close> is \<open>m * 2 ^ e\<close>.  The product with the exact \<open>float64\<close> of a count is rounded to 53 bits, half to
  even, and converted to \<open>int\<close> by truncation; a value outside the range of \<open>int\<close> becomes \<open>- 2 ^ 63\<close>, as on amd64.
\<close>

fun nat_bits :: "nat \<Rightarrow> nat" where
  "nat_bits n = (if n = 0 then 0 else Suc (nat_bits (n div 2)))"

declare nat_bits.simps [simp del]

definition f64_round :: "nat \<Rightarrow> int \<Rightarrow> nat \<times> int" where
  "f64_round m e =
     (let n = nat_bits m in
      if n \<le> 53 then (m, e)
      else let k = n - 53; q = m div 2 ^ k; r = m mod 2 ^ k; half = 2 ^ (k - 1)
           in (if r > half \<or> (r = half \<and> odd q) then q + 1 else q, e + int k))"

definition f64_to_int :: "nat \<times> int \<Rightarrow> int" where
  "f64_to_int f =
     (let (m, e) = f; v = (if e \<ge> 0 then m * 2 ^ nat e else m div 2 ^ nat (- e))
      in if int v \<ge> 2 ^ 63 then - (2 ^ 63) else int v)"

definition roll_count :: "nat \<Rightarrow> nat \<times> int \<Rightarrow> int" where
  "roll_count idCount roll = f64_to_int (f64_round (idCount * fst roll) (snd roll))"

definition nCount_of :: "AgentTask \<Rightarrow> (nat \<times> int) option \<Rightarrow> int \<Rightarrow> int" where
  "nCount_of t roll runCount =
     (case roll of
        Some r \<Rightarrow> let c = roll_count (at_IDCount t) r in if c = 0 then c + 1 else c
      | None \<Rightarrow> runCount)"

datatype task_error = BadArgs | LockError string | LockHeld | DbError string | TaskOver | JobError string

text \<open>
  \<open>RunTask\<close>: \<open>roll\<close> is the fraction if it is positive.  The result is a panic, or the update
  written to the task, and the error, or the new job with the agents handed to it and the rest of the task.
\<close>

definition RunTask ::
  "int \<Rightarrow> string + bool \<Rightarrow> string + AgentTask \<Rightarrow> string + string \<Rightarrow> (nat \<times> int) option \<Rightarrow> int \<Rightarrow>
   (task_update option \<times> (task_error + string \<times> string list)) option" where
  "RunTask now lock found made roll runCount =
     (if roll = None \<and> runCount \<le> 0 then Some (None, Inl BadArgs)
      else case lock of
        Inl e \<Rightarrow> Some (None, Inl (LockError e))
      | Inr False \<Rightarrow> Some (None, Inl LockHeld)
      | Inr True \<Rightarrow>
          (case found of
             Inl e \<Rightarrow> Some (None, Inl (DbError e))
           | Inr t \<Rightarrow>
               if at_InnerStatus t = TaskStatusStopped \<or> at_InnerStatus t = TaskStatusFinished then Some (None, Inl TaskOver)
               else if length (at_ToDoList t) = 0
               then Some (Some (SetInner (at_UpdateTime t) TaskStatusFinished), Inl TaskOver)
               else
                 let n0 = nCount_of t roll runCount;
                     (n, inner) = (if n0 < int (length (at_ToDoList t)) then (n0, TaskStatusRunning)
                                   else (int (length (at_ToDoList t)), TaskStatusFinished))
                 in if n < 0 then None
                    else let todo = take (nat n) (at_ToDoList t); rest = drop (nat n) (at_ToDoList t);
                             dc = at_DistributedCount t + int (length todo)
                         in case made of
                              Inl e \<Rightarrow> Some (None, Inl (JobError e))
                            | Inr jID \<Rightarrow>
                                Some (Some (SetRun rest now TaskStatusRunning inner dc (at_JobList t @ [jID])), Inr (jID, todo))))"

section \<open>The state of a task\<close>

datatype subtask_cmd =
    TimeoutResult string int
  | TimeoutSend string int

definition count_status :: "(string \<times> int) list \<Rightarrow> string list \<Rightarrow> int" where
  "count_status res ss = (\<Sum>(s, n)\<leftarrow>res. if s \<in> set ss then n else 0)"

definition computeTaskStat ::
  "int \<Rightarrow> string option \<Rightarrow> string option \<Rightarrow> string + (string \<times> int) list \<Rightarrow> AgentTask \<Rightarrow>
   subtask_cmd list \<times> (string + task_update)" where
  "computeTaskStat now err1 err2 agg t =
     (let timeOut = now - at_SubTimeout t;
          cmds1 = (if at_SubTimeout t \<noteq> 0 then [TimeoutResult (at_TaskID t) timeOut] else []);
          cmds2 = (if at_SubTimeout t \<noteq> 0 then [TimeoutSend (at_TaskID t) timeOut] else [])
      in if at_SubTimeout t \<noteq> 0 \<and> err1 \<noteq> None then (cmds1, Inl (the err1))
         else if at_SubTimeout t \<noteq> 0 \<and> err2 \<noteq> None then (cmds1 @ cmds2, Inl (the err2))
         else (cmds1 @ cmds2,
           case agg of
             Inl e \<Rightarrow> Inl e
           | Inr res \<Rightarrow>
               let answered = (at_TaskType t = TypeAgentTask \<and> at_Action t \<noteq> ''reboot_agent'');
                   created = count_status res [TaskStatusCreated];
                   running = count_status res (if answered then [TaskStatusSuccess, TaskStatusRunning] else [TaskStatusRunning]);
                   failed = count_status res (if answered then [TaskStatusFail, TaskStatusResultFail] else [TaskStatusFail]);
                   succeed = count_status res (if answered then [TaskStatusResultSuccess] else [TaskStatusSuccess]);
                   ts = (if at_InnerStatus t \<noteq> TaskStatusCreated \<and> at_InnerStatus t \<noteq> TaskStatusRunning \<and>
                           at_DistributedCount t \<noteq> 0 \<and> running = 0 \<and> at_DistributedCount t = succeed + failed
                         then TaskStatusFinished else at_TaskStatus t)
               in Inr (SetStat created failed succeed running ts now)))"

section \<open>Answers\<close>

definition DefaultResFunc :: "doc \<Rightarrow> doc" where
  "DefaultResFunc data =
     [(''token'', case map_of data ''token'' of Some v \<Rightarrow> v | None \<Rightarrow> JNull), (''task_result'', JObj data),
      (''status'', JStr (if map_of data ''status'' = Some (JStr ''succeed'') then TaskStatusResultSuccess else TaskStatusResultFail)),
      (''status_msg'', case map_of data ''msg'' of Some v \<Rightarrow> v | None \<Rightarrow> JNull)]"

definition ResFuncOld :: "doc \<Rightarrow> doc" where
  "ResFuncOld data =
     [(''token'', case map_of data ''token'' of Some v \<Rightarrow> v | None \<Rightarrow> JNull), (''task_result'', JObj data),
      (''status'', JStr (if map_of data ''status'' = Some (JStr ''succeed'') then TaskStatusSuccess else TaskStatusFail)),
      (''status_msg'', case map_of data ''msg'' of Some v \<Rightarrow> v | None \<Rightarrow> JNull)]"

definition RegistryResFunc :: "(string, doc \<Rightarrow> doc) gomap \<Rightarrow> string \<Rightarrow> (doc \<Rightarrow> doc) option \<Rightarrow> (string, doc \<Rightarrow> doc) gomap" where
  "RegistryResFunc resMap dt f = mput resMap dt (case f of None \<Rightarrow> DefaultResFunc | Some g \<Rightarrow> g)"

definition ResMap_init :: "(string, doc \<Rightarrow> doc) gomap" where
  "ResMap_init = RegistryResFunc (RegistryResFunc (RegistryResFunc [] ''5100'' None) ''8010'' None) ''6000'' None"

definition PushSubTask :: "(string, doc \<Rightarrow> doc) gomap \<Rightarrow> doc \<Rightarrow> doc option" where
  "PushSubTask resMap data =
     (case map_of data ''token'' of
        Some (JStr token) \<Rightarrow>
          if token = [] then None
          else (case map_of data ''data_type'' of
                  Some (JStr sdt) \<Rightarrow>
                    (case map_of resMap sdt of
                       Some f \<Rightarrow> Some (f data)
                     | None \<Rightarrow> Some [(''token'', JStr token), (''task_result'', JObj data)])
                | _ \<Rightarrow> Some [(''token'', JStr token), (''task_result'', JObj data)])
      | _ \<Rightarrow> None)"

text \<open>
  What an agent center answers to a command: a transport error, or a response whose body decodes
  to a code or to an error.  The status and the response text of the subtask, and the returned error.
\<close>

definition center_answer ::
  "(string \<Rightarrow> string + int) \<Rightarrow> response + string \<Rightarrow> string \<times> string \<times> string option" where
  "center_answer decode ans =
     (case ans of
        Inr e \<Rightarrow> (TaskStatusFail, e, Some e)
      | Inl r \<Rightarrow>
          if \<not> rp_Ok r then (TaskStatusFail, ''StatusCode is '' @ Itoa (rp_StatusCode r), None)
          else (case decode (rp_body r) of
                  Inl e \<Rightarrow> (TaskStatusFail, rp_body r @ '' Unmarshal error '' @ e, Some e)
                | Inr code \<Rightarrow> if code \<noteq> 0 then (TaskStatusFail, ''svr response error '' @ rp_body r, None)
                              else (TaskStatusSuccess, rp_body r, None)))"

text \<open>
  The update a worker writes after the request.  \<open>unmarshal\<close> is the JSON decoder; arguments without a token
  are a panic, after the request.
\<close>

definition AgentControlDo ::
  "(string \<Rightarrow> string + JobArgs) \<Rightarrow> (string \<Rightarrow> string + int) \<Rightarrow> (string \<Rightarrow> response + string) \<Rightarrow> int \<Rightarrow> string \<Rightarrow>
   (doc option \<times> string option) option" where
  "AgentControlDo unmarshal decode request now args =
     (case unmarshal args of
        Inl e \<Rightarrow> Some (None, Some e)
      | Inr ja \<Rightarrow>
          (case ja_Args ja of
             JObj innerArgv \<Rightarrow>
               if ja_Method ja \<noteq> HttpMethodGet \<and> ja_Method ja \<noteq> HttpMethodPost
               then Some (None, Some ''request method not support'')
               else let (status, resp, err) = center_answer decode (request (job_url ja))
                    in (case map_of innerArgv ''token'' of
                          Some (JStr token) \<Rightarrow>
                            Some (Some [(''token'', JStr token), (''task_url'', JStr (job_url ja)), (''status'', JStr status),
                                        (''update_time'', JNum now), (''task_resp'', JStr resp)], err)
                        | _ \<Rightarrow> None)
           | _ \<Rightarrow> Some (None, None)))"

definition doc_get :: "doc \<Rightarrow> string \<Rightarrow> json" where
  "doc_get d k = (case map_of d k of Some v \<Rightarrow> v | None \<Rightarrow> JNull)"

definition AgentControlDoV2 ::
  "(string \<Rightarrow> string + JobArgs) \<Rightarrow> (json \<Rightarrow> json \<Rightarrow> string option) \<Rightarrow> (string \<Rightarrow> string + int) \<Rightarrow>
   (string \<Rightarrow> response + string) \<Rightarrow> int \<Rightarrow> string \<Rightarrow> doc option \<times> string option" where
  "AgentControlDoV2 unmarshal findErr decode request now args =
     (case unmarshal args of
        Inl e \<Rightarrow> (None, Some e)
      | Inr ja \<Rightarrow>
          (case ja_Args ja of
             JObj innerArgv \<Rightarrow>
               let taskID = doc_get innerArgv ''task_id''; agentID = doc_get innerArgv ''agent_id'';
                   base = (\<lambda>status resp. [(''task_id'', taskID), (''agent_id'', agentID), (''task_url'', JStr (job_url ja)),
                     (''status'', JStr status), (''update_time'', JNum now), (''task_resp'', JStr resp)])
               in (case findErr agentID taskID of
                     Some e \<Rightarrow> (Some (base TaskStatusFail e), Some e)
                   | None \<Rightarrow>
                       if ja_Method ja \<noteq> HttpMethodGet \<and> ja_Method ja \<noteq> HttpMethodPost
                       then (None, Some ''request method not support'')
                       else let (status, resp, err) = center_answer decode (request (job_url ja))
                            in (Some (base status resp), err))
           | _ \<Rightarrow> (None, None)))"

section \<open>Quick tasks\<close>

text \<open>The address of the agent center: the Redis entry of the agent, or else its last heartbeat.\<close>

definition getSvrAddr :: "string + string \<Rightarrow> string + string \<times> int \<Rightarrow> string + string" where
  "getSvrAddr redis hb =
     (case redis of
        Inr host \<Rightarrow> Inr host
      | Inl _ \<Rightarrow> (case hb of Inl e \<Rightarrow> Inl e | Inr (ip, port) \<Rightarrow> Inr (host_port ip port)))"

definition sendAgentCommand ::
  "(string \<Rightarrow> string + int \<times> string) \<Rightarrow> (string \<Rightarrow> response + string) \<Rightarrow> string + string \<Rightarrow> string + response" where
  "sendAgentCommand decode post addr =
     (case addr of
        Inl e \<Rightarrow> Inl e
      | Inr host \<Rightarrow>
          (case post (''https://'' @ host @ ''/command/'') of
             Inr e \<Rightarrow> Inl e
           | Inl r \<Rightarrow>
               if rp_StatusCode r \<noteq> 200
               then Inl (''resp code is '' @ Itoa (rp_StatusCode r) @ '', resp body is '' @ rp_body r)
               else (case decode (rp_body r) of
                       Inl e \<Rightarrow> Inl e
                     | Inr (code, msg) \<Rightarrow> if code \<noteq> 0 then Inl msg else Inr r)))"

text \<open>A quick task: the subtask that is inserted when an answer is wanted, and the identifier returned.\<close>

definition SendFastTask ::
  "string + response \<Rightarrow> string \<Rightarrow> string \<Rightarrow> int \<Rightarrow> string \<Rightarrow> AgentTaskMsg \<Rightarrow> bool \<Rightarrow> int \<Rightarrow> doc \<Rightarrow> doc option \<times> (string + string)" where
  "SendFastTask sent token taskID now agentID msg needAgentResp timeout appendData =
     (case sent of
        Inl e \<Rightarrow> (None, Inl e)
      | Inr r \<Rightarrow>
          if needAgentResp
          then (Some ([(''task_type'', JStr TypeAgentTask), (''task_data_type'', JNum (tm_DataType msg)),
                  (''agent_id'', JStr agentID), (''token'', JStr token), (''task_id'', JStr taskID),
                  (''job_start_time'', JNum now), (''status'', JStr TaskStatusSuccess), (''update_time'', JNum now),
                  (''insert_time'', JNum now), (''task_result'', JStr []), (''task_resp'', JStr (rp_body r)),
                  (''append_data'', JObj appendData),
                  (''job_time_out_time'', JNum (if timeout > 0 then wrap64 (now + timeout) else 0))]), Inr taskID)
          else (None, Inr []))"

section \<open>Configurations and shared slices\<close>

text \<open>
  A slice is the address of its array and its length; an array's length is the capacity.  \<open>grow n\<close> is the
  capacity the runtime chooses for \<open>n\<close> elements.
\<close>

type_synonym cfg_store = "AgentConfigMsg list list"

record cfg_slice =
  sl_addr :: nat
  sl_len :: nat

definition contents :: "cfg_store \<Rightarrow> cfg_slice \<Rightarrow> AgentConfigMsg list" where
  "contents st sl = take (sl_len sl) (st ! sl_addr sl)"

definition wf_slice :: "cfg_store \<Rightarrow> cfg_slice \<Rightarrow> bool" where
  "wf_slice st sl \<longleftrightarrow> sl_addr sl < length st \<and> sl_len sl \<le> length (st ! sl_addr sl)"

definition zero_cfg :: AgentConfigMsg where
  "zero_cfg = \<lparr>cm_Name = [], cm_Type = [], cm_Signature = [], cm_Version = [], cm_SHA256 = [], cm_DownloadURL = [], cm_Detail = []\<rparr>"

definition cfg_empty :: "AgentConfigMsg \<Rightarrow> bool" where
  "cfg_empty c \<longleftrightarrow> length (cm_DownloadURL c) = 0 \<and> cm_Version c = [] \<and> cm_SHA256 c = [] \<and> cm_Detail c = [] \<and>
     cm_Type c = [] \<and> cm_Signature c = []"

definition cfg_merge :: "AgentConfigMsg \<Rightarrow> AgentConfigMsg \<Rightarrow> AgentConfigMsg" where
  "cfg_merge v o1 =
     o1\<lparr>cm_DownloadURL := (if cm_DownloadURL v \<noteq> [] then cm_DownloadURL v else cm_DownloadURL o1),
       cm_Version := (if cm_Version v \<noteq> [] then cm_Version v else cm_Version o1),
       cm_SHA256 := (if cm_SHA256 v \<noteq> [] then cm_SHA256 v else cm_SHA256 o1),
       cm_Detail := (if cm_Detail v \<noteq> [] then cm_Detail v else cm_Detail o1),
       cm_Signature := (if cm_Signature v \<noteq> [] then cm_Signature v else cm_Signature o1),
       cm_Type := (if cm_Type v \<noteq> [] then cm_Type v else cm_Type o1)\<rparr>"

text \<open>The position of the first entry with the name.\<close>

definition name_index :: "string \<Rightarrow> AgentConfigMsg list \<Rightarrow> nat option" where
  "name_index n cs = (let k = length (takeWhile (\<lambda>c. cm_Name c \<noteq> n) cs) in if k < length cs then Some k else None)"

definition slice_delete :: "nat \<Rightarrow> cfg_store \<times> cfg_slice \<Rightarrow> cfg_store \<times> cfg_slice" where
  "slice_delete k p =
     (let (st, sl) = p; arr = st ! sl_addr sl; cs = contents st sl;
          arr' = take k arr @ drop (Suc k) cs @ drop (sl_len sl - 1) arr
      in (st[sl_addr sl := arr'], sl\<lparr>sl_len := sl_len sl - 1\<rparr>))"

definition slice_append :: "(nat \<Rightarrow> nat) \<Rightarrow> AgentConfigMsg \<Rightarrow> cfg_store \<times> cfg_slice \<Rightarrow> cfg_store \<times> cfg_slice" where
  "slice_append grow v p =
     (let (st, sl) = p; arr = st ! sl_addr sl in
      if sl_len sl < length arr
      then (st[sl_addr sl := arr[sl_len sl := v]], sl\<lparr>sl_len := Suc (sl_len sl)\<rparr>)
      else (st @ [contents st sl @ [v] @ replicate (grow (Suc (sl_len sl)) - Suc (sl_len sl)) zero_cfg],
            \<lparr>sl_addr = length st, sl_len = Suc (sl_len sl)\<rparr>))"

definition updateConfig_one :: "(nat \<Rightarrow> nat) \<Rightarrow> cfg_store \<times> cfg_slice \<Rightarrow> AgentConfigMsg \<Rightarrow> cfg_store \<times> cfg_slice" where
  "updateConfig_one grow p v =
     (let (st, sl) = p in
      case name_index (cm_Name v) (contents st sl) of
        Some k1 \<Rightarrow>
          if cfg_empty v then slice_delete k1 p
          else (st[sl_addr sl := (st ! sl_addr sl)[k1 := cfg_merge v (st ! sl_addr sl ! k1)]], sl)
      | None \<Rightarrow> if cfg_empty v then p else slice_append grow v p)"

definition updateConfig :: "(nat \<Rightarrow> nat) \<Rightarrow> AgentConfigMsg list \<Rightarrow> cfg_store \<times> cfg_slice \<Rightarrow> cfg_store \<times> cfg_slice" where
  "updateConfig grow cfgs p = foldl (updateConfig_one grow) p cfgs"

record AgentHBInfo =
  hb_AgentId :: string
  hb_SourceIp :: string
  hb_SourcePort :: int
  hb_Config :: "cfg_slice option"

datatype dis_argv = ArgConfig cfg_slice | ArgTask AgentTaskMsg | ArgCtrl int

record dis_job =
  dj_Host :: string
  dj_AgentId :: string
  dj_Token :: string
  dj_Argv :: dis_argv

text \<open>
  \<open>AgentControlDistribute\<close>: the heartbeats (\<^const>\<open>None\<close> where decoding failed) with the tokens generated for
  them.  An agent without a configuration gets the slice of the default one.
\<close>

record dist_cfg =
  dc_store :: cfg_store
  dc_seen :: "(string, bool) gomap"
  dc_jobs :: "dis_job list"

definition distribute_one ::
  "(nat \<Rightarrow> nat) \<Rightarrow> string \<Rightarrow> AgentTask \<Rightarrow> cfg_slice \<Rightarrow> dist_cfg \<Rightarrow> AgentHBInfo option \<times> string \<Rightarrow> dist_cfg" where
  "distribute_one grow name t dflt s p =
     (case p of
        (None, token) \<Rightarrow> s
      | (Some hb, token) \<Rightarrow>
          if map_of (dc_seen s) (hb_AgentId hb) \<noteq> None then s
          else
            let s = s\<lparr>dc_seen := mput (dc_seen s) (hb_AgentId hb) True\<rparr>;
                job = (\<lambda>a. \<lparr>dj_Host = host_port (hb_SourceIp hb) (hb_SourcePort hb), dj_AgentId = hb_AgentId hb,
                         dj_Token = token, dj_Argv = a\<rparr>)
            in if name = TypeAgentConfig then
                 let cfg = (case hb_Config hb of None \<Rightarrow> dflt | Some sl \<Rightarrow> if sl_len sl = 0 then dflt else sl);
                     (st, sl) = updateConfig grow (at_Config t) (dc_store s, cfg)
                 in s\<lparr>dc_store := st, dc_jobs := dc_jobs s @ [job (ArgConfig sl)]\<rparr>
               else if name = TypeAgentTask then
                 s\<lparr>dc_jobs := dc_jobs s @ [job (ArgTask (at_Task t\<lparr>tm_Token := token\<rparr>))]\<rparr>
               else if name = TypeAgentCtrl then
                 s\<lparr>dc_jobs := dc_jobs s @ [job (ArgCtrl (at_AgentCtrl t))]\<rparr>
               else s)"

definition AgentControlDistribute ::
  "(nat \<Rightarrow> nat) \<Rightarrow> string \<Rightarrow> AgentTask \<Rightarrow> cfg_store \<Rightarrow> cfg_slice \<Rightarrow> (AgentHBInfo option \<times> string) list \<Rightarrow> dist_cfg" where
  "AgentControlDistribute grow name t st dflt hbs =
     foldl (distribute_one grow name t dflt) \<lparr>dc_store = st, dc_seen = [], dc_jobs = []\<rparr> hbs"

text \<open>The configuration a job carries when it is encoded, after all agents were handled.\<close>

definition job_config :: "dist_cfg \<Rightarrow> dis_job \<Rightarrow> AgentConfigMsg list" where
  "job_config s j = (case dj_Argv j of ArgConfig sl \<Rightarrow> contents (dc_store s) sl | _ \<Rightarrow> [])"

section \<open>One subtask for each agent\<close>

definition create_inv :: "string \<Rightarrow> string \<Rightarrow> int \<Rightarrow> string option list \<Rightarrow> create_state \<Rightarrow> bool" where
  "create_inv tType taskID now hbs s \<longleftrightarrow>
     distinct (cr_todo s) \<and> set (cr_todo s) = {a. Some a \<in> set hbs} \<and> fst ` set (cr_map s) = set (cr_todo s) \<and>
     concat (cr_bulks s) @ cr_writes s = map (new_subtask tType taskID now) (cr_todo s) \<and>
     length (cr_writes s) < 100 \<and> list_all (\<lambda>b. b \<noteq> [] \<and> length b \<le> 100) (cr_bulks s)"

lemma create_one_inv:
  assumes "create_inv tType taskID now hbs s"
  shows "create_inv tType taskID now (hbs @ [hb]) (create_one tType taskID now s hb)"
proof (cases hb)
  case None
  then show ?thesis using assms by (auto simp: create_one_def create_inv_def)
next
  case (Some a)
  have m: "map_of (cr_map s) a = None \<longleftrightarrow> a \<notin> set (cr_todo s)"
    using assms by (auto simp: create_inv_def map_of_eq_None_iff)
  show ?thesis
  proof (cases "a \<in> set (cr_todo s)")
    case True
    then have "create_one tType taskID now s hb = s" using m Some by (simp add: create_one_def)
    then show ?thesis using assms True Some by (auto simp: create_inv_def)
  next
    case False
    then show ?thesis using assms m Some by (auto simp: create_one_def create_inv_def Let_def)
  qed
qed

lemma create_fold_inv:
  "create_inv tType taskID now hbs
     (foldl (create_one tType taskID now) \<lparr>cr_todo = [], cr_map = [], cr_writes = [], cr_bulks = []\<rparr> hbs)"
proof (induction hbs rule: rev_induct)
  case (snoc hb hbs)
  then show ?case using create_one_inv by (simp add: foldl_append)
qed (simp add: create_inv_def)

text \<open>
  Creating a task: the to-do list holds every agent of the selection once, however often the query returned it,
  and exactly one subtask is inserted for each of them, in nonempty batches of at most a hundred.
\<close>

theorem create_subtasks_once:
  "case create_subtasks tType taskID now hbs of (bulks, todo) \<Rightarrow>
     distinct todo \<and> set todo = {a. Some a \<in> set hbs} \<and>
     concat bulks = map (new_subtask tType taskID now) todo \<and> list_all (\<lambda>b. b \<noteq> [] \<and> length b \<le> 100) bulks"
  using create_fold_inv[of tType taskID now hbs]
  by (auto simp: create_subtasks_def create_inv_def Let_def)

section \<open>Running a task to its end\<close>

text \<open>
  A sequence of calls of \<open>RunTask\<close> that get the lock and a job, against the stored task; \<open>store\<close> is what
  the database makes of the task and an update.
\<close>

definition run_once ::
  "(AgentTask \<Rightarrow> task_update \<Rightarrow> AgentTask) \<Rightarrow> AgentTask \<Rightarrow> int \<times> string \<times> (nat \<times> int) option \<times> int \<Rightarrow> string list option \<times> AgentTask" where
  "run_once store t call =
     (case call of (now, jID, roll, runCount) \<Rightarrow>
        (case RunTask now (Inr True) (Inr t) (Inr jID) roll runCount of
           None \<Rightarrow> (None, t)
         | Some (u, res) \<Rightarrow>
             ((case res of Inr (j, todo) \<Rightarrow> Some todo | Inl e \<Rightarrow> None), (case u of None \<Rightarrow> t | Some u \<Rightarrow> store t u))))"

fun run_calls ::
  "(AgentTask \<Rightarrow> task_update \<Rightarrow> AgentTask) \<Rightarrow> AgentTask \<Rightarrow> (int \<times> string \<times> (nat \<times> int) option \<times> int) list \<Rightarrow> string list list \<times> AgentTask" where
  "run_calls store t [] = ([], t)"
| "run_calls store t (c # cs) =
     (let (h, t') = run_once store t c; (hs, t'') = run_calls store t' cs
      in ((case h of None \<Rightarrow> hs | Some todo \<Rightarrow> todo # hs), t''))"

lemma RunTask_outcome:
  assumes "RunTask now (Inr True) (Inr t) (Inr jID) roll runCount = Some (u, res)"
  shows "case res of
     Inl e \<Rightarrow> u = None \<or> (at_ToDoList t = [] \<and> u = Some (SetInner (at_UpdateTime t) TaskStatusFinished))
   | Inr (j, todo) \<Rightarrow> todo \<noteq> [] \<and> (\<exists>rest jl. todo @ rest = at_ToDoList t \<and>
       u = Some (SetRun rest now TaskStatusRunning (if rest = [] then TaskStatusFinished else TaskStatusRunning)
             (at_DistributedCount t + int (length todo)) jl))"
proof (cases "at_ToDoList t = [] \<or> at_InnerStatus t = TaskStatusStopped \<or> at_InnerStatus t = TaskStatusFinished \<or> (roll = None \<and> runCount \<le> 0)")
  case True
  then show ?thesis using assms by (auto simp: RunTask_def split: if_splits)
next
  case False
  define n0 where "n0 = nCount_of t roll runCount"
  have n0: "n0 \<noteq> 0" using False by (auto simp: n0_def nCount_of_def Let_def split: option.splits)
  define n where "n = (if n0 < int (length (at_ToDoList t)) then n0 else int (length (at_ToDoList t)))"
  have nn: "0 \<le> n" and r: "res = Inr (jID, take (nat n) (at_ToDoList t))"
    and u: "u = Some (SetRun (drop (nat n) (at_ToDoList t)) now TaskStatusRunning
        (if n0 < int (length (at_ToDoList t)) then TaskStatusRunning else TaskStatusFinished)
        (at_DistributedCount t + int (length (take (nat n) (at_ToDoList t)))) (at_JobList t @ [jID]))"
    using assms False by (auto simp: RunTask_def n0_def n_def Let_def split: if_splits)
  have pos: "0 < nat n" using nn n0 False by (auto simp: n_def split: if_splits)
  then have "take (nat n) (at_ToDoList t) \<noteq> []" using False by simp
  moreover have "drop (nat n) (at_ToDoList t) = [] \<longleftrightarrow> \<not> n0 < int (length (at_ToDoList t))"
    using nn by (auto simp: n_def)
  ultimately show ?thesis using r u by auto
qed

lemma run_once_spec:
  assumes store: "\<And>t u. store t u = task_set u t"
    and run: "run_once store t call = (h, t')"
  shows "(case h of None \<Rightarrow> [] | Some todo \<Rightarrow> todo) @ at_ToDoList t' = at_ToDoList t"
    and "at_DistributedCount t' = at_DistributedCount t + int (length (case h of None \<Rightarrow> [] | Some todo \<Rightarrow> todo))"
    and "h \<noteq> Some []"
proof -
  obtain now jID roll rc where c: "call = (now, jID, roll, rc)" by (cases call)
  have "(case h of None \<Rightarrow> [] | Some todo \<Rightarrow> todo) @ at_ToDoList t' = at_ToDoList t \<and>
     at_DistributedCount t' = at_DistributedCount t + int (length (case h of None \<Rightarrow> [] | Some todo \<Rightarrow> todo)) \<and> h \<noteq> Some []"
  proof (cases "RunTask now (Inr True) (Inr t) (Inr jID) roll rc")
    case None
    then show ?thesis using run by (auto simp: run_once_def c)
  next
    case (Some p)
    obtain u res where p: "p = (u, res)" by (cases p)
    show ?thesis using RunTask_outcome[OF Some[unfolded p]] run
      by (cases res) (auto simp: run_once_def c Some p store)
  qed
  then show "(case h of None \<Rightarrow> [] | Some todo \<Rightarrow> todo) @ at_ToDoList t' = at_ToDoList t"
    and "at_DistributedCount t' = at_DistributedCount t + int (length (case h of None \<Rightarrow> [] | Some todo \<Rightarrow> todo))"
    and "h \<noteq> Some []" by blast+
qed

lemma run_calls_spec:
  assumes store: "\<And>t u. store t u = task_set u t"
  shows "run_calls store t calls = (hs, t') \<Longrightarrow>
     concat hs @ at_ToDoList t' = at_ToDoList t \<and>
     at_DistributedCount t' = at_DistributedCount t + int (length (concat hs)) \<and> [] \<notin> set hs"
proof (induction calls arbitrary: t hs)
  case (Cons c cs)
  obtain h t1 where h: "run_once store t c = (h, t1)" by (cases "run_once store t c")
  obtain hs' where hs': "run_calls store t1 cs = (hs', t')" "hs = (case h of None \<Rightarrow> hs' | Some todo \<Rightarrow> todo # hs')"
    using Cons.prems h by (auto split: prod.splits)
  show ?case using run_once_spec[OF store h] Cons.IH[OF hs'(1)] hs'(2) by (cases h) auto
qed simp

text \<open>
  C12. Running a task again and again, where each update of the task is stored: the lists of agents handed to the jobs are nonempty, and together with what is left
  they are the original to-do list in order, so that no agent is handed out twice or
  skipped; the count of distributed agents follows.  At most as many runs succeed as there are agents.
\<close>

theorem run_task_partition:
  assumes store: "\<And>t u. store t u = task_set u t"
    and run: "run_calls store t calls = (handed, t')"
  shows "concat handed @ at_ToDoList t' = at_ToDoList t \<and> [] \<notin> set handed \<and>
     at_DistributedCount t' = at_DistributedCount t + int (length (concat handed)) \<and>
     length handed \<le> length (at_ToDoList t)"
proof -
  have "length hs \<le> length (concat hs)" if "[] \<notin> set hs" for hs :: "string list list"
    using that
  proof (induction hs)
    case (Cons h hs)
    then have "1 \<le> length h" by (cases h) auto
    then show ?case using Cons by simp
  qed simp
  then show ?thesis using run_calls_spec[OF store run] by (metis length_append trans_le_add1)
qed

definition sample_task :: AgentTask where
  "sample_task = \<lparr>at_TaskID = ''t'', at_TaskType = TypeAgentTask, at_Action = [], at_SubTimeout = 0, at_AgentCtrl = 0,
     at_Task = \<lparr>tm_Name = [], tm_Data = [], tm_Token = [], tm_DataType = 0\<rparr>, at_Config = [],
     at_InnerStatus = TaskStatusCreated, at_TaskStatus = TaskStatusCreated, at_ToDoList = [''a'', ''b'', ''c''], at_IDCount = 3,
     at_DistributedCount = 0, at_JobList = [], at_SubCreated = 0, at_SubRunning = 0, at_SubFailed = 0, at_SubSucceed = 0,
     at_CreateTime = 0, at_UpdateTime = 0\<rparr>"

theorem run_task_partition_witness:
  "\<exists>handed t'. run_calls (\<lambda>t u. task_set u t) sample_task [(1, ''j1'', None, 2), (2, ''j2'', None, 2)] = (handed, t') \<and>
     handed = [[''a'', ''b''], [''c'']] \<and> concat handed @ at_ToDoList t' = [''a'', ''b'', ''c'']"
proof -
  let ?st = "\<lambda>t u. task_set u t" and ?calls = "[(1, ''j1'', None, 2), (2, ''j2'', None, 2)]"
  define t1 where "t1 = task_set (SetRun [''c''] 1 TaskStatusRunning TaskStatusRunning 2 [''j1'']) sample_task"
  have r1: "run_once ?st sample_task (1, ''j1'', None, 2) = (Some [''a'', ''b''], t1)"
    by (simp add: run_once_def RunTask_def nCount_of_def sample_task_def t1_def status_defs)
  obtain t' where r2: "run_once ?st t1 (2, ''j2'', None, 2) = (Some [''c''], t')"
    by (simp add: run_once_def RunTask_def nCount_of_def sample_task_def t1_def status_defs)
  have run: "run_calls ?st sample_task ?calls = ([[''a'', ''b''], [''c'']], t')"
    by (simp only: run_calls.simps r1 r2 prod.case Let_def option.case)
  have "concat [[''a'', ''b''], [''c'']] @ at_ToDoList t' = at_ToDoList sample_task"
    using run_task_partition[where store = ?st and t = sample_task and calls = ?calls
        and handed = "[[''a'', ''b''], [''c'']]" and t' = t'] run by blast
  then show ?thesis using run by (simp add: sample_task_def)
qed

section \<open>Creating and running race\<close>

text \<open>
  The two goroutines of \<open>CreateTask\<close> are not ordered: if the update with the to-do list reaches the database
  before the task is inserted, it matches nothing, and the task that is stored then has no agents: running
  it fails and marks it finished although every agent has a subtask.
\<close>

theorem create_race_loses_agents:
  assumes create: "CreateTask taskID now True hbs request tType = (t, bulks, Some u)"
    and db: "upd None u = None" "\<And>t. upd (Some t) u = Some (task_set u t)" "ins None t = Some t"
    and args: "roll \<noteq> None \<or> 0 < runCount"
  shows "\<exists>t1 t2. upd (ins None t) u = Some t1 \<and> at_ToDoList t1 = snd (create_subtasks tType taskID now hbs) \<and>
     ins (upd None u) t = Some t2 \<and>
     RunTask now2 (Inr True) (Inr t2) made roll runCount = Some (Some (SetInner now TaskStatusFinished), Inl TaskOver)"
proof -
  have t: "at_ToDoList t = []" "at_InnerStatus t = TaskStatusCreated" "at_UpdateTime t = now"
    and u: "u = SetTodo (snd (create_subtasks tType taskID now hbs)) (length (snd (create_subtasks tType taskID now hbs))) now"
    using create by (auto simp: CreateTask_def split: prod.splits)
  have "RunTask now2 (Inr True) (Inr t) made roll runCount = Some (Some (SetInner now TaskStatusFinished), Inl TaskOver)"
    using args by (auto simp: RunTask_def t status_defs)
  then show ?thesis using db u by simp
qed

theorem create_race_loses_agents_witness:
  "\<exists>t bulks u t2. CreateTask ''t'' 5 True [Some ''a''] sample_task TypeAgentTask = (t, bulks, Some u) \<and>
     (case map_option (task_set u) None of None \<Rightarrow> Some t | Some x \<Rightarrow> Some x) = Some t2 \<and>
     RunTask 6 (Inr True) (Inr t2) (Inr ''j'') None 1 = Some (Some (SetInner 5 TaskStatusFinished), Inl TaskOver)"
proof -
  obtain bs todo where "create_subtasks TypeAgentTask ''t'' 5 [Some ''a''] = (bs, todo)" by fastforce
  then obtain t bulks u where c: "CreateTask ''t'' 5 True [Some ''a''] sample_task TypeAgentTask = (t, bulks, Some u)"
    by (simp add: CreateTask_def)
  let ?upd = "\<lambda>d u. map_option (task_set u) d" and ?ins = "\<lambda>d t. case d of None \<Rightarrow> Some t | Some x \<Rightarrow> Some x"
  show ?thesis
    using create_race_loses_agents[where upd = ?upd and ins = ?ins and roll = None and runCount = 1 and ?now2.0 = 6
        and made = "Inr ''j''", OF c] c by (simp del: task_set.simps)
qed

section \<open>The state of a task follows its subtasks\<close>

text \<open>What the aggregation of the database returns: the number of subtasks for each status that occurs.\<close>

definition grouped :: "string list \<Rightarrow> (string \<times> int) list \<Rightarrow> bool" where
  "grouped subs res \<longleftrightarrow> distinct (map fst res) \<and> set res = (\<lambda>s. (s, int (count_list subs s))) ` set subs"

lemma count_status_filter:
  "grouped subs res \<Longrightarrow> count_status res ss = int (length (filter (\<lambda>s. s \<in> set ss) subs))"
proof (induction res arbitrary: subs)
  case Nil
  then show ?case by (simp add: grouped_def count_status_def)
next
  case (Cons p res)
  obtain s n where p: "p = (s, n)" by (cases p)
  let ?subs = "filter (\<lambda>x. x \<noteq> s) subs"
  have n: "n = int (count_list subs s)" using Cons.prems by (auto simp: grouped_def p)
  have cl: "count_list ?subs x = count_list subs x" if "x \<noteq> s" for x
    using that by (induction subs) auto
  have "set res = {q \<in> set (p # res). fst q \<noteq> s}"
    using Cons.prems by (auto simp: grouped_def p rev_image_eqI)
  also have "\<dots> = (\<lambda>x. (x, int (count_list ?subs x))) ` set ?subs"
    using Cons.prems cl by (auto simp: grouped_def)
  finally have "grouped ?subs res" using Cons.prems by (simp add: grouped_def)
  then have "count_status res ss = int (length (filter (\<lambda>x. x \<in> set ss) ?subs))" by (rule Cons.IH)
  moreover have "int (length (filter (\<lambda>x. x \<in> set ss) subs)) =
      (if s \<in> set ss then int (count_list subs s) else 0) + int (length (filter (\<lambda>x. x \<in> set ss) ?subs))"
    by (induction subs) auto
  ultimately show ?case by (simp add: count_status_def p n)
qed

definition subtask_statuses :: "string list" where
  "subtask_statuses = [TaskStatusCreated, TaskStatusRunning, TaskStatusSuccess, TaskStatusFail, TaskStatusResultFail, TaskStatusResultSuccess]"

lemma center_answer_status: "center_answer decode ans = (s, resp, err) \<Longrightarrow> s \<in> set subtask_statuses"
proof -
  assume a: "center_answer decode ans = (s, resp, err)"
  have f: "TaskStatusFail \<in> set subtask_statuses" "TaskStatusSuccess \<in> set subtask_statuses"
    by (simp_all add: subtask_statuses_def)
  show ?thesis
  proof (cases ans)
    case (Inl r)
    then show ?thesis using a f by (cases "decode (rp_body r)") (auto simp: center_answer_def split: if_splits)
  next
    case (Inr e)
    then show ?thesis using a f by (auto simp: center_answer_def)
  qed
qed

abbreviation known_status :: "doc \<Rightarrow> bool" where
  "known_status d \<equiv> map_of d ''status'' \<in> (\<lambda>s. Some (JStr s)) ` set subtask_statuses"

lemma AgentControlDo_status:
  "AgentControlDo unmarshal decode request now args = Some (Some d, err) \<Longrightarrow> known_status d"
  unfolding AgentControlDo_def
  by (auto simp: image_iff dest: center_answer_status split: sum.splits json.splits if_splits option.splits prod.splits)

lemma AgentControlDoV2_status:
  "AgentControlDoV2 unmarshal findErr decode request now args = (Some d, err) \<Longrightarrow> known_status d"
proof -
  have f: "TaskStatusFail \<in> set subtask_statuses" by (simp add: subtask_statuses_def)
  assume "AgentControlDoV2 unmarshal findErr decode request now args = (Some d, err)"
  then show ?thesis using f unfolding AgentControlDoV2_def Let_def
    by (auto simp: image_iff dest: center_answer_status split: sum.splits json.splits if_splits option.splits prod.splits)
qed

lemma DefaultResFunc_status: "known_status (DefaultResFunc data)"
proof -
  have f: "TaskStatusResultFail \<in> set subtask_statuses" "TaskStatusResultSuccess \<in> set subtask_statuses"
    by (simp_all add: subtask_statuses_def)
  then show ?thesis by (simp add: DefaultResFunc_def image_iff)
qed

lemma ResMap_init_default: "map_of ResMap_init k = Some f \<Longrightarrow> f = DefaultResFunc"
  by (auto simp: ResMap_init_def RegistryResFunc_def split: if_splits)

lemma PushSubTask_status:
  "PushSubTask ResMap_init data = Some d \<Longrightarrow> map_of d ''status'' = None \<or> known_status d"
  unfolding PushSubTask_def
  by (auto dest!: ResMap_init_default simp: DefaultResFunc_status simp del: image_iff split: option.splits json.splits if_splits)

text \<open>
  The statuses these functions give a subtask are among the six statuses of subtasks: when it is created, after the answer
  of the agent center, by a quick task, and when the agent answers, where an answer without a
  registered handler leaves the status alone.
\<close>

lemma subtask_status_typed:
  "known_status (new_subtask tType taskID now agent) \<and>
   fst (center_answer decode ans) \<in> set subtask_statuses \<and>
   (case AgentControlDo unmarshal decode request now args of Some (Some d, err) \<Rightarrow> known_status d | _ \<Rightarrow> True) \<and>
   (case AgentControlDoV2 unmarshal findErr decode request now args of (Some d, err) \<Rightarrow> known_status d | _ \<Rightarrow> True) \<and>
   (case fst (SendFastTask sent token taskID now agent msg need timeout extra) of Some d \<Rightarrow> known_status d | None \<Rightarrow> True) \<and>
   (case PushSubTask ResMap_init data of Some d \<Rightarrow> map_of d ''status'' = None \<or> known_status d | None \<Rightarrow> True)"
proof (intro conjI)
  have f: "TaskStatusCreated \<in> set subtask_statuses" "TaskStatusSuccess \<in> set subtask_statuses"
    by (simp_all add: subtask_statuses_def)
  show "known_status (new_subtask tType taskID now agent)" using f by (simp add: new_subtask_def)
  show "fst (center_answer decode ans) \<in> set subtask_statuses"
    by (cases "center_answer decode ans") (simp add: center_answer_status)
  show "case AgentControlDo unmarshal decode request now args of Some (Some d, err) \<Rightarrow> known_status d | _ \<Rightarrow> True"
    using AgentControlDo_status[of unmarshal decode request now args] by (simp only: split: option.split prod.split) blast
  show "case AgentControlDoV2 unmarshal findErr decode request now args of (Some d, err) \<Rightarrow> known_status d | _ \<Rightarrow> True"
    using AgentControlDoV2_status[of unmarshal findErr decode request now args] by (simp only: split: option.split prod.split) blast
  show "case fst (SendFastTask sent token taskID now agent msg need timeout extra) of Some d \<Rightarrow> known_status d | None \<Rightarrow> True"
    using f by (cases sent) (simp_all add: SendFastTask_def)
  show "case PushSubTask ResMap_init data of Some d \<Rightarrow> map_of d ''status'' = None \<or> known_status d | None \<Rightarrow> True"
    using PushSubTask_status[of data] by (simp only: split: option.split) blast
qed

text \<open>
  C34. The background check of a task that expects answers, other than a restart of the agent, when the reads of the database succeed and its subtasks
  have the six statuses: the four counters add up to the number of its
  subtasks, and an unfinished task becomes finished exactly when the run over its agents is neither new nor under way, some agents were handed out, no subtask
  is on its way or waits for an answer, and as many subtasks ended as agents were handed out.
\<close>

theorem computeTaskStat_accounts:
  assumes grp: "grouped subs res" and known: "set subs \<subseteq> set subtask_statuses"
    and type: "at_TaskType t = TypeAgentTask" "at_Action t \<noteq> ''reboot_agent''"
    and unfinished: "at_TaskStatus t \<noteq> TaskStatusFinished"
    and run: "computeTaskStat now None None (Inr res) t = (cmds, Inr (SetStat c f s r ts now'))"
  shows "c + f + s + r = int (length subs) \<and>
     (ts = TaskStatusFinished \<longleftrightarrow>
        at_InnerStatus t \<notin> {TaskStatusCreated, TaskStatusRunning} \<and> at_DistributedCount t \<noteq> 0 \<and>
        TaskStatusSuccess \<notin> set subs \<and> TaskStatusRunning \<notin> set subs \<and>
        at_DistributedCount t = int (length (filter (\<lambda>x. x \<in> {TaskStatusFail, TaskStatusResultFail, TaskStatusResultSuccess}) subs)))"
proof -
  let ?n = "\<lambda>ss. int (length (filter (\<lambda>x. x \<in> set ss) subs))"
  have v: "c = ?n [TaskStatusCreated]" "r = ?n [TaskStatusSuccess, TaskStatusRunning]"
    "f = ?n [TaskStatusFail, TaskStatusResultFail]" "s = ?n [TaskStatusResultSuccess]"
    "ts = (if at_InnerStatus t \<noteq> TaskStatusCreated \<and> at_InnerStatus t \<noteq> TaskStatusRunning \<and>
         at_DistributedCount t \<noteq> 0 \<and> r = 0 \<and> at_DistributedCount t = s + f then TaskStatusFinished else at_TaskStatus t)"
    using run type by (auto simp: computeTaskStat_def Let_def count_status_filter[OF grp])
  have total: "c + f + s + r = int (length subs)"
    unfolding v(1-4) using known
    by (induction subs) (auto simp: subtask_statuses_def status_defs)
  have r0: "r = 0 \<longleftrightarrow> TaskStatusSuccess \<notin> set subs \<and> TaskStatusRunning \<notin> set subs"
    unfolding v(2) by (auto simp: filter_empty_conv)
  have sf: "s + f = int (length (filter (\<lambda>x. x \<in> {TaskStatusFail, TaskStatusResultFail, TaskStatusResultSuccess}) subs))"
    unfolding v(3,4) by (induction subs) (auto simp: status_defs)
  show ?thesis using total v(5) r0 sf unfinished by auto
qed

theorem computeTaskStat_accounts_witness:
  "\<exists>cmds. computeTaskStat 9 None None (Inr [(TaskStatusResultSuccess, 2)])
       (sample_task\<lparr>at_InnerStatus := TaskStatusFinished, at_DistributedCount := 2\<rparr>)
     = (cmds, Inr (SetStat 0 0 2 0 TaskStatusFinished 9))"
proof -
  let ?t = "sample_task\<lparr>at_InnerStatus := TaskStatusFinished, at_DistributedCount := 2\<rparr>"
  let ?res = "[(TaskStatusResultSuccess, 2::int)]" and ?subs = "[TaskStatusResultSuccess, TaskStatusResultSuccess]"
  obtain cmds c f s r ts now' where run: "computeTaskStat 9 None None (Inr ?res) ?t = (cmds, Inr (SetStat c f s r ts now'))"
    and v: "c = 0" "f = 0" "s = 2" "r = 0" "now' = 9"
    by (simp add: computeTaskStat_def sample_task_def count_status_def status_defs TypeAgentTask_def)
  have "grouped ?subs ?res" by (simp add: grouped_def)
  then have "ts = TaskStatusFinished"
    using computeTaskStat_accounts[OF _ _ _ _ _ run, of ?subs]
    by (simp add: sample_task_def subtask_statuses_def status_defs)
  then show ?thesis using run v by simp
qed

section \<open>Updating a configuration in place\<close>

text \<open>The reference: the entry of the name is removed, merged or added in a list of its own.\<close>

definition cfg_update :: "AgentConfigMsg list \<Rightarrow> AgentConfigMsg \<Rightarrow> AgentConfigMsg list" where
  "cfg_update cs v =
     (case name_index (cm_Name v) cs of
        Some k \<Rightarrow> if cfg_empty v then take k cs @ drop (Suc k) cs else cs[k := cfg_merge v (cs ! k)]
      | None \<Rightarrow> if cfg_empty v then cs else cs @ [v])"

lemma name_index_less: "name_index n cs = Some k \<Longrightarrow> k < length cs"
  by (auto simp: name_index_def Let_def split: if_splits)

definition slice_frame :: "cfg_store \<Rightarrow> cfg_slice \<Rightarrow> cfg_store \<times> cfg_slice \<Rightarrow> bool" where
  "slice_frame st sl p \<longleftrightarrow> wf_slice (fst p) (snd p) \<and> length st \<le> length (fst p) \<and>
     (sl_addr (snd p) = sl_addr sl \<or> length st \<le> sl_addr (snd p)) \<and>
     (\<forall>a < length st. a \<noteq> sl_addr sl \<longrightarrow> fst p ! a = st ! a)"

lemma updateConfig_one_frame:
  assumes fr: "slice_frame st sl (s1, l1)"
  shows "slice_frame st sl (updateConfig_one grow (s1, l1) v) \<and>
     contents (fst (updateConfig_one grow (s1, l1) v)) (snd (updateConfig_one grow (s1, l1) v)) = cfg_update (contents s1 l1) v"
proof -
  have wf: "sl_addr l1 < length s1" "sl_len l1 \<le> length (s1 ! sl_addr l1)"
    using fr by (auto simp: slice_frame_def wf_slice_def)
  have len: "length (contents s1 l1) = sl_len l1" using wf by (simp add: contents_def)
  show ?thesis
  proof (cases "name_index (cm_Name v) (contents s1 l1)")
    case None
    then show ?thesis using fr wf
      by (auto simp: updateConfig_one_def cfg_update_def slice_append_def slice_frame_def wf_slice_def contents_def
          nth_append take_Suc_conv_app_nth Let_def nth_list_update)
  next
    case (Some k)
    have k: "k < sl_len l1" using name_index_less[OF Some] len by simp
    have dropn: "drop k (contents s1 l1) = (s1 ! sl_addr l1 ! k) # drop (Suc k) (contents s1 l1)"
      using k wf by (simp add: contents_def Cons_nth_drop_Suc[symmetric])
    have last: "sl_len l1 - Suc 0 \<le> k \<longleftrightarrow> k = sl_len l1 - Suc 0" using k by linarith
    show ?thesis using Some fr wf k len
      by (auto simp: last updateConfig_one_def cfg_update_def slice_delete_def slice_frame_def wf_slice_def contents_def
          Let_def nth_list_update take_update_swap min_def)
  qed
qed

text \<open>
  C13. Updating the configuration of an agent in the array of its slice gives the same configuration as updating a
  list of its own, entry by entry, and changes no other array, when the slice's array belongs to the agent alone.
\<close>

theorem updateConfig_in_place:
  assumes "wf_slice st sl" "updateConfig grow cfgs (st, sl) = (st', sl')"
  shows "contents st' sl' = foldl cfg_update (contents st sl) cfgs \<and> wf_slice st' sl' \<and>
     (\<forall>a. a < length st \<and> a \<noteq> sl_addr sl \<longrightarrow> st' ! a = st ! a)"
proof -
  have "slice_frame st sl (foldl (updateConfig_one grow) (st, sl) cfgs) \<and>
      contents (fst (foldl (updateConfig_one grow) (st, sl) cfgs)) (snd (foldl (updateConfig_one grow) (st, sl) cfgs))
        = foldl cfg_update (contents st sl) cfgs"
  proof (induction cfgs rule: rev_induct)
    case Nil
    then show ?case using assms(1) by (simp add: slice_frame_def)
  next
    case (snoc v cfgs)
    then show ?case
      using updateConfig_one_frame[of st sl "fst (foldl (updateConfig_one grow) (st, sl) cfgs)"
          "snd (foldl (updateConfig_one grow) (st, sl) cfgs)" grow v] by simp
  qed
  then show ?thesis using assms(2) by (auto simp: updateConfig_def slice_frame_def)
qed

definition named_cfg :: "string \<Rightarrow> string \<Rightarrow> AgentConfigMsg" where
  "named_cfg n v = zero_cfg\<lparr>cm_Name := n, cm_Version := v\<rparr>"

theorem updateConfig_in_place_witness:
  "\<exists>st' sl'. updateConfig Suc [named_cfg ''p'' ''2''] ([[named_cfg ''p'' ''1'']], \<lparr>sl_addr = 0, sl_len = 1\<rparr>) = (st', sl') \<and>
     contents st' sl' = [named_cfg ''p'' ''2'']"
proof -
  let ?p = "([[named_cfg ''p'' ''1'']], \<lparr>sl_addr = 0, sl_len = 1\<rparr>)"
  obtain st' sl' where u: "updateConfig Suc [named_cfg ''p'' ''2''] ?p = (st', sl')"
    by (cases "updateConfig Suc [named_cfg ''p'' ''2''] ?p")
  have "wf_slice [[named_cfg ''p'' ''1'']] \<lparr>sl_addr = 0, sl_len = 1\<rparr>" by (simp add: wf_slice_def)
  then show ?thesis
    using updateConfig_in_place[OF _ u] u
    by (simp add: contents_def cfg_update_def name_index_def named_cfg_def zero_cfg_def cfg_merge_def cfg_empty_def)
qed

section \<open>The default configuration is shared\<close>

text \<open>
  The agents of a task that have no configuration share the array of the default one: when the task removes the
  first plugin of the default, the first agent gets the rest, but the next one gets the rest with its last plugin
  twice, because removing an entry moved the others inside the shared array.
\<close>

theorem default_config_corrupted:
  assumes v: "cfg_empty v" "cm_Name v = cm_Name a" and names: "cm_Name a \<notin> cm_Name ` set (b # cs)"
    and t: "at_Config t = [v]" and ids: "id1 \<noteq> id2"
  shows "map (job_config (AgentControlDistribute grow TypeAgentConfig t [a # b # cs] \<lparr>sl_addr = 0, sl_len = Suc (Suc (length cs))\<rparr>
         [(Some \<lparr>hb_AgentId = id1, hb_SourceIp = ip1, hb_SourcePort = p1, hb_Config = None\<rparr>, tk1),
          (Some \<lparr>hb_AgentId = id2, hb_SourceIp = ip2, hb_SourcePort = p2, hb_Config = None\<rparr>, tk2)]))
      (dc_jobs (AgentControlDistribute grow TypeAgentConfig t [a # b # cs] \<lparr>sl_addr = 0, sl_len = Suc (Suc (length cs))\<rparr>
         [(Some \<lparr>hb_AgentId = id1, hb_SourceIp = ip1, hb_SourcePort = p1, hb_Config = None\<rparr>, tk1),
          (Some \<lparr>hb_AgentId = id2, hb_SourceIp = ip2, hb_SourcePort = p2, hb_Config = None\<rparr>, tk2)]))
    = [b # cs, (b # cs) @ [last (b # cs)]]"
proof -
  let ?d = "\<lparr>sl_addr = 0, sl_len = Suc (Suc (length cs))\<rparr>"
  define L where "L = last (b # cs)"
  have dl: "drop (length cs) (b # cs) = [L]" unfolding L_def by (induction cs arbitrary: b) simp_all
  have nL: "cm_Name L \<noteq> cm_Name a" using names unfolding L_def by (metis image_eqI last_in_set list.distinct(1))
  have "name_index (cm_Name v) (contents [a # b # cs] ?d) = Some 0"
    using v by (simp add: contents_def name_index_def)
  moreover have "slice_delete 0 ([a # b # cs], ?d) = ([(b # cs) @ [L]], \<lparr>sl_addr = 0, sl_len = Suc (length cs)\<rparr>)"
    using dl by (simp add: slice_delete_def contents_def)
  ultimately have one: "updateConfig grow [v] ([a # b # cs], ?d) = ([(b # cs) @ [L]], \<lparr>sl_addr = 0, sl_len = Suc (length cs)\<rparr>)"
    using v by (simp add: updateConfig_def updateConfig_one_def)
  have "takeWhile (\<lambda>c. cm_Name c \<noteq> cm_Name v) ((b # cs) @ [L]) = (b # cs) @ [L]"
    unfolding takeWhile_eq_all_conv using names v(2) nL by (auto simp: image_iff)
  then have "name_index (cm_Name v) (contents [(b # cs) @ [L]] ?d) = None"
    unfolding name_index_def contents_def by simp
  then have two: "updateConfig grow [v] ([(b # cs) @ [L]], ?d) = ([(b # cs) @ [L]], ?d)"
    using v by (simp add: updateConfig_def updateConfig_one_def)
  define hb where "hb = (\<lambda>i ip p. \<lparr>hb_AgentId = i, hb_SourceIp = ip, hb_SourcePort = p, hb_Config = None\<rparr>)"
  have job: "distribute_one grow TypeAgentConfig t ?d s (Some (hb i ip p), tk) =
      (let (st, sl) = updateConfig grow [v] (dc_store s, ?d) in
       s\<lparr>dc_seen := mput (dc_seen s) i True, dc_store := st,
         dc_jobs := dc_jobs s @ [\<lparr>dj_Host = host_port ip p, dj_AgentId = i, dj_Token = tk, dj_Argv = ArgConfig sl\<rparr>]\<rparr>)"
    if "map_of (dc_seen s) i = None" for s i ip p tk
    using that by (simp add: distribute_one_def hb_def t Let_def split: prod.split)
  show ?thesis
    unfolding AgentControlDistribute_def hb_def[symmetric, THEN fun_cong, THEN fun_cong, THEN fun_cong] L_def[symmetric]
    using ids two by (simp add: job one job_config_def contents_def)
qed

theorem default_config_corrupted_witness:
  "\<exists>jobs s. AgentControlDistribute Suc TypeAgentConfig (sample_task\<lparr>at_Config := [named_cfg ''a'' []]\<rparr>)
       [[named_cfg ''a'' ''1'', named_cfg ''b'' ''1'']] \<lparr>sl_addr = 0, sl_len = 2\<rparr>
       [(Some \<lparr>hb_AgentId = ''x'', hb_SourceIp = ''h'', hb_SourcePort = 1, hb_Config = None\<rparr>, ''t1''),
        (Some \<lparr>hb_AgentId = ''y'', hb_SourceIp = ''h'', hb_SourcePort = 1, hb_Config = None\<rparr>, ''t2'')] = s \<and> dc_jobs s = jobs \<and>
     map (job_config s) jobs = [[named_cfg ''b'' ''1''], [named_cfg ''b'' ''1'', named_cfg ''b'' ''1'']]"
  using default_config_corrupted[of "named_cfg ''a'' []" "named_cfg ''a'' ''1''" "named_cfg ''b'' ''1''" "[]"
      "sample_task\<lparr>at_Config := [named_cfg ''a'' []]\<rparr>" "''x''" "''y''" Suc "''h''" 1 "''t1''" "''h''" 1 "''t2''"]
  by (simp add: named_cfg_def zero_cfg_def cfg_empty_def numeral_2_eq_2)

section \<open>Updates that overtake each other\<close>

text \<open>
  What the database promises of an update with upsert: the first document with the fields of the filter gets the new
  fields; without one, a document with the fields of the filter and the new ones is inserted.
\<close>

definition matches :: "doc \<Rightarrow> doc \<Rightarrow> bool" where
  "matches f x \<longleftrightarrow> list_all (\<lambda>(k, v). map_of x k = Some v) f"

definition doc_set :: "doc \<Rightarrow> doc \<Rightarrow> doc" where
  "doc_set x d = foldl (\<lambda>m (k, v). mput m k v) x d"

definition update_spec :: "(doc list \<Rightarrow> write_model \<Rightarrow> doc list) \<Rightarrow> bool" where
  "update_spec ap \<longleftrightarrow>
     (\<forall>c f d i. \<not> list_ex (matches f) c \<longrightarrow> ap c (UpdateOne f d i) = c @ [doc_set (doc_set f i) d]) \<and>
     (\<forall>c1 x c2 f d i. \<not> list_ex (matches f) c1 \<longrightarrow> matches f x \<longrightarrow>
        ap (c1 @ x # c2) (UpdateOne f d i) = c1 @ doc_set x d # c2)"

definition running_doc :: "string \<Rightarrow> string \<Rightarrow> string \<Rightarrow> doc" where
  "running_doc taskID agentID token =
     [(''task_id'', JStr taskID), (''agent_id'', JStr agentID), (''token'', JStr token), (''status'', JStr TaskStatusRunning)]"

definition sent_doc :: "string \<Rightarrow> string \<Rightarrow> doc" where
  "sent_doc token status = [(''token'', JStr token), (''status'', JStr status)]"

text \<open>
  C36. The instance that distributes a subtask and the one that sends it write its state independently, each delayed by
  up to five seconds.  If the result arrives first, no subtask has the (nonempty) token yet: a second document is inserted
  for the result, and the subtask itself stays running; in the other order the subtask gets the result.
\<close>

theorem overtaken_result_is_orphaned:
  assumes spec: "update_spec ap"
    and m1: "subTaskUpdate_model n1 (running_doc taskID agentID token) = Some m1"
    and m2: "subTaskUpdate_model n2 (sent_doc token status) = Some m2" and tok: "token \<noteq> []"
  shows "map (\<lambda>x. (map_of x ''agent_id'', map_of x ''status'')) (foldl ap [new_subtask tType taskID now agentID] [m1, m2])
       = [(Some (JStr agentID), Some (JStr status))] \<and>
     map (\<lambda>x. (map_of x ''agent_id'', map_of x ''status'')) (foldl ap [new_subtask tType taskID now agentID] [m2, m1])
       = [(Some (JStr agentID), Some (JStr TaskStatusRunning)), (None, Some (JStr status))]"
proof -
  let ?f1 = "[(''task_id'', JStr taskID), (''agent_id'', JStr agentID)]" and ?f2 = "[(''token'', JStr token)]"
  let ?d1 = "mput (running_doc taskID agentID token) ''update_time'' (JNum n1)"
    and ?d2 = "mput (sent_doc token status) ''update_time'' (JNum n2)" and ?x = "new_subtask tType taskID now agentID"
  have m: "m1 = UpdateOne ?f1 ?d1 []" "m2 = UpdateOne ?f2 ?d2 []"
    using m1 m2 by (simp_all add: subTaskUpdate_model_def running_doc_def sent_doc_def)
  have hit: "ap (x # c2) (UpdateOne f d []) = doc_set x d # c2" if "matches f x" for x c2 f d
    using spec[unfolded update_spec_def, THEN conjunct2, rule_format, where ?c1.0 = "[]" and x = x and f = f] that by simp
  have miss: "ap [x] (UpdateOne f d []) = [x, doc_set f d]" if "\<not> matches f x" for x f d
    using spec that unfolding update_spec_def by (simp add: doc_set_def)
  have x: "matches ?f1 ?x" "\<not> matches ?f2 ?x" "matches ?f2 (doc_set ?x ?d1)"
    using tok by (simp_all add: matches_def new_subtask_def doc_set_def running_doc_def)
  have r1: "foldl ap [?x] [m1, m2] = [doc_set (doc_set ?x ?d1) ?d2]" by (simp only: foldl_Cons foldl_Nil m hit x)
  have r2: "foldl ap [?x] [m2, m1] = [doc_set ?x ?d1, doc_set ?f2 ?d2]" by (simp only: foldl_Cons foldl_Nil m hit miss x not_False_eq_True)
  show ?thesis unfolding r1 r2 by (simp add: doc_set_def new_subtask_def running_doc_def sent_doc_def)
qed

fun sample_ap :: "doc list \<Rightarrow> write_model \<Rightarrow> doc list" where
  "sample_ap [] (UpdateOne f d i) = [doc_set (doc_set f i) d]"
| "sample_ap (x # c) (UpdateOne f d i) = (if matches f x then doc_set x d # c else x # sample_ap c (UpdateOne f d i))"
| "sample_ap c (InsertOne d) = c @ [d]"

lemma sample_ap_spec: "update_spec sample_ap"
proof -
  have "\<not> list_ex (matches f) c \<Longrightarrow> sample_ap c (UpdateOne f d i) = c @ [doc_set (doc_set f i) d]" for c f d i
    by (induction c) auto
  moreover have "\<not> list_ex (matches f) c1 \<Longrightarrow> matches f x \<Longrightarrow> sample_ap (c1 @ x # c2) (UpdateOne f d i) = c1 @ doc_set x d # c2"
    for c1 x c2 f d i by (induction c1) auto
  ultimately show ?thesis by (simp add: update_spec_def)
qed

theorem overtaken_result_is_orphaned_witness:
  "\<exists>m1 m2. subTaskUpdate_model 1 (running_doc ''t'' ''a'' ''k'') = Some m1 \<and> subTaskUpdate_model 2 (sent_doc ''k'' TaskStatusSuccess) = Some m2 \<and>
     map (\<lambda>x. (map_of x ''agent_id'', map_of x ''status'')) (foldl sample_ap [new_subtask TypeAgentTask ''t'' 0 ''a''] [m2, m1])
       = [(Some (JStr ''a''), Some (JStr TaskStatusRunning)), (None, Some (JStr TaskStatusSuccess))]"
proof -
  obtain m1 m2 where m: "subTaskUpdate_model 1 (running_doc ''t'' ''a'' ''k'') = Some m1"
    "subTaskUpdate_model 2 (sent_doc ''k'' TaskStatusSuccess) = Some m2"
    by (simp add: subTaskUpdate_model_def running_doc_def sent_doc_def)
  have k: "''k'' \<noteq> []" by simp
  show ?thesis by (intro exI conjI, rule m(1), rule m(2), rule overtaken_result_is_orphaned[OF sample_ap_spec m k, THEN conjunct2])
qed

end
