(* ===== verification/VulnMatch.thy ===== *)
theory VulnMatch
  imports GoStrings "HOL-Library.List_Lexorder"
begin

text \<open>
  Matching the packages of a host with known vulnerabilities,
  \<open>server/manager/internal/dbtask/leader_vuln.go\<close>.

  What the database answers is an argument; the caches are maps that keep what was added.  An index
  outside a slice is a panic, the result \<^const>\<open>None\<close>.  Version strings are ASCII.  The sums of
  \<open>compareVersion\<close> are natural numbers: every component has at most three digits, so the \<open>float64\<close> sums
  stay below \<open>10 ^ 15\<close>, where they are exact.
\<close>

record PkgInfo =
  pk_AgentId :: string
  pk_PackageSeq :: string
  pk_Type :: string
  pk_Token :: string
  pk_Name :: string
  pk_Version :: string
  pk_Source :: string
  pk_Status :: string
  pk_Vendor :: string
  pk_Cmdline :: string
  pk_Pid :: string
  pk_Path :: string
  pk_ContainerName :: string
  pk_ContainerId :: string

record AgentVulnSoftInfo =
  sf_AgentId :: string
  sf_VulnId :: int
  sf_Type :: string
  sf_PackageName :: string
  sf_PackageVersion :: string
  sf_PackageSource :: string
  sf_PackagePath :: string
  sf_ContainerName :: string
  sf_ContainerId :: string
  sf_Cmdline :: string
  sf_UpdateTime :: int
  sf_PidList :: "(string \<times> string) list"

record AgentVulnInfo =
  vi_AgentId :: string
  vi_VulnId :: int
  vi_CveId :: string
  vi_Status :: string
  vi_Level :: string
  vi_CreateTime :: int
  vi_UpdateTime :: int
  vi_ControlTime :: int
  vi_DropStatus :: string
  vi_Action :: string
  vi_OperateReason :: string

record CpeInfo =
  cpe_VulnId :: int
  cpe_Name :: string
  cpe_Version :: string
  cpe_EndExcluding :: string
  cpe_EndIncluding :: string
  cpe_StartExcluding :: string
  cpe_StartIncluding :: string

record VulnInfoLess =
  vl_Id :: int
  vl_PublishedTime :: int
  vl_Severity :: string
  vl_Cve :: string
  vl_VulnNameEn :: string
  vl_Action :: string
  vl_Score :: int

definition VulnStatusUnProcessed :: string where "VulnStatusUnProcessed = ''unprocessed''"
definition VulnStatusIgnored :: string where "VulnStatusIgnored = ''ignored''"
definition VulnDropStatusUse :: string where "VulnDropStatusUse = ''using''"
definition VulnActionBlock :: string where "VulnActionBlock = ''block''"
definition MuchVulnAgent :: int where "MuchVulnAgent = 2000"

section \<open>Names and versions of packages\<close>

definition Index :: "string \<Rightarrow> string \<Rightarrow> nat option" where
  "Index s sub = map_option (\<lambda>(a, b). length a) (Cut s sub)"

definition TrimSpaces :: "string \<Rightarrow> string" where
  "TrimSpaces s = rev (dropWhile (\<lambda>c. c = CHR '' '') (rev (dropWhile (\<lambda>c. c = CHR '' '') s)))"

definition zero_pkg :: PkgInfo where
  "zero_pkg = \<lparr>pk_AgentId = [], pk_PackageSeq = [], pk_Type = [], pk_Token = [], pk_Name = [], pk_Version = [],
     pk_Source = [], pk_Status = [], pk_Vendor = [], pk_Cmdline = [], pk_Pid = [], pk_Path = [],
     pk_ContainerName = [], pk_ContainerId = []\<rparr>"

text \<open>The name and version inside the \<open>source\<close> field of a Debian package, as \<open>name (version)\<close>.\<close>

definition dpkg_source :: "string \<Rightarrow> PkgInfo \<Rightarrow> PkgInfo option" where
  "dpkg_source source ret =
     (if source = [] then Some ret
      else case Index source ''('' of
             None \<Rightarrow> Some (ret\<lparr>pk_Name := TrimSpaces source\<rparr>)
           | Some versionStart \<Rightarrow>
               (case Index source '')'' of
                  None \<Rightarrow> None
                | Some versionEnd \<Rightarrow>
                    if versionEnd < versionStart + 1 then None
                    else Some (ret\<lparr>pk_Version := take (versionEnd - (versionStart + 1)) (drop (versionStart + 1) source),
                                  pk_Name := TrimSpaces (take versionStart source)\<rparr>)))"

definition dpkg_version :: "string \<Rightarrow> string" where
  "dpkg_version v =
     (let v = (case Index v ''-'' of Some i \<Rightarrow> take i v | None \<Rightarrow> v)
      in case Index v '':'' of Some i \<Rightarrow> drop (i + 1) v | None \<Rightarrow> v)"

definition formatNameVersion :: "PkgInfo \<Rightarrow> PkgInfo option" where
  "formatNameVersion pkg =
     (let ret = zero_pkg\<lparr>pk_Name := pk_Name pkg, pk_Version := pk_Version pkg, pk_AgentId := pk_AgentId pkg,
                        pk_PackageSeq := pk_PackageSeq pkg\<rparr>
      in if pk_Type pkg = ''dpkg'' then
           map_option (\<lambda>r. r\<lparr>pk_Version := dpkg_version (pk_Version r)\<rparr>) (dpkg_source (pk_Source pkg) ret)
         else if pk_Type pkg = ''jar'' then
           Some (ret\<lparr>pk_Name := (case Index (pk_Name pkg) ''-'' of Some i \<Rightarrow> take i (pk_Name pkg) | None \<Rightarrow> pk_Name pkg),
                     pk_Vendor := ''apache''\<rparr>)
         else Some ret)"

section \<open>Comparing versions\<close>

definition ver_norm :: "char \<Rightarrow> char" where
  "ver_norm c = (if c = CHR ''_'' \<or> c = CHR ''-'' then CHR ''.''
                 else if \<not> is_digit c \<and> c \<noteq> CHR ''.'' then CHR ''0'' else c)"

definition dec_num :: "string \<Rightarrow> nat" where
  "dec_num s = foldl (\<lambda>n c. 10 * n + digit_val c) 0 s"

text \<open>\<open>ParseFloat\<close> of a string of digits; the empty string is an error.\<close>

definition ParseDigits :: "string \<Rightarrow> nat option" where
  "ParseDigits s = (if s = [] then None else Some (dec_num s))"

fun ver_sum :: "nat \<Rightarrow> string list \<Rightarrow> nat" where
  "ver_sum i [] = 0"
| "ver_sum i (s # ss) =
     (if i \<ge> 4 then 0
      else let s = (if length s > 3 then take 3 s else s)
           in (case ParseDigits s of None \<Rightarrow> 0 | Some n \<Rightarrow> n * 1000 ^ (4 - i)) + ver_sum (Suc i) ss)"

definition ver_value :: "string \<Rightarrow> nat" where
  "ver_value v = ver_sum 0 (Split (map ver_norm v) ''.'')"

definition compareVersion :: "string \<Rightarrow> string \<Rightarrow> string \<Rightarrow> bool" where
  "compareVersion v1 symbol v2 =
     (let v1Sum = ver_value v1; v2Sum = ver_value v2 in
      if symbol = ''<'' then v1Sum < v2Sum
      else if symbol = ''>'' then v1Sum > v2Sum
      else if symbol = ''='' then v1Sum = v2Sum
      else if symbol = ''>='' then v1Sum \<ge> v2Sum
      else if symbol = ''<='' then v1Sum \<le> v2Sum
      else False)"

section \<open>Matching\<close>

definition has_bounds :: "CpeInfo \<Rightarrow> bool" where
  "has_bounds c \<longleftrightarrow> \<not> (cpe_EndExcluding c = [] \<and> cpe_EndIncluding c = [] \<and> cpe_StartExcluding c = [] \<and> cpe_StartIncluding c = [])"

definition in_bounds :: "string \<Rightarrow> CpeInfo \<Rightarrow> bool" where
  "in_bounds v c \<longleftrightarrow>
     \<not> (cpe_EndExcluding c \<noteq> [] \<and> compareVersion v ''>='' (cpe_EndExcluding c)) \<and>
     \<not> (cpe_EndIncluding c \<noteq> [] \<and> compareVersion v ''>'' (cpe_EndIncluding c)) \<and>
     \<not> (cpe_StartExcluding c \<noteq> [] \<and> compareVersion v ''<='' (cpe_StartExcluding c)) \<and>
     \<not> (cpe_StartIncluding c \<noteq> [] \<and> compareVersion v ''<'' (cpe_StartIncluding c))"

definition range_step :: "PkgInfo \<Rightarrow> (int, string) gomap \<Rightarrow> CpeInfo \<Rightarrow> (int, string) gomap" where
  "range_step pkg m c =
     (if map_of m (cpe_VulnId c) \<noteq> None then m
      else if \<not> has_bounds c then m
      else if \<not> in_bounds (pk_Version pkg) c then m
      else mput m (cpe_VulnId c) [])"

text \<open>\<open>exact\<close> are the vulnerabilities of the first query, \<open>ranges\<close> the entries of the second one.\<close>

definition vulnMatch :: "PkgInfo \<Rightarrow> int list \<Rightarrow> CpeInfo list \<Rightarrow> (int, string) gomap" where
  "vulnMatch pkg exact ranges = foldl (range_step pkg) (foldl (\<lambda>m v. mput m v []) [] exact) ranges"

definition vuln_score :: "VulnInfoLess \<Rightarrow> int" where
  "vuln_score v =
     (let sev = (if vl_Action v = VulnActionBlock then 6 else fst (ParseInt (vl_Severity v)))
      in wrap64 (wrap64 (sev * 10000000000) + vl_PublishedTime v))"

definition keep_vuln :: "int \<Rightarrow> int \<Rightarrow> VulnInfoLess \<Rightarrow> bool" where
  "keep_vuln agentNum recent3 v \<longleftrightarrow>
     \<not> Contains (vl_VulnNameEn v) ''mac os'' \<and>
     (vl_Action v = VulnActionBlock \<or> (\<not> agentNum > MuchVulnAgent \<and> \<not> vl_PublishedTime v < recent3))"

text \<open>
  \<open>FileterVuln\<close>: \<open>infos\<close> are the entries the database returns for the identifiers.  Of equal scores
  \<open>sort.Slice\<close> may keep any; the model keeps the first.
\<close>

definition hitMax :: nat where "hitMax = 7"

definition FileterVuln :: "int \<Rightarrow> int \<Rightarrow> (int list \<Rightarrow> VulnInfoLess list) \<Rightarrow> int list \<Rightarrow> VulnInfoLess list" where
  "FileterVuln agentNum recent3 infos ids =
     (if length ids = 0 then []
      else let l = map (\<lambda>v. v\<lparr>vl_Score := vuln_score v\<rparr>) (filter (keep_vuln agentNum recent3) (infos ids))
           in if length l > hitMax then take hitMax (sort_key (\<lambda>v. - vl_Score v) l) else l)"

section \<open>The packages of a host\<close>

record vuln_env =
  ve_exact :: "PkgInfo \<Rightarrow> int list"
  ve_ranges :: "PkgInfo \<Rightarrow> CpeInfo list"
  ve_infos :: "int list \<Rightarrow> VulnInfoLess list"
  ve_agentNum :: int
  ve_recent3 :: int
  ve_old :: "AgentVulnInfo list"
  ve_ignored :: "(int \<times> string) list"
  ve_now :: int

record vuln_caches =
  vc_Cpe :: "(string, int list) gomap"
  vc_Vuln :: "(string, VulnInfoLess list) gomap"

definition CpeSearch :: "vuln_env \<Rightarrow> vuln_caches \<Rightarrow> PkgInfo \<Rightarrow> int list \<times> vuln_caches" where
  "CpeSearch env vc pkg =
     (let key = pk_Name pkg @ ''-'' @ pk_Version pkg @ ''-'' @ pk_Vendor pkg
      in case map_of (vc_Cpe vc) key of
           Some ids \<Rightarrow> (ids, vc)
         | None \<Rightarrow>
             let ids = map fst (vulnMatch pkg (ve_exact env pkg) (ve_ranges env pkg))
             in (ids, vc\<lparr>vc_Cpe := mput (vc_Cpe vc) key ids\<rparr>))"

definition pkg_vulns :: "vuln_env \<Rightarrow> vuln_caches \<Rightarrow> PkgInfo \<Rightarrow> (VulnInfoLess list \<times> vuln_caches) option" where
  "pkg_vulns env vc pkg =
     (let key = pk_Name pkg @ ''--'' @ pk_Version pkg @ ''--'' @ pk_Vendor pkg
      in case map_of (vc_Vuln vc) key of
           Some l \<Rightarrow> Some (l, vc)
         | None \<Rightarrow>
             (case formatNameVersion pkg of
                None \<Rightarrow> None
              | Some p \<Rightarrow>
                  let (ids, vc) = CpeSearch env vc p;
                      l = FileterVuln (ve_agentNum env) (ve_recent3 env) (ve_infos env) ids
                  in Some (l, vc\<lparr>vc_Vuln := mput (vc_Vuln vc) key l\<rparr>)))"

definition levelMap :: "string \<Rightarrow> string" where
  "levelMap s = (case map_of [(''1'', ''low''), (''2'', ''low''), (''3'', ''mid''), (''4'', ''high''), (''5'', ''danger'')] s of
     Some l \<Rightarrow> l | None \<Rightarrow> [])"

definition zero_vuln :: AgentVulnInfo where
  "zero_vuln = \<lparr>vi_AgentId = [], vi_VulnId = 0, vi_CveId = [], vi_Status = [], vi_Level = [], vi_CreateTime = 0,
     vi_UpdateTime = 0, vi_ControlTime = 0, vi_DropStatus = [], vi_Action = [], vi_OperateReason = []\<rparr>"

definition new_vuln :: "PkgInfo \<Rightarrow> VulnInfoLess \<Rightarrow> AgentVulnInfo" where
  "new_vuln pkg v = zero_vuln\<lparr>vi_AgentId := pk_AgentId pkg, vi_VulnId := vl_Id v, vi_CreateTime := vl_PublishedTime v,
     vi_CveId := vl_Cve v, vi_Level := levelMap (vl_Severity v), vi_Action := vl_Action v\<rparr>"

definition vuln_soft :: "int \<Rightarrow> PkgInfo \<Rightarrow> VulnInfoLess \<Rightarrow> AgentVulnSoftInfo" where
  "vuln_soft now pkg v =
     \<lparr>sf_AgentId = pk_AgentId pkg, sf_VulnId = vl_Id v, sf_Type = pk_Type pkg, sf_PackageName = pk_Name pkg,
      sf_PackageVersion = pk_Version pkg,
      sf_PackageSource = (if pk_Type pkg = ''dpkg'' then pk_Source pkg @ ''(dpkg)'' else pk_Type pkg),
      sf_PackagePath = pk_Path pkg, sf_ContainerName = pk_ContainerName pkg, sf_ContainerId = pk_ContainerId pkg,
      sf_Cmdline = [], sf_UpdateTime = now,
      sf_PidList = (if pk_Pid pkg \<noteq> [] then [(pk_Pid pkg, pk_Cmdline pkg)] else [])\<rparr>"

record new_vulns =
  nv_infos :: "(int, AgentVulnInfo) gomap"
  nv_softs :: "(int, AgentVulnSoftInfo list) gomap"

definition add_vuln :: "int \<Rightarrow> PkgInfo \<Rightarrow> new_vulns \<Rightarrow> VulnInfoLess \<Rightarrow> new_vulns" where
  "add_vuln now pkg nv v =
     nv\<lparr>nv_infos := mput (nv_infos nv) (vl_Id v) (new_vuln pkg v),
        nv_softs := mput (nv_softs nv) (vl_Id v)
          ((case map_of (nv_softs nv) (vl_Id v) of Some l \<Rightarrow> l | None \<Rightarrow> []) @ [vuln_soft now pkg v])\<rparr>"

fun collect_vulns :: "vuln_env \<Rightarrow> vuln_caches \<Rightarrow> PkgInfo list \<Rightarrow> new_vulns \<Rightarrow> (new_vulns \<times> vuln_caches) option" where
  "collect_vulns env vc [] nv = Some (nv, vc)"
| "collect_vulns env vc (pkg # pkgs) nv =
     (case pkg_vulns env vc pkg of
        None \<Rightarrow> None
      | Some (l, vc') \<Rightarrow> collect_vulns env vc' pkgs (foldl (add_vuln (ve_now env) pkg) nv l))"

datatype vuln_write_op =
    SetTime int string int
  | UpsertVuln int string AgentVulnInfo

definition vuln_write ::
  "vuln_env \<Rightarrow> string \<Rightarrow> (int, AgentVulnInfo) gomap \<Rightarrow> (int, string) gomap \<Rightarrow> int \<times> AgentVulnInfo \<Rightarrow> vuln_write_op" where
  "vuln_write env agentId old ignored p =
     (let (vulnId, new) = p;
          v = zero_vuln\<lparr>vi_DropStatus := VulnDropStatusUse\<rparr>;
          fin = (\<lambda>v. UpsertVuln vulnId agentId (v\<lparr>vi_AgentId := agentId, vi_VulnId := vulnId, vi_UpdateTime := ve_now env,
                  vi_CveId := vi_CveId new, vi_Level := vi_Level new, vi_Action := vi_Action new\<rparr>))
      in case map_of old vulnId of
           None \<Rightarrow>
             let v = v\<lparr>vi_CreateTime := ve_now env, vi_ControlTime := ve_now env\<rparr>
             in fin (case map_of ignored vulnId of
                       Some reason \<Rightarrow> v\<lparr>vi_Status := VulnStatusIgnored, vi_OperateReason := reason\<rparr>
                     | None \<Rightarrow> v\<lparr>vi_Status := VulnStatusUnProcessed\<rparr>)
         | Some o1 \<Rightarrow>
             if vi_Status o1 = VulnStatusUnProcessed
             then fin (v\<lparr>vi_CreateTime := vi_CreateTime o1, vi_ControlTime := vi_ControlTime o1, vi_Status := VulnStatusUnProcessed\<rparr>)
             else SetTime vulnId agentId (vi_UpdateTime v))"

definition soft_writes :: "new_vulns \<Rightarrow> vuln_write_op \<Rightarrow> AgentVulnSoftInfo list" where
  "soft_writes nv w =
     (case w of
        SetTime i a t \<Rightarrow> []
      | UpsertVuln i a v \<Rightarrow> (case map_of (nv_softs nv) i of Some l \<Rightarrow> l | None \<Rightarrow> []))"

definition DealPkgList ::
  "vuln_env \<Rightarrow> vuln_caches \<Rightarrow> PkgInfo list \<Rightarrow> (vuln_write_op list \<times> AgentVulnSoftInfo list \<times> vuln_caches) option" where
  "DealPkgList env vc pkgs =
     (case pkgs of
        [] \<Rightarrow> None
      | pkg # _ \<Rightarrow>
          (case collect_vulns env vc pkgs \<lparr>nv_infos = [], nv_softs = []\<rparr> of
             None \<Rightarrow> None
           | Some (nv, vc') \<Rightarrow>
               let old = foldl (\<lambda>m v. mput m (vi_VulnId v) v) [] (ve_old env);
                   ignored = foldl (\<lambda>m (i, r). mput m i r) [] (ve_ignored env);
                   writes = map (vuln_write env (pk_AgentId pkg) old ignored) (nv_infos nv)
               in Some (writes, concat (map (soft_writes nv) writes), vc')))"

section \<open>Versions are compared component by component\<close>

text \<open>
  The reference: a version is the list of its first four numeric components, the missing ones being
  zero, and versions are ordered lexicographically.  Components are separated by dots,
  hyphens and underscores.
\<close>

definition ver_components :: "string \<Rightarrow> string list" where
  "ver_components v = Split (map ver_norm v) ''.''"

definition ver_parts :: "string \<Rightarrow> nat list" where
  "ver_parts v = take 4 (map dec_num (ver_components v) @ replicate 4 0)"

definition short_version :: "string \<Rightarrow> bool" where
  "short_version v \<longleftrightarrow> list_all (\<lambda>s. length s \<le> 3) (take 4 (ver_components v))"

definition ver_compare :: "string \<Rightarrow> nat list \<Rightarrow> nat list \<Rightarrow> bool" where
  "ver_compare symbol xs ys \<longleftrightarrow>
     (symbol = ''<'' \<and> xs < ys) \<or> (symbol = ''>'' \<and> ys < xs) \<or> (symbol = ''='' \<and> xs = ys) \<or>
     (symbol = ''>='' \<and> ys \<le> xs) \<or> (symbol = ''<='' \<and> xs \<le> ys)"

primrec base1000 :: "nat list \<Rightarrow> nat" where
  "base1000 [] = 0"
| "base1000 (x # xs) = x * 1000 ^ Suc (length xs) + base1000 xs"

lemma base1000_bound: "list_all (\<lambda>x. x < 1000) xs \<Longrightarrow> base1000 xs < 1000 ^ Suc (length xs)"
proof (induction xs)
  case (Cons x xs)
  define W where "W = (1000::nat) ^ Suc (length xs)"
  have "base1000 xs < W" "x \<le> 999" using Cons by (simp_all add: W_def)
  then have "x * W + base1000 xs < 999 * W + W" by (meson add_le_less_mono mult_le_mono1)
  then show ?case by (simp add: W_def)
qed simp

lemma radix_less:
  fixes x y v w W :: nat
  assumes "v < W" "w < W"
  shows "x * W + v < y * W + w \<longleftrightarrow> x < y \<or> x = y \<and> v < w"
proof -
  have "x * W + v < y * W + w" if "x < y"
  proof -
    have "Suc x * W \<le> y * W" using that by (intro mult_le_mono1) simp
    then show ?thesis using assms(1) by simp
  qed
  moreover have "y * W + w < x * W + v" if "y < x"
  proof -
    have "Suc y * W \<le> x * W" using that by (intro mult_le_mono1) simp
    then show ?thesis using assms(2) by simp
  qed
  ultimately show ?thesis by (cases x y rule: linorder_cases) auto
qed

lemma base1000_less:
  "length xs = length ys \<Longrightarrow> list_all (\<lambda>x. x < 1000) xs \<Longrightarrow> list_all (\<lambda>x. x < 1000) ys \<Longrightarrow>
     base1000 xs < base1000 ys \<longleftrightarrow> xs < ys"
proof (induction xs ys rule: list_induct2)
  case (Cons x xs y ys)
  have "base1000 xs < 1000 ^ Suc (length xs)" "base1000 ys < 1000 ^ Suc (length xs)"
    using Cons base1000_bound[of xs] base1000_bound[of ys] by simp_all
  from radix_less[OF this, of x y] Cons show ?case by simp
qed simp

lemma base1000_compare:
  assumes "length xs = length ys" "list_all (\<lambda>x. x < 1000) xs" "list_all (\<lambda>x. x < 1000) ys"
  shows "base1000 xs < base1000 ys \<longleftrightarrow> xs < ys" "base1000 xs \<le> base1000 ys \<longleftrightarrow> xs \<le> ys"
    "base1000 xs = base1000 ys \<longleftrightarrow> xs = ys"
proof -
  have lt: "base1000 xs < base1000 ys \<longleftrightarrow> xs < ys" "base1000 ys < base1000 xs \<longleftrightarrow> ys < xs"
    using base1000_less assms by metis+
  then show "base1000 xs < base1000 ys \<longleftrightarrow> xs < ys" by simp
  show "base1000 xs \<le> base1000 ys \<longleftrightarrow> xs \<le> ys" using lt by (metis linorder_not_less)
  show "base1000 xs = base1000 ys \<longleftrightarrow> xs = ys" using lt by (metis linorder_less_linear order_less_irrefl)
qed

lemma dec_num_append: "dec_num (s @ [c]) = 10 * dec_num s + digit_val c"
  by (simp add: dec_num_def)

lemma dec_num_bound: "list_all is_digit s \<Longrightarrow> dec_num s < 10 ^ length s"
proof (induction s rule: rev_induct)
  case (snoc c s)
  have "digit_val c < 10" using snoc.prems by (auto simp: is_digit_def digit_val_def)
  then show ?case using snoc by (simp add: dec_num_append)
qed (simp add: dec_num_def)

lemma ver_sum_base1000:
  "i \<le> 4 \<Longrightarrow> list_all (\<lambda>s. length s \<le> 3) (take (4 - i) ss) \<Longrightarrow>
     ver_sum i ss = base1000 (take (4 - i) (map dec_num ss @ replicate 4 0))"
proof (induction i ss rule: ver_sum.induct)
  case (1 i)
  have "base1000 (replicate n 0) = 0" for n by (induction n) simp_all
  then show ?case by simp
next
  case (2 i s ss)
  show ?case
  proof (cases "i = 4")
    case False
    then obtain k where k: "4 - i = Suc k" "4 - Suc i = k" "i < 4" using 2(2) by (cases "4 - i") auto
    have "list_all (\<lambda>s. length s \<le> 3) (take (4 - Suc i) ss)" using 2(3) k(1) unfolding k(2) by simp
    then have "ver_sum (Suc i) ss = base1000 (take k (map dec_num ss @ replicate 4 0))"
      using 2(1)[OF _ refl] k(3) unfolding k(2) by fastforce
    moreover have len: "length (take k (map dec_num ss @ replicate 4 0)) = k" using k by simp
    moreover have "(case ParseDigits s of None \<Rightarrow> 0 | Some n \<Rightarrow> n * c) = dec_num s * c" for c
      by (simp add: ParseDigits_def dec_num_def)
    ultimately have "ver_sum i (s # ss) = dec_num s * 1000 ^ Suc k + base1000 (take k (map dec_num ss @ replicate 4 0))"
      using k 2(3) by (simp del: take_append replicate_app_Cons_same)
    moreover have "take (4 - i) (map dec_num (s # ss) @ replicate 4 0) = dec_num s # take k (map dec_num ss @ replicate 4 0)"
      using k(1) by simp
    ultimately show ?thesis using len by (simp only: base1000.simps)
  qed simp
qed

lemma Cut_single:
  "Cut s [c] = Some (a, b) \<Longrightarrow> c \<notin> set a"
  "Cut s [c] = None \<Longrightarrow> c \<notin> set s"
  by (induction s arbitrary: a b) (auto simp: HasPrefix_def split: if_splits option.splits)

lemma Split_single: "x \<in> set (Split s [c]) \<Longrightarrow> c \<notin> set x \<and> set x \<subseteq> set s"
proof (induction s rule: length_induct)
  case (1 s)
  show ?case
  proof (cases "Cut s [c]")
    case None
    then show ?thesis using 1(2) Cut_single(2)[of s c] by (simp add: Split.simps[of s])
  next
    case (Some p)
    obtain a b where p: "p = (a, b)" by (cases p)
    have s: "s = a @ [c] @ b" "length b < length s" "c \<notin> set a"
      using Some p Cut_Some[of s "[c]" a b] Cut_length[of s "[c]" a b] Cut_single(1)[of s c a b] by simp_all
    have "x = a \<or> x \<in> set (Split b [c])" using 1(2) Some p by (simp add: Split.simps[of s])
    then show ?thesis
    proof
      assume "x \<in> set (Split b [c])"
      then have "c \<notin> set x \<and> set x \<subseteq> set b" using 1(1) s(2) by blast
      then show ?thesis using s(1) by auto
    qed (use s in auto)
  qed
qed

lemma ver_norm_range: "is_digit (ver_norm c) \<or> ver_norm c = CHR ''.''"
  by (auto simp: ver_norm_def is_digit_def)

lemma ver_components_digits: "x \<in> set (ver_components v) \<Longrightarrow> list_all is_digit x"
proof -
  assume "x \<in> set (ver_components v)"
  then have x: "CHR ''.'' \<notin> set x" "set x \<subseteq> ver_norm ` set v"
    using Split_single[of x "map ver_norm v" "CHR ''.''"] by (simp_all add: ver_components_def)
  have "is_digit d" if d: "d \<in> set x" for d
  proof -
    have "d \<in> ver_norm ` set v" using d x(2) by blast
    then show ?thesis using ver_norm_range d x(1) by (metis imageE)
  qed
  then show ?thesis by (simp add: list_all_iff)
qed

lemma ver_parts_bound: "short_version v \<Longrightarrow> list_all (\<lambda>x. x < 1000) (ver_parts v)"
proof -
  assume sh: "short_version v"
  have "dec_num x < 1000" if "x \<in> set (take 4 (ver_components v))" for x
  proof -
    have "dec_num x < 10 ^ length x" using that by (meson dec_num_bound in_set_takeD ver_components_digits)
    also have "\<dots> \<le> 10 ^ 3" using sh that by (intro power_increasing) (auto simp: short_version_def list_all_iff)
    finally show ?thesis by simp
  qed
  then show ?thesis by (auto simp: ver_parts_def list_all_iff take_map)
qed

lemma ver_value_parts: "short_version v \<Longrightarrow> ver_value v = base1000 (ver_parts v)"
  using ver_sum_base1000[of 0 "ver_components v"]
  by (simp only: ver_value_def ver_parts_def short_version_def ver_components_def) simp

text \<open>
  C6. Comparing versions by the sum of their weighted components is the lexicographic comparison of their first
  four numeric components, for every comparison symbol, as long as no component has more than three digits.
\<close>

theorem compareVersion_lexicographic:
  assumes "short_version v1" "short_version v2"
  shows "compareVersion v1 symbol v2 = ver_compare symbol (ver_parts v1) (ver_parts v2)"
proof -
  have len: "length (ver_parts v1) = length (ver_parts v2)" by (simp add: ver_parts_def)
  note cmp = base1000_compare[OF len ver_parts_bound[OF assms(1)] ver_parts_bound[OF assms(2)]]
    base1000_compare[OF len[symmetric] ver_parts_bound[OF assms(2)] ver_parts_bound[OF assms(1)]]
  show ?thesis
    by (simp add: compareVersion_def ver_compare_def ver_value_parts assms Let_def cmp)
qed

theorem compareVersion_lexicographic_witness:
  "short_version ''2.15.1'' \<and> short_version ''2.9-7'' \<and>
   compareVersion ''2.15.1'' ''>'' ''2.9-7'' = ver_compare ''>'' (ver_parts ''2.15.1'') (ver_parts ''2.9-7'')"
proof -
  have sh: "short_version ''2.15.1''" "short_version ''2.9-7''" by code_simp+
  show ?thesis using compareVersion_lexicographic[OF sh] sh by blast
qed

text \<open>
  Longer components and letters break the order: digits after the third are dropped, so that version
  2.1000 counts as older than 2.999, and a letter counts as a digit zero, so that 1.0.2k counts as newer than 1.0.10.
\<close>

theorem compareVersion_misorders:
  "compareVersion ''2.1000'' ''<'' ''2.999'' \<and> compareVersion ''1.0.2k'' ''>'' ''1.0.10'' \<and>
   compareVersion ''1.0.2a'' ''='' ''1.0.2z''"
proof -
  have "ver_components ''2.1000'' = [''2'', ''1000'']" "ver_components ''2.999'' = [''2'', ''999'']"
    "ver_components ''1.0.2k'' = [''1'', ''0'', ''20'']" "ver_components ''1.0.10'' = [''1'', ''0'', ''10'']"
    "ver_components ''1.0.2a'' = [''1'', ''0'', ''20'']" "ver_components ''1.0.2z'' = [''1'', ''0'', ''20'']"
    by code_simp+
  then show ?thesis
    by (simp add: compareVersion_def ver_value_def ver_components_def ParseDigits_def dec_num_def digit_val_def)
qed

section \<open>Which vulnerabilities match\<close>

lemma range_fold_keys:
  "fst ` set (foldl (range_step pkg) m cs) =
     fst ` set m \<union> cpe_VulnId ` {c \<in> set cs. has_bounds c \<and> in_bounds (pk_Version pkg) c}"
proof (induction cs arbitrary: m)
  case (Cons c cs)
  have "fst ` set (range_step pkg m c) =
      fst ` set m \<union> (if has_bounds c \<and> in_bounds (pk_Version pkg) c then {cpe_VulnId c} else {})"
    by (cases "map_of m (cpe_VulnId c) = None")
      (auto simp: range_step_def map_of_eq_None_iff)
  then show ?case using Cons by auto
qed simp

lemma exact_fold_keys: "fst ` set (foldl (\<lambda>m v. mput m v []) m ids) = fst ` set m \<union> set ids"
  by (induction ids arbitrary: m) auto

lemma wf_vulnMatch: "wf_gomap (vulnMatch pkg exact ranges)"
proof -
  have "wf_gomap (foldl (\<lambda>m v. mput m v []) [] exact)" by (rule foldl_invariant) auto
  then show ?thesis unfolding vulnMatch_def
    by (rule foldl_invariant) (auto simp: range_step_def)
qed

definition bound_lists :: "CpeInfo \<Rightarrow> string list" where
  "bound_lists c = [cpe_EndExcluding c, cpe_EndIncluding c, cpe_StartExcluding c, cpe_StartIncluding c]"

text \<open>A version lies between the bounds that are given, in the lexicographic order.\<close>

definition between :: "string \<Rightarrow> CpeInfo \<Rightarrow> bool" where
  "between v c \<longleftrightarrow>
     (cpe_EndExcluding c = [] \<or> ver_parts v < ver_parts (cpe_EndExcluding c)) \<and>
     (cpe_EndIncluding c = [] \<or> ver_parts v \<le> ver_parts (cpe_EndIncluding c)) \<and>
     (cpe_StartExcluding c = [] \<or> ver_parts (cpe_StartExcluding c) < ver_parts v) \<and>
     (cpe_StartIncluding c = [] \<or> ver_parts (cpe_StartIncluding c) \<le> ver_parts v)"

lemma compareVersion_sym:
  assumes "short_version v" "short_version w"
  shows "compareVersion v ''>='' w \<longleftrightarrow> ver_parts w \<le> ver_parts v"
    "compareVersion v ''>'' w \<longleftrightarrow> ver_parts w < ver_parts v"
    "compareVersion v ''<='' w \<longleftrightarrow> ver_parts v \<le> ver_parts w"
    "compareVersion v ''<'' w \<longleftrightarrow> ver_parts v < ver_parts w"
proof -
  have len: "length (ver_parts v) = length (ver_parts w)" by (simp add: ver_parts_def)
  note cmp = base1000_compare[OF len ver_parts_bound[OF assms(1)] ver_parts_bound[OF assms(2)]]
    base1000_compare[OF len[symmetric] ver_parts_bound[OF assms(2)] ver_parts_bound[OF assms(1)]]
  show "compareVersion v ''>='' w \<longleftrightarrow> ver_parts w \<le> ver_parts v"
    "compareVersion v ''>'' w \<longleftrightarrow> ver_parts w < ver_parts v"
    "compareVersion v ''<='' w \<longleftrightarrow> ver_parts v \<le> ver_parts w"
    "compareVersion v ''<'' w \<longleftrightarrow> ver_parts v < ver_parts w"
    by (simp_all add: compareVersion_def ver_value_parts assms Let_def cmp)
qed

lemma in_bounds_between:
  "short_version v \<Longrightarrow> list_all short_version (bound_lists c) \<Longrightarrow> in_bounds v c = between v c"
  by (auto simp: in_bounds_def between_def bound_lists_def compareVersion_sym linorder_not_less linorder_not_le)

text \<open>
  C21. The vulnerabilities of a package, when none of the first four components of its version and of the bounds has more than three digits: those listed for exactly its version, and those with a version range
  that contains it, where the range has at least one bound and every given bound holds in the
  order of the first four components; each is found once.
\<close>

theorem vulnMatch_exact:
  assumes "short_version (pk_Version pkg)" "list_all (\<lambda>c. list_all short_version (bound_lists c)) ranges"
  shows "set (map fst (vulnMatch pkg exact ranges)) =
      set exact \<union> cpe_VulnId ` {c \<in> set ranges. has_bounds c \<and> between (pk_Version pkg) c} \<and>
    distinct (map fst (vulnMatch pkg exact ranges))"
proof -
  have "{c \<in> set ranges. has_bounds c \<and> in_bounds (pk_Version pkg) c}
      = {c \<in> set ranges. has_bounds c \<and> between (pk_Version pkg) c}"
    using assms in_bounds_between by (auto simp: list_all_iff)
  then show ?thesis
    using range_fold_keys[of pkg "foldl (\<lambda>m v. mput m v []) [] exact" ranges]
    by (simp add: vulnMatch_def exact_fold_keys) (metis vulnMatch_def wf_vulnMatch)
qed

theorem vulnMatch_exact_witness:
  "set (map fst (vulnMatch (zero_pkg\<lparr>pk_Version := ''1.2''\<rparr>) [7]
      [\<lparr>cpe_VulnId = 8, cpe_Name = ''log4j'', cpe_Version = [], cpe_EndExcluding = ''1.10'', cpe_EndIncluding = [],
        cpe_StartExcluding = [], cpe_StartIncluding = ''1.0''\<rparr>])) = {7, 8}"
proof -
  define c where "c = \<lparr>cpe_VulnId = 8, cpe_Name = ''log4j'', cpe_Version = [], cpe_EndExcluding = ''1.10'', cpe_EndIncluding = [],
        cpe_StartExcluding = [], cpe_StartIncluding = ''1.0''\<rparr>"
  have p: "ver_parts ''1.2'' = [1, 2, 0, 0]" "ver_parts ''1.10'' = [1, 10, 0, 0]" "ver_parts ''1.0'' = [1, 0, 0, 0]"
    by code_simp+
  have sh: "short_version ''1.2''" "list_all short_version (bound_lists c)"
    unfolding bound_lists_def c_def by code_simp+
  have "has_bounds c \<and> between ''1.2'' c" by (simp add: c_def has_bounds_def between_def p)
  then show ?thesis
    using vulnMatch_exact[of "zero_pkg\<lparr>pk_Version := ''1.2''\<rparr>" "[c]" "[7]"] sh
    by (simp add: c_def[symmetric]) (auto simp: c_def)
qed

section \<open>At most seven vulnerabilities for a package\<close>

lemma FileterVuln_eligible:
  "v \<in> set (FileterVuln n t infos ids) \<Longrightarrow>
     \<exists>w \<in> set (infos ids). keep_vuln n t w \<and> v = w\<lparr>vl_Score := vuln_score w\<rparr>"
  by (auto simp: FileterVuln_def Let_def split: if_splits dest!: in_set_takeD)

lemma take_sorted_le:
  assumes "sorted (map f xs)" "x \<in> set (take n xs)" "y \<in> set (drop n xs)"
  shows "f x \<le> (f y :: int)"
proof -
  have "sorted (map f (take n xs) @ map f (drop n xs))" using assms(1) by (metis append_take_drop_id map_append)
  then show ?thesis using assms(2,3) by (auto simp: sorted_append)
qed

lemma score_range:
  assumes "0 \<le> vl_PublishedTime v" "vl_PublishedTime v < 10000000000"
  shows "vl_Action v = VulnActionBlock \<Longrightarrow> 60000000000 \<le> vuln_score v"
    and "vl_Action v \<noteq> VulnActionBlock \<Longrightarrow> 0 \<le> fst (ParseInt (vl_Severity v)) \<Longrightarrow> fst (ParseInt (vl_Severity v)) \<le> 5 \<Longrightarrow>
           vuln_score v < 60000000000"
proof -
  have id: "wrap64 (wrap64 (s * 10000000000) + vl_PublishedTime v) = s * 10000000000 + vl_PublishedTime v"
    if "0 \<le> s" "s \<le> 6" for s using that assms by (simp add: wrap64_id)
  show "vl_Action v = VulnActionBlock \<Longrightarrow> 60000000000 \<le> vuln_score v"
    using id[of 6] assms by (simp add: vuln_score_def)
  show "vl_Action v \<noteq> VulnActionBlock \<Longrightarrow> 0 \<le> fst (ParseInt (vl_Severity v)) \<Longrightarrow> fst (ParseInt (vl_Severity v)) \<le> 5 \<Longrightarrow>
           vuln_score v < 60000000000"
    using id[of "fst (ParseInt (vl_Severity v))"] assms by (simp add: vuln_score_def Let_def)
qed

text \<open>
  C32. For vulnerabilities with a severity of 0 to 5 and a publication time of at most ten digits: at most seven are kept for a package, and one that is easy to exploit (action
  \<open>block\<close>) and whose title is not about mac os is never crowded out by one that is not: if such a one is dropped, all seven kept ones have that action.
\<close>

theorem FileterVuln_keeps_exploitable:
  assumes real: "list_all (\<lambda>v. 0 \<le> vl_PublishedTime v \<and> vl_PublishedTime v < 10000000000 \<and>
        0 \<le> fst (ParseInt (vl_Severity v)) \<and> fst (ParseInt (vl_Severity v)) \<le> 5) (infos ids)"
    and v: "v \<in> set (infos ids)" "vl_Action v = VulnActionBlock" "\<not> Contains (vl_VulnNameEn v) ''mac os''" "ids \<noteq> []"
  shows "length (FileterVuln n t infos ids) \<le> hitMax \<and>
     (v\<lparr>vl_Score := vuln_score v\<rparr> \<in> set (FileterVuln n t infos ids) \<or>
      (length (FileterVuln n t infos ids) = hitMax \<and>
       list_all (\<lambda>w. vl_Action w = VulnActionBlock) (FileterVuln n t infos ids)))"
proof -
  define l where "l = map (\<lambda>v. v\<lparr>vl_Score := vuln_score v\<rparr>) (filter (keep_vuln n t) (infos ids))"
  let ?s = "sort_key (\<lambda>v. - vl_Score v) l" and ?v = "v\<lparr>vl_Score := vuln_score v\<rparr>"
  have F: "FileterVuln n t infos ids = (if length l > hitMax then take hitMax ?s else l)"
    using v(4) by (simp add: FileterVuln_def l_def Let_def)
  have vl: "?v \<in> set l" using v by (auto simp: l_def keep_vuln_def)
  have "vl_Action w = VulnActionBlock" if d: "?v \<in> set (drop hitMax ?s)" and w: "w \<in> set (take hitMax ?s)" for w
  proof -
    have "- vl_Score w \<le> - vl_Score ?v" by (rule take_sorted_le[OF sorted_sort_key w d])
    moreover obtain u where u: "u \<in> set (infos ids)" "w = u\<lparr>vl_Score := vuln_score u\<rparr>"
      using in_set_takeD[OF w] by (auto simp: l_def)
    ultimately have le: "vuln_score v \<le> vuln_score u" by simp
    have rv: "0 \<le> vl_PublishedTime v" "vl_PublishedTime v < 10000000000"
      and ru: "0 \<le> vl_PublishedTime u" "vl_PublishedTime u < 10000000000"
        "0 \<le> fst (ParseInt (vl_Severity u))" "fst (ParseInt (vl_Severity u)) \<le> 5"
      using real u(1) v(1) by (simp_all add: list_all_iff)
    have "vl_Action u = VulnActionBlock"
      using score_range(1)[OF rv v(2)] score_range(2)[OF ru(1,2) _ ru(3,4)] le by linarith
    then show ?thesis using u(2) by simp
  qed
  moreover have "?v \<in> set (take hitMax ?s) \<or> ?v \<in> set (drop hitMax ?s)"
    using vl by (metis Un_iff append_take_drop_id set_append set_sort)
  ultimately show ?thesis using vl by (auto simp: F list_all_iff)
qed

definition sample_vulns :: "VulnInfoLess list" where
  "sample_vulns = [\<lparr>vl_Id = 1, vl_PublishedTime = 5, vl_Severity = [], vl_Cve = ''CVE-1'', vl_VulnNameEn = ''x'',
     vl_Action = VulnActionBlock, vl_Score = 0\<rparr>]"

theorem FileterVuln_keeps_exploitable_witness:
  "length (FileterVuln 3000 100 (\<lambda>_. sample_vulns) [1]) \<le> hitMax \<and>
   (hd sample_vulns)\<lparr>vl_Score := vuln_score (hd sample_vulns)\<rparr> \<in> set (FileterVuln 3000 100 (\<lambda>_. sample_vulns) [1])"
proof -
  have p: "fst (ParseInt []) = 0" by code_simp
  have c: "\<not> Contains ''x'' ''mac os''" by code_simp
  have "length (FileterVuln 3000 100 (\<lambda>_. sample_vulns) [1]) \<le> 1"
    by (simp add: FileterVuln_def sample_vulns_def hitMax_def)
  then show ?thesis
    using FileterVuln_keeps_exploitable[of "\<lambda>_. sample_vulns" "[1]" "hd sample_vulns" 3000 100] p c
    by (simp add: sample_vulns_def hitMax_def)
qed

section \<open>The updates of a host\<close>

lemma add_vuln_keys: "fst ` set (nv_infos (foldl (add_vuln now pkg) nv l)) = fst ` set (nv_infos nv) \<union> vl_Id ` set l"
  by (induction l arbitrary: nv) (auto simp: add_vuln_def)

lemma add_vuln_wf: "wf_gomap (nv_infos nv) \<Longrightarrow> wf_gomap (nv_infos (foldl (add_vuln now pkg) nv l))"
  by (rule foldl_invariant[where P = "\<lambda>nv. wf_gomap (nv_infos nv)"]) (auto simp: add_vuln_def)

lemma collect_vulns_wf:
  "collect_vulns env vc pkgs nv = Some (nv', vc') \<Longrightarrow> wf_gomap (nv_infos nv) \<Longrightarrow> wf_gomap (nv_infos nv')"
  by (induction env vc pkgs nv arbitrary: nv' vc' rule: collect_vulns.induct)
    (auto split: option.splits simp: add_vuln_wf)

definition write_id :: "vuln_write_op \<Rightarrow> int" where
  "write_id w = (case w of SetTime i a t \<Rightarrow> i | UpsertVuln i a v \<Rightarrow> i)"

lemma write_id_vuln_write [simp]: "write_id (vuln_write env a old ign p) = fst p"
  by (cases p) (auto simp: vuln_write_def write_id_def Let_def split: option.splits)

definition old_vulns :: "vuln_env \<Rightarrow> (int, AgentVulnInfo) gomap" where
  "old_vulns env = foldl (\<lambda>m v. mput m (vi_VulnId v) v) [] (ve_old env)"

text \<open>
  The updates of a host after a scan: one for each vulnerability found.  A vulnerability that is not
  new and was handled by the user keeps its status, reason and times apart from the time of the last update,
  which is set to zero; one that is still unprocessed keeps its creation time.
\<close>

theorem DealPkgList_writes:
  assumes run: "DealPkgList env vc (pkg # pkgs) = Some (writes, softs, vc')"
  shows "distinct (map write_id writes) \<and>
     list_all (\<lambda>w. case map_of (old_vulns env) (write_id w) of
         None \<Rightarrow> (\<exists>v. w = UpsertVuln (write_id w) (pk_AgentId pkg) v \<and> vi_CreateTime v = ve_now env \<and>
                   vi_Status v \<in> {VulnStatusUnProcessed, VulnStatusIgnored})
       | Some old \<Rightarrow>
           if vi_Status old = VulnStatusUnProcessed
           then (\<exists>v. w = UpsertVuln (write_id w) (pk_AgentId pkg) v \<and> vi_CreateTime v = vi_CreateTime old \<and>
                   vi_Status v = VulnStatusUnProcessed)
           else w = SetTime (write_id w) (pk_AgentId pkg) 0) writes"
proof -
  obtain nv where nv: "collect_vulns env vc (pkg # pkgs) \<lparr>nv_infos = [], nv_softs = []\<rparr> = Some (nv, vc')"
    using run unfolding DealPkgList_def by (auto split: option.splits prod.splits simp: Let_def)
  define ign where "ign = foldl (\<lambda>m (i, r). mput m i r) [] (ve_ignored env)"
  have w: "writes = map (vuln_write env (pk_AgentId pkg) (old_vulns env) ign) (nv_infos nv)"
    using run nv unfolding DealPkgList_def list.case by (simp add: old_vulns_def ign_def Let_def)
  have "wf_gomap (nv_infos nv)" using collect_vulns_wf[OF nv] by simp
  then have "distinct (map write_id writes)" by (simp add: w comp_def)
  moreover have key: "case map_of (old_vulns env) (write_id (vuln_write env a (old_vulns env) ign p)) of
         None \<Rightarrow> (\<exists>v. vuln_write env a (old_vulns env) ign p = UpsertVuln (fst p) a v \<and> vi_CreateTime v = ve_now env \<and>
                   vi_Status v \<in> {VulnStatusUnProcessed, VulnStatusIgnored})
       | Some old \<Rightarrow>
           if vi_Status old = VulnStatusUnProcessed
           then (\<exists>v. vuln_write env a (old_vulns env) ign p = UpsertVuln (fst p) a v \<and> vi_CreateTime v = vi_CreateTime old \<and>
                   vi_Status v = VulnStatusUnProcessed)
           else vuln_write env a (old_vulns env) ign p = SetTime (fst p) a 0" for a p
    unfolding write_id_vuln_write
    by (cases p) (auto simp: vuln_write_def Let_def zero_vuln_def split: option.splits)
  ultimately show ?thesis unfolding list_all_iff
  proof (intro conjI ballI)
    fix x assume "x \<in> set writes"
    then obtain p where x: "x = vuln_write env (pk_AgentId pkg) (old_vulns env) ign p" by (auto simp: w)
    show "case map_of (old_vulns env) (write_id x) of
         None \<Rightarrow> (\<exists>v. x = UpsertVuln (write_id x) (pk_AgentId pkg) v \<and> vi_CreateTime v = ve_now env \<and>
                   vi_Status v \<in> {VulnStatusUnProcessed, VulnStatusIgnored})
       | Some old \<Rightarrow>
           if vi_Status old = VulnStatusUnProcessed
           then (\<exists>v. x = UpsertVuln (write_id x) (pk_AgentId pkg) v \<and> vi_CreateTime v = vi_CreateTime old \<and>
                   vi_Status v = VulnStatusUnProcessed)
           else x = SetTime (write_id x) (pk_AgentId pkg) 0"
      unfolding x write_id_vuln_write using key[of "pk_AgentId pkg" p] unfolding write_id_vuln_write .
  qed
qed

definition sample_env :: vuln_env where
  "sample_env = \<lparr>ve_exact = \<lambda>_. [], ve_ranges = \<lambda>_. [], ve_infos = \<lambda>_. sample_vulns, ve_agentNum = 1, ve_recent3 = 0,
     ve_old = [zero_vuln\<lparr>vi_VulnId := 1, vi_Status := VulnStatusIgnored, vi_UpdateTime := 50\<rparr>], ve_ignored = [], ve_now = 99\<rparr>"

theorem DealPkgList_writes_witness:
  "\<exists>softs vc'. DealPkgList sample_env \<lparr>vc_Cpe = [], vc_Vuln = [(''a--1--'', sample_vulns)]\<rparr>
     [zero_pkg\<lparr>pk_AgentId := ''agent'', pk_Name := ''a'', pk_Version := ''1''\<rparr>] = Some ([SetTime 1 ''agent'' 0], softs, vc')"
proof -
  have st: "VulnStatusIgnored \<noteq> VulnStatusUnProcessed" by (simp add: VulnStatusIgnored_def VulnStatusUnProcessed_def)
  obtain softs vc' where run: "DealPkgList sample_env \<lparr>vc_Cpe = [], vc_Vuln = [(''a--1--'', sample_vulns)]\<rparr>
      [zero_pkg\<lparr>pk_AgentId := ''agent'', pk_Name := ''a'', pk_Version := ''1''\<rparr>] = Some ([SetTime 1 ''agent'' 0], softs, vc')"
    by (simp add: DealPkgList_def pkg_vulns_def sample_env_def sample_vulns_def zero_pkg_def add_vuln_def
        vuln_write_def zero_vuln_def st)
  then show ?thesis using DealPkgList_writes[OF run] by blast
qed

text \<open>
  Reports that crash the manager: an empty list of packages, which is also what a report that cannot be decoded
  becomes, and a Debian package whose source has an opening parenthesis without a later closing one.
\<close>

theorem malformed_packages_panic:
  "DealPkgList env vc [] = None \<and>
   (formatNameVersion pkg = None \<longleftrightarrow>
      pk_Type pkg = ''dpkg'' \<and> (\<exists>i. Index (pk_Source pkg) ''('' = Some i \<and>
        (case Index (pk_Source pkg) '')'' of None \<Rightarrow> True | Some j \<Rightarrow> j \<le> i)))"
proof -
  have "Index [] ''('' = None" by (simp add: Index_def)
  then have "dpkg_source src r = None \<longleftrightarrow>
      (\<exists>i. Index src ''('' = Some i \<and> (case Index src '')'' of None \<Rightarrow> True | Some j \<Rightarrow> j \<le> i))" for src r
    by (auto simp: dpkg_source_def split: option.splits)
  then show ?thesis by (simp add: DealPkgList_def formatNameVersion_def Let_def)
qed

end
