(* ===== verification/BaselineStore.thy ===== *)
theory BaselineStore
  imports GoStrings
begin

text \<open>
  Storing the baseline reports of the hosts, \<open>server/manager/internal/dbtask/leader_baseline.go\<close>.

  A report holds the checks of one baseline on one host.  What the database holds is an argument, what is
  written to it is the result; the cache of host information is a map that keeps what was added
  (its entries expire after an hour, which is not modelled).  The order in which Go visits a map is the order of
  the association list.
\<close>

record st_CheckInfo =
  ci_CheckId :: int
  ci_Type :: string
  ci_Title :: string
  ci_Description :: string
  ci_Solution :: string
  ci_Security :: string
  ci_TitleCn :: string
  ci_TypeCn :: string
  ci_DescriptionCn :: string
  ci_SolutionCn :: string
  ci_Result :: int
  ci_Msg :: string

record AgentBaseline =
  ab_AgentId :: string
  ab_BaselineId :: int
  ab_BaselineVersion :: string
  ab_CheckList :: "st_CheckInfo list"

record AgentCacheStruct =
  ac_Hostname :: string
  ac_Tags :: "string list"
  ac_ExtranetIpv4 :: "string list"
  ac_IntranetIpv4 :: "string list"

record AgentBaselineInfo =
  bi_AgentId :: string
  bi_BaselineId :: int
  bi_BaselineVersion :: string
  bi_CheckId :: int
  bi_Type :: string
  bi_CheckName :: string
  bi_Description :: string
  bi_Solution :: string
  bi_TypeCn :: string
  bi_CheckNameCn :: string
  bi_DescriptionCn :: string
  bi_SolutionCn :: string
  bi_CheckLevel :: string
  bi_Status :: string
  bi_CreateTime :: int
  bi_UpdateTime :: int
  bi_IfWhite :: bool
  bi_WhiteReason :: string
  bi_ErrReason :: string
  bi_TaskStatus :: string
  bi_Host :: AgentCacheStruct

record BaselineTaskStatus =
  bt_AgentId :: string
  bt_BaselineId :: int
  bt_LastCheckTime :: int
  bt_HighRiskNum :: int
  bt_MediumRiskNum :: int
  bt_LowRiskNum :: int
  bt_PassNum :: int
  bt_Status :: string
  bt_Msg :: string
  bt_Host :: AgentCacheStruct

definition BaselineStatusPassed :: string where "BaselineStatusPassed = ''passed''"
definition BaselineStatusFailed :: string where "BaselineStatusFailed = ''failed''"
definition BaselineStatusError :: string where "BaselineStatusError = ''error''"

lemmas baseline_status_defs = BaselineStatusPassed_def BaselineStatusFailed_def BaselineStatusError_def

section \<open>Host information\<close>

definition zero_host :: AgentCacheStruct where
  "zero_host = \<lparr>ac_Hostname = [], ac_Tags = [], ac_ExtranetIpv4 = [], ac_IntranetIpv4 = []\<rparr>"

text \<open>\<open>find\<close> is the answer of the database: the document of the agent, or an error.\<close>

definition AgentInfoSearch ::
  "(string \<Rightarrow> AgentCacheStruct option) \<Rightarrow> (string, AgentCacheStruct) gomap \<Rightarrow> string \<Rightarrow>
   AgentCacheStruct \<times> (string, AgentCacheStruct) gomap" where
  "AgentInfoSearch findOne cache agentId =
     (case map_of cache agentId of
        Some info \<Rightarrow> (info, cache)
      | None \<Rightarrow>
          (case findOne agentId of
             Some info \<Rightarrow> (info, cache)
           | None \<Rightarrow> (zero_host, mput cache agentId zero_host)))"

section \<open>A report\<close>

text \<open>
  The two fixed reasons are texts in Chinese, here by their UTF-8 bytes: the configuration file on the host is not well-formed so that
  no information can be had for the check, and reading the file failed.
\<close>

definition reason_malformed :: string where
  "reason_malformed =
    [CHR 0xE4, CHR 0xB8, CHR 0xBB, CHR 0xE6, CHR 0x9C, CHR 0xBA, CHR 0xE4, CHR 0xB8, CHR 0xAD, CHR 0xE7, CHR 0x9A, CHR 0x84,
     CHR 0xE9, CHR 0x85, CHR 0x8D, CHR 0xE7, CHR 0xBD, CHR 0xAE, CHR 0xE6, CHR 0x96, CHR 0x87, CHR 0xE4, CHR 0xBB, CHR 0xB6,
     CHR 0xE4, CHR 0xB8, CHR 0x8D, CHR 0xE8, CHR 0xA7, CHR 0x84, CHR 0xE8, CHR 0x8C, CHR 0x83, CHR 0xEF, CHR 0xBC, CHR 0x8C,
     CHR 0xE6, CHR 0x97, CHR 0xA0, CHR 0xE6, CHR 0xB3, CHR 0x95, CHR 0xE8, CHR 0x8E, CHR 0xB7, CHR 0xE5, CHR 0x8F, CHR 0x96,
     CHR 0xE6, CHR 0xA3, CHR 0x80, CHR 0xE6, CHR 0x9F, CHR 0xA5, CHR 0xE4, CHR 0xBF, CHR 0xA1, CHR 0xE6, CHR 0x81, CHR 0xAF]"

definition reason_unread :: string where
  "reason_unread =
    [CHR 0xE6, CHR 0x96, CHR 0x87, CHR 0xE4, CHR 0xBB, CHR 0xB6, CHR 0xE8, CHR 0xAF, CHR 0xBB, CHR 0xE5, CHR 0x8F, CHR 0x96,
     CHR 0xE5, CHR 0xA4, CHR 0xB1, CHR 0xE8, CHR 0xB4, CHR 0xA5]"

definition check_outcome :: "st_CheckInfo \<Rightarrow> string \<times> string" where
  "check_outcome c =
     (if ci_Result c = 1 then (BaselineStatusPassed, [])
      else if ci_Result c = 2 then (BaselineStatusFailed, ci_Msg c)
      else (BaselineStatusError,
            if ci_Result c = - 2 then reason_malformed
            else if ci_Result c = - 3 then reason_unread
            else ci_Msg c))"

definition baseline_info :: "AgentBaseline \<Rightarrow> AgentCacheStruct \<Rightarrow> st_CheckInfo \<Rightarrow> AgentBaselineInfo" where
  "baseline_info ab host c =
     \<lparr>bi_AgentId = ab_AgentId ab, bi_BaselineId = ab_BaselineId ab, bi_BaselineVersion = ab_BaselineVersion ab,
      bi_CheckId = ci_CheckId c, bi_Type = ci_Type c, bi_CheckName = ci_Title c, bi_Description = ci_Description c,
      bi_Solution = ci_Solution c, bi_TypeCn = ci_TypeCn c, bi_CheckNameCn = ci_TitleCn c,
      bi_DescriptionCn = ci_DescriptionCn c, bi_SolutionCn = ci_SolutionCn c, bi_CheckLevel = ci_Security c,
      bi_Status = fst (check_outcome c), bi_CreateTime = 0, bi_UpdateTime = 0, bi_IfWhite = False, bi_WhiteReason = [],
      bi_ErrReason = snd (check_outcome c), bi_TaskStatus = [], bi_Host = host\<rparr>"

fun new_infos ::
  "(string \<Rightarrow> AgentCacheStruct option) \<Rightarrow> AgentBaseline \<Rightarrow> (string, AgentCacheStruct) gomap \<Rightarrow> st_CheckInfo list \<Rightarrow>
   (int, AgentBaselineInfo) gomap \<Rightarrow> (int, AgentBaselineInfo) gomap \<times> (string, AgentCacheStruct) gomap" where
  "new_infos findOne ab cache [] m = (m, cache)"
| "new_infos findOne ab cache (c # cs) m =
     (let (host, cache') = AgentInfoSearch findOne cache (ab_AgentId ab)
      in new_infos findOne ab cache' cs (mput m (ci_CheckId c) (baseline_info ab host c)))"

fun merge_infos ::
  "int \<Rightarrow> (int \<times> AgentBaselineInfo) list \<Rightarrow> (int, AgentBaselineInfo) gomap \<Rightarrow>
   (int, AgentBaselineInfo) gomap \<times> (int \<times> AgentBaselineInfo) list" where
  "merge_infos now [] old = (old, [])"
| "merge_infos now ((checkId, info) # ps) old =
     (if (case map_of old checkId of Some o1 \<Rightarrow> bi_IfWhite o1 | None \<Rightarrow> False) then merge_infos now ps old
      else let info = (if map_of old checkId = None then info\<lparr>bi_CreateTime := now\<rparr> else info);
               info = info\<lparr>bi_UpdateTime := now, bi_TaskStatus := ''finished''\<rparr>;
               (old', writes) = merge_infos now ps (mput old checkId info)
           in (old', (checkId, info) # writes))"

definition count_infos :: "(AgentBaselineInfo \<Rightarrow> bool) \<Rightarrow> (int, AgentBaselineInfo) gomap \<Rightarrow> int" where
  "count_infos P m = int (length (filter (\<lambda>(i, v). \<not> bi_IfWhite v \<and> P v) m))"

definition DealBaselineList ::
  "(string \<Rightarrow> AgentCacheStruct option) \<Rightarrow> int \<Rightarrow> AgentBaselineInfo list \<Rightarrow> (string, AgentCacheStruct) gomap \<Rightarrow> AgentBaseline \<Rightarrow>
   (int \<times> AgentBaselineInfo) list \<times> BaselineTaskStatus \<times> (string, AgentCacheStruct) gomap" where
  "DealBaselineList findOne now stored cache ab =
     (let (new, cache) = new_infos findOne ab cache (ab_CheckList ab) [];
          old = foldl (\<lambda>m v. mput m (bi_CheckId v) v) [] stored;
          (old, writes) = merge_infos now new old;
          (host, cache) = AgentInfoSearch findOne cache (ab_AgentId ab);
          failed = (\<lambda>l v. bi_Status v = BaselineStatusFailed \<and> bi_CheckLevel v = l)
      in (writes,
          \<lparr>bt_AgentId = ab_AgentId ab, bt_BaselineId = ab_BaselineId ab, bt_LastCheckTime = now,
           bt_HighRiskNum = count_infos (failed ''high'') old, bt_MediumRiskNum = count_infos (failed ''mid'') old,
           bt_LowRiskNum = count_infos (failed ''low'') old,
           bt_PassNum = count_infos (\<lambda>v. bi_Status v = BaselineStatusPassed) old,
           bt_Status = ''finished'', bt_Msg = [], bt_Host = host\<rparr>,
          cache))"

section \<open>Properties\<close>

text \<open>
  The cache of host information keeps failures and nothing else: a host that was found is looked up again every time,
  while a host whose lookup failed once stays without a name, tags and addresses, even when the
  database has it by then.
\<close>

theorem AgentInfoSearch_caches_failures:
  assumes "map_of cache agent = None"
  shows "case AgentInfoSearch find1 cache agent of (info, cache') \<Rightarrow>
     (find1 agent \<noteq> None \<longrightarrow> cache' = cache) \<and>
     (find1 agent = None \<longrightarrow> fst (AgentInfoSearch find2 cache' agent) = zero_host)"
  using assms by (auto simp: AgentInfoSearch_def split: option.splits)

theorem AgentInfoSearch_caches_failures_witness:
  "fst (AgentInfoSearch (\<lambda>_. Some (zero_host\<lparr>ac_Hostname := ''h''\<rparr>)) (snd (AgentInfoSearch (\<lambda>_. None) [] ''a'')) ''a'') = zero_host"
  using AgentInfoSearch_caches_failures[of "[]" "''a''" "\<lambda>_. None" "\<lambda>_. Some (zero_host\<lparr>ac_Hostname := ''h''\<rparr>)"]
  by (simp add: case_prod_unfold)

lemma new_infos_wf:
  "wf_gomap m \<Longrightarrow> wf_gomap (fst (new_infos findOne ab cache cs m)) \<and>
     fst ` set (fst (new_infos findOne ab cache cs m)) = fst ` set m \<union> ci_CheckId ` set cs"
  by (induction findOne ab cache cs m rule: new_infos.induct) (auto split: prod.splits)

lemma new_infos_zero:
  "\<forall>(i, v) \<in> set m. bi_CreateTime v = 0 \<Longrightarrow> wf_gomap m \<Longrightarrow>
     \<forall>(i, v) \<in> set (fst (new_infos findOne ab cache cs m)). bi_CreateTime v = 0"
proof (induction findOne ab cache cs m rule: new_infos.induct)
  case (2 findOne ab cache c cs m)
  obtain host cache' where h: "AgentInfoSearch findOne cache (ab_AgentId ab) = (host, cache')" by fastforce
  have "set (mput m k v) \<subseteq> insert (k, v) (set m)" for k v by (induction m) auto
  then have "\<forall>(i, v) \<in> set (mput m (ci_CheckId c) (baseline_info ab host c)). bi_CreateTime v = 0"
    using 2(2) by (force simp: baseline_info_def)
  then show ?case using 2(1)[OF h[symmetric] refl] 2(3) h by simp
qed simp

lemma merge_infos_writes:
  assumes "wf_gomap new"
  shows "snd (merge_infos now new old) =
     map (\<lambda>(i, v). (i, v\<lparr>bi_CreateTime := (if map_of old i = None then now else bi_CreateTime v),
                       bi_UpdateTime := now, bi_TaskStatus := ''finished''\<rparr>))
       (filter (\<lambda>(i, v). \<not> (case map_of old i of Some o1 \<Rightarrow> bi_IfWhite o1 | None \<Rightarrow> False)) new)"
  using assms
proof (induction now new old rule: merge_infos.induct)
  case (2 now i info ps old)
  have other: "map_of (mput old i x) (fst p) = map_of old (fst p)" if "p \<in> set ps" for p x
    using 2(3) that by auto
  let ?f = "\<lambda>old (i, v). (i, v\<lparr>bi_CreateTime := (if map_of old i = None then now else bi_CreateTime v),
                       bi_UpdateTime := now, bi_TaskStatus := ''finished''\<rparr>)"
  let ?w = "\<lambda>old (i, v). \<not> (case map_of old i of Some o1 \<Rightarrow> bi_IfWhite o1 | None \<Rightarrow> False)"
  have cong: "map (?f (mput old i x)) (filter (?w (mput old i x)) ps) = map (?f old) (filter (?w old) ps)" for x
  proof -
    have "filter (?w (mput old i x)) ps = filter (?w old) ps"
      by (rule filter_cong[OF refl]) (simp only: case_prod_unfold other)
    moreover have "map (?f (mput old i x)) (filter (?w old) ps) = map (?f old) (filter (?w old) ps)"
    proof (rule map_cong[OF refl])
      fix p assume "p \<in> set (filter (?w old) ps)"
      then have "p \<in> set ps" by (simp only: set_filter mem_Collect_eq)
      then show "?f (mput old i x) p = ?f old p" by (simp only: case_prod_unfold other)
    qed
    ultimately show ?thesis by (simp only:)
  qed
  show ?case
  proof (cases "case map_of old i of Some o1 \<Rightarrow> bi_IfWhite o1 | None \<Rightarrow> False")
    case True
    then show ?thesis using 2(1,3) by simp
  next
    case False
    then show ?thesis using 2(2)[OF False refl refl] 2(3) cong
      by (cases "map_of old i") (simp_all add: Let_def case_prod_unfold)
  qed
qed simp

text \<open>
  C38. The updates of a report: one for each reported check, except those the user has put on the white list; the creation
  time is the present for a new entry, and zero for one that was stored before, whose creation time is thereby lost.
\<close>

theorem DealBaselineList_updates:
  "case DealBaselineList findOne now stored cache ab of (writes, st, cache') \<Rightarrow>
     (let old = map_of (foldl (\<lambda>m v. mput m (bi_CheckId v) v) [] stored) in
      distinct (map fst writes) \<and>
      set (map fst writes) = {i \<in> ci_CheckId ` set (ab_CheckList ab). \<not> (case old i of Some o1 \<Rightarrow> bi_IfWhite o1 | None \<Rightarrow> False)} \<and>
      list_all (\<lambda>(i, v). bi_CreateTime v = (if old i = None then now else 0) \<and> bi_UpdateTime v = now) writes)"
proof -
  define new where "new = fst (new_infos findOne ab cache (ab_CheckList ab) [])"
  define old where "old = foldl (\<lambda>m v. mput m (bi_CheckId v) v) [] stored"
  have wf: "wf_gomap new" "fst ` set new = ci_CheckId ` set (ab_CheckList ab)"
    using new_infos_wf[of "[]" findOne ab cache "ab_CheckList ab"] by (simp_all add: new_def)
  have zero: "\<forall>(i, v) \<in> set new. bi_CreateTime v = 0"
    using new_infos_zero[of "[]" findOne ab cache "ab_CheckList ab"] by (simp add: new_def)
  define writes where "writes = fst (DealBaselineList findOne now stored cache ab)"
  have w: "writes = map (\<lambda>(i, v). (i, v\<lparr>bi_CreateTime := (if map_of old i = None then now else bi_CreateTime v),
                       bi_UpdateTime := now, bi_TaskStatus := ''finished''\<rparr>))
       (filter (\<lambda>(i, v). \<not> (case map_of old i of Some o1 \<Rightarrow> bi_IfWhite o1 | None \<Rightarrow> False)) new)"
    using merge_infos_writes[OF wf(1), of now old]
    by (simp add: writes_def DealBaselineList_def new_def old_def Let_def case_prod_unfold)
  have ids: "map fst writes = map fst (filter (\<lambda>(i, v). \<not> (case map_of old i of Some o1 \<Rightarrow> bi_IfWhite o1 | None \<Rightarrow> False)) new)"
    by (simp add: w comp_def case_prod_unfold)
  have "distinct (map fst writes)" unfolding ids using wf(1) by (rule distinct_map_filter)
  moreover have "set (map fst writes) = {i \<in> ci_CheckId ` set (ab_CheckList ab).
      \<not> (case map_of old i of Some o1 \<Rightarrow> bi_IfWhite o1 | None \<Rightarrow> False)}"
    unfolding ids wf(2)[symmetric] by (force simp: case_prod_unfold)
  moreover have "list_all (\<lambda>(i, v). bi_CreateTime v = (if map_of old i = None then now else 0) \<and> bi_UpdateTime v = now) writes"
    using zero by (auto simp: w list_all_iff)
  ultimately show ?thesis by (simp add: writes_def old_def case_prod_unfold Let_def)
qed

end
