(* ===== verification/GoHost.thy ===== *)
theory GoHost
  imports GoStrings
begin

text \<open>
  What the host-side programs use of Go's \<open>path/filepath\<close>, \<open>net\<close>, \<open>encoding/binary\<close>, \<open>encoding/hex\<close>,
  \<open>bytes\<close> and \<open>bufio\<close> packages.  Bytes are characters.  Reading a number from bytes is proved inverse to
  writing it, splitting inverse to joining where no piece holds the separator.
\<close>

section \<open>Bytes and numbers\<close>

fun le_val :: "string \<Rightarrow> nat" where
  "le_val [] = 0"
| "le_val (c # cs) = of_char c + 256 * le_val cs"

fun le_bytes :: "nat \<Rightarrow> nat \<Rightarrow> string" where
  "le_bytes 0 n = []"
| "le_bytes (Suc k) n = char_of n # le_bytes k (n div 256)"

definition be_val :: "string \<Rightarrow> nat" where
  "be_val s = le_val (rev s)"

definition be_bytes :: "nat \<Rightarrow> nat \<Rightarrow> string" where
  "be_bytes k n = rev (le_bytes k n)"

lemma length_le_bytes [simp]: "length (le_bytes k n) = k"
  by (induction k arbitrary: n) auto

lemma length_be_bytes [simp]: "length (be_bytes k n) = k"
  by (simp add: be_bytes_def)

lemma le_val_bytes: "n < 256 ^ k \<Longrightarrow> le_val (le_bytes k n) = n"
proof (induction k arbitrary: n)
  case (Suc k)
  have "n div 256 < 256 ^ k" using Suc.prems by (simp add: less_mult_imp_div_less mult.commute)
  then have "le_val (le_bytes k (n div 256)) = n div 256" by (rule Suc.IH)
  moreover have "n mod 256 + 256 * (n div 256) = n" by simp
  ultimately show ?case by simp
qed simp

lemma be_val_bytes: "n < 256 ^ k \<Longrightarrow> be_val (be_bytes k n) = n"
  by (simp add: be_val_def be_bytes_def le_val_bytes)

lemma le_val_bound: "le_val s < 256 ^ length s"
proof (induction s)
  case (Cons c s)
  have "(of_char c :: nat) < 256" by (metis of_char_mod_256 mod_less_divisor zero_less_numeral)
  moreover have "256 * (le_val s + 1) \<le> 256 * 256 ^ length s" using Cons by (intro mult_le_mono2) simp
  then have "256 * le_val s + 256 \<le> 256 * 256 ^ length s" by simp
  ultimately have "of_char c + 256 * le_val s < 256 * 256 ^ length s" by linarith
  then show ?case by simp
qed simp

lemma be_val_bound: "be_val s < 256 ^ length s"
  using le_val_bound[of "rev s"] by (simp add: be_val_def)

text \<open>
  \<open>io.ReadFull\<close> at a position of a file or of a \<open>bytes.Reader\<close>: nothing left is \<open>io.EOF\<close>, too little
  \<open>io.ErrUnexpectedEOF\<close>.  \<open>binary.Read\<close> of a value of \<open>n\<close> bytes is such a read.
\<close>

datatype read_error = ReadEOF | ReadUnexpectedEOF

definition ReadFull_at :: "string \<Rightarrow> nat \<Rightarrow> nat \<Rightarrow> read_error + string" where
  "ReadFull_at f pos n =
     (if pos + n \<le> length f \<or> n = 0 then Inr (take n (drop pos f))
      else if length f \<le> pos then Inl ReadEOF else Inl ReadUnexpectedEOF)"

lemma ReadFull_at_length: "ReadFull_at f pos n = Inr d \<Longrightarrow> length d = n"
  by (auto simp: ReadFull_at_def split: if_splits)

lemma ReadFull_at_append [simp]: "length a = pos \<Longrightarrow> length d = n \<Longrightarrow> ReadFull_at (a @ d @ b) pos n = Inr d"
  by (simp add: ReadFull_at_def)

text \<open>A slice expression \<open>d[lo:hi]\<close>; the bounds are checked against the capacity of \<open>d\<close>.\<close>

definition go_slice :: "string \<Rightarrow> int \<Rightarrow> int \<Rightarrow> string option" where
  "go_slice d lo hi =
     (if 0 \<le> lo \<and> lo \<le> hi \<and> hi \<le> int (length d) then Some (take (nat hi - nat lo) (drop (nat lo) d)) else None)"

definition TrimRightByte :: "char \<Rightarrow> string \<Rightarrow> string" where
  "TrimRightByte c s = rev (dropWhile (\<lambda>x. x = c) (rev s))"

abbreviation NUL :: char where "NUL \<equiv> CHR 0x00"

lemma TrimRightByte_append: "s = [] \<or> last s \<noteq> c \<Longrightarrow> TrimRightByte c (s @ replicate n c) = s"
proof -
  assume a: "s = [] \<or> last s \<noteq> c"
  have "dropWhile (\<lambda>x. x = c) (replicate n c @ rev s) = dropWhile (\<lambda>x. x = c) (rev s)"
    by (rule dropWhile_append2) auto
  moreover have "dropWhile (\<lambda>x. x = c) (rev s) = rev s"
    using a by (cases "rev s") (auto simp: last_rev[symmetric])
  ultimately show ?thesis by (simp add: TrimRightByte_def)
qed

definition TrimPrefix :: "string \<Rightarrow> string \<Rightarrow> string" where
  "TrimPrefix s p = (if HasPrefix s p then drop (length p) s else s)"

definition TrimSuffix :: "string \<Rightarrow> string \<Rightarrow> string" where
  "TrimSuffix s p = (if HasSuffix s p then take (length s - length p) s else s)"

text \<open>\<open>strings.FieldsFunc\<close> with the test for one separator character.\<close>

definition FieldsBy :: "char \<Rightarrow> string \<Rightarrow> string list" where
  "FieldsBy c s = filter (\<lambda>x. x \<noteq> []) (Split s [c])"

section \<open>Splitting by one character\<close>

lemma Cut_char_None: "Cut s [c] = None \<longleftrightarrow> c \<notin> set s"
  by (induction s) (auto simp: HasPrefix_def)

lemma Cut_char_append: "c \<notin> set a \<Longrightarrow> Cut (a @ c # b) [c] = Some (a, b)"
  by (induction a) (auto simp: HasPrefix_def)

lemma Split_char_none: "c \<notin> set s \<Longrightarrow> Split s [c] = [s]"
  using Cut_char_None[of s c] by (subst Split.simps) simp

lemma Split_char_Cons: "c \<notin> set a \<Longrightarrow> Split (a @ c # b) [c] = a # Split b [c]"
  by (subst Split.simps) (simp add: Cut_char_append)

lemma Split_Join:
  assumes "ss \<noteq> []" "\<And>s. s \<in> set ss \<Longrightarrow> c \<notin> set s"
  shows "Split (Join ss [c]) [c] = ss"
  using assms
proof (induction ss)
  case (Cons s ss)
  show ?case
  proof (cases ss)
    case Nil
    then show ?thesis using Cons.prems by (simp add: Split_char_none)
  next
    case (Cons t ts)
    then show ?thesis using Cons.prems Cons.IH by (simp add: Split_char_Cons)
  qed
qed simp

lemma Split_terminated:
  assumes "\<And>s. s \<in> set ss \<Longrightarrow> c \<notin> set s"
  shows "Split (concat (map (\<lambda>s. s @ [c]) ss)) [c] = ss @ [[]]"
  using assms
proof (induction ss)
  case Nil
  then show ?case by (simp add: Split_char_none)
next
  case (Cons s ss)
  then show ?case using Split_char_Cons[of c s "concat (map (\<lambda>s. s @ [c]) ss)"] by simp
qed

section \<open>Paths\<close>

definition pb :: string where "pb = ''/''"

text \<open>The elements that \<open>filepath.Clean\<close> keeps: \<open>..\<close> removes the element before it.\<close>

fun clean_elems :: "bool \<Rightarrow> string list \<Rightarrow> string list \<Rightarrow> string list" where
  "clean_elems rooted out [] = rev out"
| "clean_elems rooted out (e # es) =
     (if e = [] \<or> e = ''.'' then clean_elems rooted out es
      else if e = ''..'' then
        (case out of
           [] \<Rightarrow> clean_elems rooted (if rooted then [] else [e]) es
         | o1 # os \<Rightarrow> if o1 = ''..'' then clean_elems rooted (e # out) es else clean_elems rooted os es)
      else clean_elems rooted (e # out) es)"

definition Clean :: "string \<Rightarrow> string" where
  "Clean p =
     (let rooted = HasPrefix p pb; body = Join (clean_elems rooted [] (Split p pb)) pb
      in if rooted then pb @ body else if body = [] then ''.'' else body)"

definition path_Join :: "string list \<Rightarrow> string" where
  "path_Join es = (let ne = dropWhile (\<lambda>e. e = []) es in if ne = [] then [] else Clean (Join ne pb))"

definition path_Base :: "string \<Rightarrow> string" where
  "path_Base p =
     (if p = [] then ''.''
      else let q = TrimRightByte (CHR ''/'') p in if q = [] then pb else last (Split q pb))"

definition path_Dir :: "string \<Rightarrow> string" where
  "path_Dir p = Clean (rev (dropWhile (\<lambda>c. c \<noteq> CHR ''/'') (rev p)))"

definition path_Ext :: "string \<Rightarrow> string" where
  "path_Ext p = (let b = last (Split p pb); d = takeWhile (\<lambda>c. c \<noteq> CHR ''.'') (rev b)
     in if CHR ''.'' \<in> set b then CHR ''.'' # rev d else [])"

section \<open>Lines\<close>

text \<open>
  The lines that a \<open>bufio.Scanner\<close> delivers: a final line without a line feed counts, an empty rest does
  not, and one carriage return before the line feed is dropped.  A line of 64 KiB or more stops the scanner.
\<close>

definition drop_cr :: "string \<Rightarrow> string" where
  "drop_cr s = (if s \<noteq> [] \<and> last s = CHR 0x0D then butlast s else s)"

definition scan_lines_raw :: "string \<Rightarrow> string list" where
  "scan_lines_raw s = (let ls = Split s [CHR 0x0A] in if last ls = [] then butlast ls else ls)"

definition ScanLines :: "string \<Rightarrow> string list" where
  "ScanLines s = map drop_cr (takeWhile (\<lambda>l. length l < 65536) (scan_lines_raw s))"

section \<open>Hexadecimal and addresses\<close>

definition hex_val :: "char \<Rightarrow> nat option" where
  "hex_val c = (let n = of_char c :: nat in
     if 48 \<le> n \<and> n \<le> 57 then Some (n - 48)
     else if 97 \<le> n \<and> n \<le> 102 then Some (n - 87)
     else if 65 \<le> n \<and> n \<le> 70 then Some (n - 55) else None)"

fun hex_DecodeString :: "string \<Rightarrow> string option" where
  "hex_DecodeString [] = Some []"
| "hex_DecodeString [c] = None"
| "hex_DecodeString (a # b # cs) =
     (case (hex_val a, hex_val b, hex_DecodeString cs) of
        (Some x, Some y, Some r) \<Rightarrow> Some (char_of (16 * x + y) # r)
      | _ \<Rightarrow> None)"

text \<open>\<open>strconv.ParseUint(s, 16, 64)\<close>, as a value or an error.\<close>

fun ParseHex_loop :: "nat \<Rightarrow> string \<Rightarrow> nat option" where
  "ParseHex_loop n [] = Some n"
| "ParseHex_loop n (c # cs) =
     (case hex_val c of
        None \<Rightarrow> None
      | Some d \<Rightarrow> if n * 16 + d < 2 ^ 64 then ParseHex_loop (n * 16 + d) cs else None)"

definition ParseHex :: "string \<Rightarrow> nat option" where
  "ParseHex s = (if s = [] then None else ParseHex_loop 0 s)"

definition hex_char :: "nat \<Rightarrow> char" where
  "hex_char d = (if d < 10 then char_of (48 + d) else char_of (87 + d))"

fun hex_digits :: "nat \<Rightarrow> string" where
  "hex_digits n = (if n < 16 then [hex_char n] else hex_digits (n div 16) @ [hex_char (n mod 16)])"

declare hex_digits.simps [simp del]

definition hex_bytes :: "string \<Rightarrow> string" where
  "hex_bytes s = concat (map (\<lambda>c. [hex_char (of_char c div 16), hex_char (of_char c mod 16)]) s)"

definition dotted :: "string \<Rightarrow> string" where
  "dotted b = Join (map (\<lambda>c. nat_digits (of_char c)) b) ''.''"

text \<open>The first longest run of at least two zero groups of an IPv6 address, as start and length.\<close>

fun zero_run :: "nat list \<Rightarrow> nat" where
  "zero_run (0 # gs) = Suc (zero_run gs)"
| "zero_run gs = 0"

definition best_run :: "nat list \<Rightarrow> nat \<times> nat" where
  "best_run gs =
     foldl (\<lambda>(i, n) k. let m = zero_run (drop k gs) in if m > n then (k, m) else (i, n)) (0, 0) [0..<length gs]"

fun groups16 :: "string \<Rightarrow> nat list" where
  "groups16 (a # b # r) = (256 * of_char a + of_char b) # groups16 r"
| "groups16 r = []"

definition ipv6_text :: "string \<Rightarrow> string" where
  "ipv6_text b =
     (let gs = groups16 b; (i, n) = best_run gs; f = (\<lambda>xs. Join (map hex_digits xs) '':'')
      in if n < 2 then f gs else f (take i gs) @ ''::'' @ f (drop (i + n) gs))"

definition IP_String :: "string \<Rightarrow> string" where
  "IP_String b =
     (if b = [] then ''<nil>''
      else if length b = 4 then dotted b
      else if length b = 16 then
        (if take 10 b = replicate 10 NUL \<and> take 2 (drop 10 b) = [CHR 0xFF, CHR 0xFF] then dotted (drop 12 b)
         else ipv6_text b)
      else CHR ''?'' # hex_bytes b)"

end
