(* ===== verification/CollectorEngine.thy ===== *)
theory CollectorEngine
  imports GoHost
begin

text \<open>
  The engine of the collector plugin (\<open>plugins/collector/engine/engine.go\<close>, \<open>main.go\<close>): the cache that the
  handlers share, the token that makes concurrent calls of one handler take turns, the schedule and the
  answers to tasks; and the container handler (\<open>container.go\<close>, \<open>container/container.go\<close>), which fills the cache the
  other handlers read.  The calls of one handler are a step relation; the answers of the container
  runtimes and the system are parameters.
\<close>

section \<open>Records and the cache\<close>

record col_record =
  cr_DataType :: int
  cr_Timestamp :: int
  cr_Fields :: "(string, string) gomap"

type_synonym eng_Records = "(string, (string, string) gomap) gomap"

definition Records_Find :: "eng_Records \<Rightarrow> string \<Rightarrow> string \<Rightarrow> string \<times> (string, string) gomap \<times> bool" where
  "Records_Find r key value =
     (case find (\<lambda>(k, v). (case map_of v key of None \<Rightarrow> [] | Some x \<Rightarrow> x) = value) r of
        None \<Rightarrow> ([], [], False)
      | Some (k, v) \<Rightarrow> (k, v, True))"

type_synonym eng_Cache = "(int, eng_Records) gomap"

definition NewCache :: eng_Cache where
  "NewCache = []"

definition Cache_Get :: "eng_Cache \<Rightarrow> int \<Rightarrow> string \<Rightarrow> (string, string) gomap \<times> bool" where
  "Cache_Get c dt key =
     (case map_of c dt of
        None \<Rightarrow> ([], False)
      | Some r \<Rightarrow> (case map_of r key of None \<Rightarrow> ([], False) | Some v \<Rightarrow> (v, True)))"

text \<open>Writing to the records of a data type that was never cleared writes to a nil map, which panics.\<close>

definition Cache_Put :: "eng_Cache \<Rightarrow> int \<Rightarrow> string \<Rightarrow> (string, string) gomap \<Rightarrow> eng_Cache option" where
  "Cache_Put c dt key v = (case map_of c dt of None \<Rightarrow> None | Some r \<Rightarrow> Some (mput c dt (mput r key v)))"

definition Cache_clear :: "eng_Cache \<Rightarrow> int \<Rightarrow> eng_Cache" where
  "Cache_clear c dt = mput c dt []"

text \<open>What the handlers rely on.\<close>

locale record_cache =
  fixes get :: "'c \<Rightarrow> int \<Rightarrow> string \<Rightarrow> (string, string) gomap \<times> bool"
    and put :: "'c \<Rightarrow> int \<Rightarrow> string \<Rightarrow> (string, string) gomap \<Rightarrow> 'c option"
    and clear :: "'c \<Rightarrow> int \<Rightarrow> 'c"
    and ready :: "'c \<Rightarrow> int \<Rightarrow> bool"
  assumes get_clear: "get (clear c dt) dt' k = (if dt = dt' then ([], False) else get c dt' k)"
    and ready_clear: "ready (clear c dt) dt' \<longleftrightarrow> dt = dt' \<or> ready c dt'"
    and put_ready: "put c dt k v = None \<longleftrightarrow> \<not> ready c dt"
    and get_put: "put c dt k v = Some c' \<Longrightarrow> get c' dt' k' = (if dt = dt' \<and> k = k' then (v, True) else get c dt' k')"
    and ready_put: "put c dt k v = Some c' \<Longrightarrow> ready c' dt' \<longleftrightarrow> ready c dt'"
begin

fun puts :: "'c \<Rightarrow> int \<Rightarrow> (string \<times> (string, string) gomap) list \<Rightarrow> 'c option" where
  "puts c dt [] = Some c"
| "puts c dt ((k, v) # kvs) = (case put c dt k v of None \<Rightarrow> None | Some c' \<Rightarrow> puts c' dt kvs)"

lemma puts_ready: "ready c dt \<Longrightarrow> \<exists>c'. puts c dt kvs = Some c'"
proof (induction kvs arbitrary: c)
  case (Cons p kvs)
  obtain k v where p: "p = (k, v)" by (cases p)
  obtain c1 where c1: "put c dt k v = Some c1" using Cons.prems put_ready[of c dt k v] by auto
  then have "ready c1 dt" using Cons.prems ready_put by blast
  then show ?case using Cons.IH c1 p by simp
qed simp

lemma get_puts:
  "puts c dt kvs = Some c' \<Longrightarrow> get c' dt' k =
     (if dt = dt' \<and> k \<in> fst ` set kvs then (the (map_of (rev kvs) k), True) else get c dt' k)"
proof (induction kvs arbitrary: c)
  case (Cons p kvs)
  obtain a v where p: "p = (a, v)" by (cases p)
  obtain c1 where c1: "put c dt a v = Some c1" using Cons.prems p by (auto split: option.splits)
  have "get c' dt' k = (if dt = dt' \<and> k \<in> fst ` set kvs then (the (map_of (rev kvs) k), True) else get c1 dt' k)"
    using Cons c1 p by simp
  note IH = this
  show ?case
  proof (cases "k \<in> fst ` set kvs")
    case True
    then obtain w where "map_of (rev kvs) k = Some w"
      by (metis domD dom_map_of_conv_image_fst set_rev)
    then show ?thesis using IH True get_put[OF c1, of dt' k] p by (simp add: map_add_def)
  next
    case False
    then have "map_of (rev kvs) k = None" by (simp add: map_of_eq_None_iff)
    then show ?thesis using IH False get_put[OF c1, of dt' k] p by (auto simp: map_add_def)
  qed
qed simp

text \<open>A handler that starts with cleared records can write them, and they are then exactly what it wrote.\<close>

lemma puts_after_clear:
  "\<exists>c'. puts (clear c dt) dt kvs = Some c' \<and>
     (\<forall>k. get c' dt k = (if k \<in> fst ` set kvs then (the (map_of (rev kvs) k), True) else ([], False)))"
proof -
  obtain c' where "puts (clear c dt) dt kvs = Some c'" using puts_ready[of "clear c dt" dt] ready_clear by blast
  then show ?thesis using get_puts[of "clear c dt" dt kvs c' dt] get_clear by auto
qed

end

definition Cache_ready :: "eng_Cache \<Rightarrow> int \<Rightarrow> bool" where
  "Cache_ready c dt \<longleftrightarrow> map_of c dt \<noteq> None"

interpretation cc: record_cache Cache_Get Cache_Put Cache_clear Cache_ready
  by unfold_locales (auto simp: Cache_Get_def Cache_Put_def Cache_clear_def Cache_ready_def split: option.splits if_splits)

section \<open>Taking turns\<close>

text \<open>
  The calls of \<open>handler.Handle\<close> for one handler.  A call that finds the token in the channel \<open>done\<close> clears the
  records and works; another one waits for the token.  Both hand it back.
\<close>

datatype hpc = HStart | HWork | HWait | HHold | HDone

record handler_state =
  hs_done :: nat
  hs_calls :: "hpc list"
  hs_runs :: nat

inductive handler_step :: "handler_state \<Rightarrow> handler_state \<Rightarrow> bool" where
  take: "i < length (hs_calls s) \<Longrightarrow> hs_calls s ! i = HStart \<Longrightarrow> hs_done s = Suc n \<Longrightarrow>
    handler_step s (s\<lparr>hs_done := n, hs_calls := (hs_calls s)[i := HWork]\<rparr>)"
| wait: "i < length (hs_calls s) \<Longrightarrow> hs_calls s ! i = HStart \<Longrightarrow> hs_done s = 0 \<Longrightarrow>
    handler_step s (s\<lparr>hs_calls := (hs_calls s)[i := HWait]\<rparr>)"
| work: "i < length (hs_calls s) \<Longrightarrow> hs_calls s ! i = HWork \<Longrightarrow>
    handler_step s (s\<lparr>hs_calls := (hs_calls s)[i := HHold], hs_runs := Suc (hs_runs s)\<rparr>)"
| wake: "i < length (hs_calls s) \<Longrightarrow> hs_calls s ! i = HWait \<Longrightarrow> hs_done s = Suc n \<Longrightarrow>
    handler_step s (s\<lparr>hs_done := n, hs_calls := (hs_calls s)[i := HHold]\<rparr>)"
| put: "i < length (hs_calls s) \<Longrightarrow> hs_calls s ! i = HHold \<Longrightarrow> hs_done s < 1 \<Longrightarrow>
    handler_step s (s\<lparr>hs_done := Suc (hs_done s), hs_calls := (hs_calls s)[i := HDone]\<rparr>)"
| call: "handler_step s (s\<lparr>hs_calls := hs_calls s @ [HStart]\<rparr>)"

inductive_cases handler_stepE: "handler_step s t"

text \<open>\<open>AddHandler\<close> puts the token into a new channel.\<close>

definition new_handler :: handler_state where
  "new_handler = \<lparr>hs_done = 1, hs_calls = [], hs_runs = 0\<rparr>"

abbreviation holds :: "hpc \<Rightarrow> bool" where
  "holds p \<equiv> p = HWork \<or> p = HHold"

definition holders :: "handler_state \<Rightarrow> nat" where
  "holders s = length (filter holds (hs_calls s))"

lemma length_filter_update:
  "i < length xs \<Longrightarrow> length (filter P (xs[i := x])) + (if P (xs ! i) then 1 else 0) =
     length (filter P xs) + (if P x then 1 else 0)"
proof (induction xs arbitrary: i)
  case (Cons y xs)
  then show ?case by (cases i) auto
qed simp

lemma handler_token:
  assumes "handler_step\<^sup>*\<^sup>* new_handler s"
  shows "hs_done s + holders s = 1"
  using assms
proof (induction rule: rtranclp_induct)
  case base
  then show ?case by (simp add: new_handler_def holders_def)
next
  case (step s t)
  have u: "i < length (hs_calls s) \<Longrightarrow> length (filter holds ((hs_calls s)[i := x])) + (if holds (hs_calls s ! i) then 1 else 0) =
      holders s + (if holds x then 1 else 0)" for i x
    using length_filter_update[of i "hs_calls s" holds x] by (simp add: holders_def)
  from step(2) show ?case
  proof cases
    case (take i n)
    then show ?thesis using u[of i HWork] step.IH by (simp add: holders_def)
  next
    case (wait i)
    then show ?thesis using u[of i HWait] step.IH by (simp add: holders_def)
  next
    case (work i)
    then show ?thesis using u[of i HHold] step.IH by (simp add: holders_def)
  next
    case (wake i n)
    then show ?thesis using u[of i HHold] step.IH by (simp add: holders_def)
  next
    case (put i)
    then show ?thesis using u[of i HDone] step.IH by (simp add: holders_def)
  next
    case call
    then show ?thesis using step.IH by (simp add: holders_def)
  qed
qed

lemma holders_unique:
  assumes "holders s \<le> 1" "i < length (hs_calls s)" "holds (hs_calls s ! i)" "j < length (hs_calls s)" "holds (hs_calls s ! j)"
  shows "i = j"
proof (rule ccontr)
  assume n: "i \<noteq> j"
  have "{i, j} \<subseteq> {k. k < length (hs_calls s) \<and> holds (hs_calls s ! k)}" using assms by auto
  then have "card {i, j} \<le> holders s"
    unfolding holders_def length_filter_conv_card by (intro card_mono) auto
  with n assms(1) show False by simp
qed

lemma holder_no_token: "hs_done s + holders s = 1 \<Longrightarrow> i < length (hs_calls s) \<Longrightarrow> holds (hs_calls s ! i) \<Longrightarrow> hs_done s = 0"
proof -
  assume a: "hs_done s + holders s = 1" "i < length (hs_calls s)" "holds (hs_calls s ! i)"
  have "\<exists>x \<in> set (hs_calls s). holds x" using a(2,3) nth_mem by blast
  then have "filter holds (hs_calls s) \<noteq> []" by (simp add: filter_empty_conv)
  then show ?thesis using a(1) unfolding holders_def by (cases "filter holds (hs_calls s)") (auto simp del: filter_eq_Cons_iff)
qed

text \<open>
  However calls of one handler overlap, at most one of them collects at any time, and handing back the token never
  blocks: a call that has it finds room for it in the channel.
\<close>

theorem handler_exclusive:
  assumes "handler_step\<^sup>*\<^sup>* new_handler s" "i < length (hs_calls s)" "holds (hs_calls s ! i)"
  shows "hs_done s = 0 \<and> (\<forall>j. j < length (hs_calls s) \<and> holds (hs_calls s ! j) \<longrightarrow> j = i)"
  using handler_token[OF assms(1)] assms(2,3) holder_no_token[of s i] holders_unique[of s] by auto

theorem handler_exclusive_witness:
  "\<exists>s. handler_step\<^sup>*\<^sup>* new_handler s \<and> hs_calls s = [HWork] \<and> hs_done s = 0"
proof -
  let ?a = "new_handler\<lparr>hs_calls := hs_calls new_handler @ [HStart]\<rparr>"
  let ?b = "?a\<lparr>hs_done := 0, hs_calls := (hs_calls ?a)[0 := HWork]\<rparr>"
  have "handler_step new_handler ?a" by (rule handler_step.call)
  moreover have "handler_step ?a ?b" by (rule handler_step.take) (simp_all add: new_handler_def)
  ultimately have r: "handler_step\<^sup>*\<^sup>* new_handler ?b" by auto
  have "hs_done ?b = 0 \<and> (\<forall>j. j < length (hs_calls ?b) \<and> holds (hs_calls ?b ! j) \<longrightarrow> j = 0)"
    by (rule handler_exclusive[OF r]) (simp_all add: new_handler_def)
  then show ?thesis using r by (intro exI[of _ ?b]) (simp add: new_handler_def)
qed

text \<open>The steps that a call still has to take.\<close>

fun rank :: "hpc \<Rightarrow> nat" where
  "rank HStart = 3"
| "rank HWork = 2"
| "rank HWait = 2"
| "rank HHold = 1"
| "rank HDone = 0"

definition todo :: "handler_state \<Rightarrow> nat" where
  "todo s = sum_list (map rank (hs_calls s))"

lemma sum_list_update_less:
  "i < length xs \<Longrightarrow> rank x < rank (xs ! i) \<Longrightarrow> sum_list (map rank (xs[i := x])) < sum_list (map rank xs)"
proof (induction xs arbitrary: i)
  case (Cons y xs)
  then show ?case by (cases i) auto
qed simp

lemma handler_step_todo: "handler_step s t \<Longrightarrow> todo t < todo s \<or> hs_calls t = hs_calls s @ [HStart]"
  by (cases rule: handler_step.cases) (auto simp: todo_def intro!: sum_list_update_less)

text \<open>
  C18. No call waits for ever, as long as the work of the handler that is called returns: in every reachable state in which a call has not returned, some call can take its next step, and
  every step but the arrival of a new call brings the calls closer to their end.
\<close>

theorem handler_calls_return:
  assumes r: "handler_step\<^sup>*\<^sup>* new_handler s" and p: "i < length (hs_calls s)" "hs_calls s ! i \<noteq> HDone"
  shows "(\<exists>t. handler_step s t \<and> todo t < todo s) \<and>
    (\<forall>t. handler_step s t \<longrightarrow> todo t < todo s \<or> hs_calls t = hs_calls s @ [HStart])"
proof
  have adv: "\<exists>t. handler_step s t \<and> todo t < todo s" if "handler_step s t" "hs_calls t \<noteq> hs_calls s @ [HStart]" for t
    using that handler_step_todo by blast
  show "\<exists>t. handler_step s t \<and> todo t < todo s"
  proof (cases "\<exists>j < length (hs_calls s). holds (hs_calls s ! j)")
    case True
    then obtain j where j: "j < length (hs_calls s)" "holds (hs_calls s ! j)" by blast
    have z: "hs_done s < 1" using holder_no_token[OF handler_token[OF r] j] by simp
    show ?thesis
    proof (cases "hs_calls s ! j = HWork")
      case True
      then show ?thesis using handler_step.work[OF j(1)] by (intro adv) (auto dest: arg_cong[where f = length])
    next
      case False
      then show ?thesis using handler_step.put[OF j(1) _ z] j by (intro adv) (auto dest: arg_cong[where f = length])
    qed
  next
    case False
    then have "holders s = 0" by (auto simp: holders_def filter_empty_conv in_set_conv_nth)
    then have d: "hs_done s = Suc 0" using handler_token[OF r] by simp
    have "hs_calls s ! i = HStart \<or> hs_calls s ! i = HWait" using False p by (cases "hs_calls s ! i") auto
    then show ?thesis
      using handler_step.take[OF p(1) _ d] handler_step.wake[OF p(1) _ d]
      by (elim disjE) (rule adv, assumption?, auto dest: arg_cong[where f = length])+
  qed
qed (auto dest: handler_step_todo)

theorem handler_calls_return_witness:
  "\<exists>t. handler_step (new_handler\<lparr>hs_calls := [HStart]\<rparr>) t \<and> todo t < todo (new_handler\<lparr>hs_calls := [HStart]\<rparr>)"
proof -
  have "handler_step new_handler (new_handler\<lparr>hs_calls := hs_calls new_handler @ [HStart]\<rparr>)" by (rule handler_step.call)
  then have "handler_step\<^sup>*\<^sup>* new_handler (new_handler\<lparr>hs_calls := [HStart]\<rparr>)" by (simp add: new_handler_def r_into_rtranclp)
  from handler_calls_return[OF this, of 0] show ?thesis by simp
qed

text \<open>As long as no run has ended, a call that started next to a working call, or while no other call was under way, has not returned.\<close>

definition served_inv :: "nat \<Rightarrow> nat \<Rightarrow> handler_state \<Rightarrow> bool" where
  "served_inv n i s \<longleftrightarrow> n < hs_runs s \<or>
     (n = hs_runs s \<and> i < length (hs_calls s) \<and> hs_calls s ! i \<noteq> HDone \<and>
      ((\<exists>j < length (hs_calls s). hs_calls s ! j = HWork) \<or> set (hs_calls s) \<subseteq> {HStart, HDone}))"

lemma served_inv_step:
  assumes st: "handler_step s t" and tok: "hs_done s + holders s = 1" and inv: "served_inv n i s"
  shows "served_inv n i t"
proof (cases "n < hs_runs s")
  case True
  with st show ?thesis by (cases rule: handler_step.cases) (auto simp: served_inv_def)
next
  case False
  then have i: "n = hs_runs s" "i < length (hs_calls s)" "hs_calls s ! i \<noteq> HDone"
    and w: "(\<exists>j < length (hs_calls s). hs_calls s ! j = HWork) \<or> set (hs_calls s) \<subseteq> {HStart, HDone}"
    using inv by (auto simp: served_inv_def)
  from w show ?thesis
  proof
    assume "\<exists>j < length (hs_calls s). hs_calls s ! j = HWork"
    then obtain j where j: "j < length (hs_calls s)" "hs_calls s ! j = HWork" by blast
    have z: "hs_done s = 0" using holder_no_token[OF tok j(1)] j by simp
    have one: "k = j" if "k < length (hs_calls s)" "holds (hs_calls s ! k)" for k
      using holders_unique[of s k j] that j tok by simp
    show ?thesis using st
    proof (cases rule: handler_step.cases)
      case (wait k)
      then have "k \<noteq> j" using j by auto
      then show ?thesis using wait i j by (auto simp: served_inv_def nth_list_update intro!: exI[of _ j])
    next
      case (work k)
      then show ?thesis using i by (simp add: served_inv_def)
    next
      case (put k)
      then show ?thesis using one[of k] j by simp
    next
      case call
      then show ?thesis using i j by (auto simp: served_inv_def nth_append intro!: exI[of _ j])
    qed (use z in simp_all)
  next
    assume a: "set (hs_calls s) \<subseteq> {HStart, HDone}"
    then have a': "hs_calls s ! k \<in> {HStart, HDone}" if "k < length (hs_calls s)" for k using that nth_mem by blast
    have "filter holds (hs_calls s) = []" using a by (auto simp: filter_empty_conv)
    then have d: "hs_done s = 1" using tok by (simp add: holders_def)
    show ?thesis using st
    proof (cases rule: handler_step.cases)
      case (take k m)
      then show ?thesis using i by (auto simp: served_inv_def nth_list_update intro!: exI[of _ k])
    next
      case (work k)
      then show ?thesis using a'[of k] by simp
    next
      case (wake k m)
      then show ?thesis using a'[of k] by simp
    next
      case (put k)
      then show ?thesis using a'[of k] by simp
    next
      case call
      then show ?thesis using i a by (auto simp: served_inv_def nth_append)
    qed (use d in simp)
  qed
qed

text \<open>
  C17. A call is answered by a run that ends after the call began, if at that moment another call is collecting, or none
  of the earlier calls is still under way: the call itself collects, or it waits for a run to end.
\<close>

theorem handler_call_served:
  assumes r: "handler_step\<^sup>*\<^sup>* new_handler s" and new: "i < length (hs_calls s)" "hs_calls s ! i = HStart"
    and ok: "HWork \<in> set (hs_calls s) \<or> set (hs_calls s) \<subseteq> {HStart, HDone}"
    and run: "handler_step\<^sup>*\<^sup>* s t" and ret: "hs_calls t ! i = HDone"
  shows "hs_runs s < hs_runs t"
proof -
  have "served_inv (hs_runs s) i s" using new ok by (auto simp: served_inv_def in_set_conv_nth)
  with run have "served_inv (hs_runs s) i t \<and> handler_step\<^sup>*\<^sup>* new_handler t"
    by (induction rule: rtranclp_induct)
      (auto simp: r intro: served_inv_step handler_token rtranclp.rtrancl_into_rtrancl)
  then show ?thesis using ret by (simp add: served_inv_def)
qed

theorem handler_call_served_witness:
  "\<exists>t. handler_step\<^sup>*\<^sup>* (new_handler\<lparr>hs_calls := [HStart]\<rparr>) t \<and> hs_calls t ! 0 = HDone \<and> hs_runs (new_handler\<lparr>hs_calls := [HStart]\<rparr>) < hs_runs t"
proof -
  let ?s = "new_handler\<lparr>hs_calls := [HStart]\<rparr>" and ?a = "\<lparr>hs_done = 0, hs_calls = [HWork], hs_runs = 0\<rparr>"
    and ?b = "\<lparr>hs_done = 0, hs_calls = [HHold], hs_runs = 1\<rparr>" and ?t = "\<lparr>hs_done = 1, hs_calls = [HDone], hs_runs = 1\<rparr>"
  have "handler_step new_handler ?s" using handler_step.call[of new_handler] by (simp add: new_handler_def)
  then have r: "handler_step\<^sup>*\<^sup>* new_handler ?s" by (rule r_into_rtranclp)
  have "handler_step ?s ?a" using handler_step.take[of 0 ?s 0] by (simp add: new_handler_def)
  moreover have "handler_step ?a ?b" using handler_step.work[of 0 ?a] by simp
  moreover have "handler_step ?b ?t" using handler_step.put[of 0 ?b] by simp
  ultimately have q: "handler_step\<^sup>*\<^sup>* ?s ?t" by (metis (no_types) r_into_rtranclp rtranclp_trans)
  have "hs_runs ?s < hs_runs ?t" by (rule handler_call_served[OF r _ _ _ q, of 0]) simp_all
  with q show ?thesis by (intro exI[of _ ?t]) simp
qed

text \<open>
  Otherwise it may not be: a call that arrives while an earlier one, which has only waited, hands back the token waits too and
  returns although nothing was collected since it began.  A task is then answered with success.
\<close>

theorem late_call_skips_work:
  "\<exists>s t. handler_step\<^sup>*\<^sup>* new_handler s \<and> hs_calls s ! 2 = HStart \<and> length (hs_calls s) = 3 \<and>
     handler_step\<^sup>*\<^sup>* s t \<and> hs_calls t ! 2 = HDone \<and> hs_runs t = hs_runs s"
proof -
  define st where "st d c r = \<lparr>hs_done = d, hs_calls = c, hs_runs = r\<rparr>" for d c r
  note hs = st_def nth_Cons'
  have a: "handler_step (st 1 [] 0) (st 1 [HStart] 0)" "handler_step (st 1 [HStart] 0) (st 1 [HStart, HStart] 0)"
    "handler_step (st 0 [HDone, HHold] 1) (st 0 [HDone, HHold, HStart] 1)"
    using handler_step.call[of "st 1 [] 0"] handler_step.call[of "st 1 [HStart] 0"] handler_step.call[of "st 0 [HDone, HHold] 1"]
    by (simp_all add: hs)
  have b: "handler_step (st 1 [HStart, HStart] 0) (st 0 [HWork, HStart] 0)"
    using handler_step.take[of 0 "st 1 [HStart, HStart] 0" 0] by (simp add: hs)
  have c: "handler_step (st 0 [HWork, HStart] 0) (st 0 [HWork, HWait] 0)"
    using handler_step.wait[of 1 "st 0 [HWork, HStart] 0"] by (simp add: hs)
  have d: "handler_step (st 0 [HWork, HWait] 0) (st 0 [HHold, HWait] 1)"
    using handler_step.work[of 0 "st 0 [HWork, HWait] 0"] by (simp add: hs)
  have e: "handler_step (st 0 [HHold, HWait] 1) (st 1 [HDone, HWait] 1)"
    using handler_step.put[of 0 "st 0 [HHold, HWait] 1"] by (simp add: hs)
  have f: "handler_step (st 1 [HDone, HWait] 1) (st 0 [HDone, HHold] 1)"
    using handler_step.wake[of 1 "st 1 [HDone, HWait] 1" 0] by (simp add: hs)
  have g: "handler_step (st 0 [HDone, HHold, HStart] 1) (st 0 [HDone, HHold, HWait] 1)"
    using handler_step.wait[of 2 "st 0 [HDone, HHold, HStart] 1"] by (simp add: hs numeral_2_eq_2)
  have h: "handler_step (st 0 [HDone, HHold, HWait] 1) (st 1 [HDone, HDone, HWait] 1)"
    using handler_step.put[of 1 "st 0 [HDone, HHold, HWait] 1"] by (simp add: hs)
  have i: "handler_step (st 1 [HDone, HDone, HWait] 1) (st 0 [HDone, HDone, HHold] 1)"
    using handler_step.wake[of 2 "st 1 [HDone, HDone, HWait] 1" 0] by (simp add: hs numeral_2_eq_2)
  have j: "handler_step (st 0 [HDone, HDone, HHold] 1) (st 1 [HDone, HDone, HDone] 1)"
    using handler_step.put[of 2 "st 0 [HDone, HDone, HHold] 1"] by (simp add: hs numeral_2_eq_2)
  have r: "handler_step\<^sup>*\<^sup>* (st 1 [] 0) (st 0 [HDone, HHold, HStart] 1)"
    by (rule rtranclp.rtrancl_refl | rule converse_rtranclp_into_rtranclp, rule a b c d e f)+
  have q: "handler_step\<^sup>*\<^sup>* (st 0 [HDone, HHold, HStart] 1) (st 1 [HDone, HDone, HDone] 1)"
    by (rule rtranclp.rtrancl_refl | rule converse_rtranclp_into_rtranclp, rule g h i j)+
  have "new_handler = st 1 [] 0" by (simp add: new_handler_def st_def)
  then show ?thesis using r q
    by (intro exI[of _ "st 0 [HDone, HHold, HStart] 1"] exI[of _ "st 1 [HDone, HDone, HDone] 1"]) (simp add: hs)
qed

section \<open>The schedule and the tasks\<close>

definition BeforeDawn :: int where
  "BeforeDawn = -1"

definition eng_AddHandler :: "(int, int \<times> handler_state) gomap \<Rightarrow> int \<Rightarrow> int \<Rightarrow> (int, int \<times> handler_state) gomap" where
  "eng_AddHandler m interval dt = mput m dt (interval, new_handler)"

abbreviation minute :: int where "minute \<equiv> 60000000000"

text \<open>The handlers that \<open>main\<close> registers, by interval and data type.\<close>

definition main_handlers :: "(int \<times> int) list" where
  "main_handlers = [(20 * minute, 5050), (60 * minute, 5051), (60 * minute, 5052), (360 * minute, 5053), (360 * minute, 5054),
     (60 * minute, 5055), (5 * minute, 5056), (BeforeDawn, 5057), (360 * minute, 5059), (360 * minute, 5058), (60 * minute, 5062),
     (BeforeDawn, 5060)]"

definition main_engine :: "(int, int \<times> handler_state) gomap" where
  "main_engine = foldl (\<lambda>m (iv, dt). eng_AddHandler m iv dt) [] main_handlers"

text \<open>
  The goroutine that \<open>Run\<close> starts for a handler: its schedule, the seconds before the first call and the minutes
  after it; an unknown interval panics.  \<open>rnd k n\<close> is the result of the \<open>k\<close>-th call \<open>rand.Intn(n)\<close>.
\<close>

definition handler_schedule :: "(nat \<Rightarrow> int \<Rightarrow> int) \<Rightarrow> int \<Rightarrow> (string \<times> int \<times> int) option" where
  "handler_schedule rnd interval =
     (let minutes = (if interval < 0 then - (- interval div minute) else interval div minute)
      in if interval = BeforeDawn
         then Some (Itoa (rnd 0 60) @ '' '' @ Itoa (rnd 1 6) @ '' * * *'', rnd 2 14400 + 7200, minutes)
         else if 0 < minutes then Some (''@every '' @ Itoa minutes @ ''m'', rnd 0 (minutes * 60), minutes)
         else None)"

text \<open>The answer to a task, after the handler of its data type, if there is one, was called.\<close>

definition task_result :: "(int, int \<times> handler_state) gomap \<Rightarrow> int \<Rightarrow> int \<Rightarrow> string \<Rightarrow> col_record" where
  "task_result m now dt token =
     \<lparr>cr_DataType = 5100, cr_Timestamp = now,
      cr_Fields = (if map_of m dt \<noteq> None then [(''status'', ''succeed''), (''msg'', []), (''token'', token)]
        else [(''status'', ''failed''), (''msg'', ''the data_type hasn''@[CHR 0x27]@''t been implemented''), (''token'', token)])\<rparr>"

text \<open>
  No handler of the collector has an interval that stops the engine: each of the twelve is scheduled, its first call
  comes within its interval (between two and six hours after the start for those that run before dawn), and exactly
  their data types are accepted in tasks.
\<close>

theorem main_schedules:
  assumes rnd: "\<And>k n. 0 < n \<Longrightarrow> 0 \<le> rnd k n \<and> rnd k n < n"
  shows "(\<forall>dt iv h. map_of main_engine dt = Some (iv, h) \<longrightarrow>
      (\<exists>spec r ms. handler_schedule rnd iv = Some (spec, r, ms) \<and> 0 \<le> ms \<and>
         (if iv = BeforeDawn then 7200 \<le> r \<and> r < 21600 else 0 \<le> r \<and> r * 1000000000 < iv))) \<and>
    (map_of main_engine dt \<noteq> None \<longleftrightarrow> dt \<in> snd ` set main_handlers) \<and>
    map_of (cr_Fields (task_result main_engine now dt token)) ''status'' =
      Some (if dt \<in> snd ` set main_handlers then ''succeed'' else ''failed'')"
proof -
  have ms: "\<exists>spec r ms. handler_schedule rnd iv = Some (spec, r, ms) \<and> 0 \<le> ms \<and>
         (if iv = BeforeDawn then 7200 \<le> r \<and> r < 21600 else 0 \<le> r \<and> r * 1000000000 < iv)" if "iv \<in> fst ` set main_handlers" for iv
    using that rnd[of 14400 2] rnd[of 1200 0] rnd[of 3600 0] rnd[of 21600 0] rnd[of 300 0]
    by (auto simp: main_handlers_def handler_schedule_def BeforeDawn_def)
  have e: "main_engine = map (\<lambda>(iv, dt). (dt, iv, new_handler)) main_handlers"
    by (simp add: main_engine_def main_handlers_def eng_AddHandler_def BeforeDawn_def)
  have "iv \<in> fst ` set main_handlers" if "map_of main_engine d = Some (iv, h)" for d iv h
    using map_of_SomeD[OF that] by (force simp: e)
  moreover have dom: "map_of main_engine dt \<noteq> None \<longleftrightarrow> dt \<in> snd ` set main_handlers"
    by (force simp: e map_of_eq_None_iff)
  ultimately show ?thesis using ms by (auto simp: task_result_def)
qed

theorem main_schedules_witness:
  "map_of main_engine 5056 \<noteq> None \<and> map_of (cr_Fields (task_result main_engine 0 5056 ''t'')) ''status'' = Some ''succeed''"
  using main_schedules[of "\<lambda>k n. 0" 5056 0 "''t''"] by (simp add: main_handlers_def)

section \<open>Containers\<close>

record col_Container =
  ct_ID :: string
  ct_Name :: string
  ct_ImageID :: string
  ct_ImageName :: string
  ct_State :: string
  ct_Pid :: string
  ct_Pns :: string
  ct_Runtime :: string
  ct_CreateTime :: string

definition StateName :: "int \<Rightarrow> string" where
  "StateName n = (case map_of [(0, ''created''), (1, ''running''), (2, ''exited''), (3, ''unknown'')] n of None \<Rightarrow> [] | Some s \<Rightarrow> s)"

text \<open>
  What the container runtimes answer: of a CRI container its identifier, name, image reference, image, state
  and creation time, and the status call's \<open>info\<close> text and image; of a Docker container the listed fields and the
  inspected name and process.  \<open>pid_of\<close> decodes the JSON of the info text, \<open>pns_of\<close> reads the process
  namespace of a process (empty where it cannot be read).
\<close>

record cri_container =
  cri_Id :: string
  cri_Name :: string
  cri_ImageRef :: string
  cri_Image :: string
  cri_State :: int
  cri_CreatedAt :: int

record docker_container =
  dk_ID :: string
  dk_ImageID :: string
  dk_Image :: string
  dk_State :: string
  dk_Created :: int
  dk_Names :: "string list"

abbreviation sha_prefix :: string where "sha_prefix \<equiv> ''sha256:''"

definition with_pid :: "(string \<Rightarrow> string) \<Rightarrow> int \<Rightarrow> col_Container \<Rightarrow> col_Container" where
  "with_pid pns_of pid c = c\<lparr>ct_Pid := Itoa pid, ct_Pns := (if 0 < pid then pns_of (Itoa pid) else ct_Pns c)\<rparr>"

definition cri_ListContainers ::
  "(string \<Rightarrow> (string option \<times> string) option) \<Rightarrow> (string \<Rightarrow> int option) \<Rightarrow> (string \<Rightarrow> string) \<Rightarrow> string + cri_container list \<Rightarrow> string + col_Container list" where
  "cri_ListContainers status pid_of pns_of resp =
     (case resp of
        Inl e \<Rightarrow> Inl e
      | Inr cs \<Rightarrow> Inr (map (\<lambda>cc.
          let c = \<lparr>ct_ID = cri_Id cc, ct_Name = cri_Name cc, ct_ImageID = TrimPrefix (cri_ImageRef cc) sha_prefix,
                ct_ImageName = TrimPrefix (cri_Image cc) sha_prefix, ct_State = StateName (cri_State cc), ct_Pid = [], ct_Pns = [],
                ct_Runtime = ''cri'', ct_CreateTime = Itoa (sgn (cri_CreatedAt cc) * (\<bar>cri_CreatedAt cc\<bar> div 1000000000))\<rparr>
          in if ct_State c = StateName 1 then
               (case status (cri_Id cc) of
                  None \<Rightarrow> c
                | Some (info, img) \<Rightarrow>
                    let c' = (case info of None \<Rightarrow> c
                      | Some i \<Rightarrow> (case pid_of i of None \<Rightarrow> c | Some pid \<Rightarrow> with_pid pns_of pid c))
                    in if img \<noteq> [] then c'\<lparr>ct_ImageName := TrimPrefix img sha_prefix\<rparr> else c')
             else c) cs))"

definition docker_ListContainers ::
  "(string \<Rightarrow> (string \<times> int) option) \<Rightarrow> (string \<Rightarrow> string) \<Rightarrow> string + docker_container list \<Rightarrow> string + col_Container list" where
  "docker_ListContainers inspect pns_of resp =
     (case resp of
        Inl e \<Rightarrow> Inl e
      | Inr cs \<Rightarrow> Inr (map (\<lambda>dc.
          let c = \<lparr>ct_ID = dk_ID dc, ct_Name = [], ct_ImageID = TrimPrefix (dk_ImageID dc) sha_prefix,
                ct_ImageName = TrimPrefix (dk_Image dc) sha_prefix, ct_State = dk_State dc, ct_Pid = [], ct_Pns = [],
                ct_Runtime = ''docker'', ct_CreateTime = Itoa (dk_Created dc)\<rparr>;
              c1 = (case inspect (dk_ID dc) of
                      None \<Rightarrow> c
                    | Some (name, pid) \<Rightarrow>
                        let c' = c\<lparr>ct_Name := TrimPrefix name ''/''\<rparr>
                        in if ct_State c = StateName 1 then with_pid pns_of pid c' else c')
          in if ct_Name c1 = [] \<and> dk_Names dc \<noteq> [] then c1\<lparr>ct_Name := hd (dk_Names dc)\<rparr> else c1) cs))"

definition container_record :: "int \<Rightarrow> string \<Rightarrow> col_Container \<Rightarrow> col_record" where
  "container_record now seq c = \<lparr>cr_DataType = 5056, cr_Timestamp = now, cr_Fields =
     [(''id'', ct_ID c), (''name'', ct_Name c), (''state'', ct_State c), (''image_id'', ct_ImageID c), (''image_name'', ct_ImageName c),
      (''pid'', ct_Pid c), (''pns'', ct_Pns c), (''runtime'', ct_State c), (''create_time'', ct_CreateTime c), (''package_seq'', seq)]\<rparr>"

definition cached_container :: "string \<Rightarrow> col_Container \<Rightarrow> bool" where
  "cached_container rpns c \<longleftrightarrow> ct_State c = StateName 1 \<and> ct_Pns c \<noteq> [] \<and> ct_Pns c \<noteq> rpns"

fun container_loop :: "int \<Rightarrow> string \<Rightarrow> string \<Rightarrow> col_Container list \<Rightarrow> eng_Cache \<Rightarrow> (col_record list \<times> eng_Cache) option" where
  "container_loop now seq rpns [] cache = Some ([], cache)"
| "container_loop now seq rpns (c # cs) cache =
     (case (if cached_container rpns c
            then Cache_Put cache 5056 (ct_Pns c) [(''container_id'', ct_ID c), (''container_name'', ct_Name c)] else Some cache) of
        None \<Rightarrow> None
      | Some cache' \<Rightarrow> map_option (\<lambda>(rs, k). (container_record now seq c # rs, k)) (container_loop now seq rpns cs cache'))"

text \<open>The clients that fail are skipped; \<open>listed\<close> holds the answer of each client's \<open>ListContainers\<close>.\<close>

definition ContainerHandler_Handle ::
  "int \<Rightarrow> string \<Rightarrow> string \<Rightarrow> (string + col_Container list) list \<Rightarrow> eng_Cache \<Rightarrow> (col_record list \<times> eng_Cache) option" where
  "ContainerHandler_Handle now seq rpns listed cache =
     container_loop now seq rpns (concat (map (\<lambda>r. case r of Inl e \<Rightarrow> [] | Inr cs \<Rightarrow> cs) listed)) cache"

text \<open>How the other handlers ask for the container of a process, of a Java process and of a port.\<close>

definition container_fields :: "(string, string) gomap \<times> bool \<Rightarrow> string \<times> string" where
  "container_fields g = (let f = (\<lambda>k. case map_of (fst g) k of None \<Rightarrow> [] | Some v \<Rightarrow> v) in (f ''container_id'', f ''container_name''))"

definition process_container :: "eng_Cache \<Rightarrow> string \<Rightarrow> string \<times> string" where
  "process_container cache pns = container_fields (Cache_Get cache 5056 pns)"

definition port_container :: "eng_Cache \<Rightarrow> string \<Rightarrow> string \<times> string" where
  "port_container cache sport = container_fields (Cache_Get cache 5056 sport)"

definition jar_container :: "eng_Cache \<Rightarrow> string \<Rightarrow> string \<Rightarrow> string \<times> string" where
  "jar_container cache rpns pns =
     (if pns \<noteq> rpns then
        (case Cache_Get cache 5056 (''pns'' @ pns) of (m, ok) \<Rightarrow> if ok then container_fields (m, ok) else ([], []))
      else ([], []))"

lemma container_loop_puts:
  "container_loop now seq rpns cs cache =
     map_option (Pair (map (container_record now seq) cs))
       (cc.puts cache 5056 (map (\<lambda>c. (ct_Pns c, [(''container_id'', ct_ID c), (''container_name'', ct_Name c)])) (filter (cached_container rpns) cs)))"
  by (induction cs arbitrary: cache) (auto simp: option.map_comp comp_def split: option.splits)

lemma map_of_find:
  "map_of (map (\<lambda>c. (key c, val c)) cs) x = map_option val (List.find (\<lambda>c. key c = x) cs)"
  by (induction cs) auto

lemma find_filter: "List.find P (filter Q cs) = List.find (\<lambda>c. Q c \<and> P c) cs"
  by (induction cs) auto

text \<open>The containers of all clients that answered, and the one a namespace belongs to.\<close>

definition listed_containers :: "(string + col_Container list) list \<Rightarrow> col_Container list" where
  "listed_containers listed = concat (map (\<lambda>r. case r of Inl e \<Rightarrow> [] | Inr cs \<Rightarrow> cs) listed)"

definition owner_of :: "string \<Rightarrow> col_Container list \<Rightarrow> string \<Rightarrow> col_Container option" where
  "owner_of rpns cs pns = List.find (\<lambda>c. cached_container rpns c \<and> ct_Pns c = pns) (rev cs)"

definition owner_name :: "col_Container option \<Rightarrow> string \<times> string" where
  "owner_name oc = (case oc of None \<Rightarrow> ([], []) | Some c \<Rightarrow> (ct_ID c, ct_Name c))"

text \<open>
  C29. The container handler, whatever the clients of the container runtimes answer, reports every container listed, and
  afterwards a process is attributed to the running container, not in the namespace of the host, whose process namespace it is in; where several
  are in that namespace it is the one listed last, and where none is the process has no container.  A Java
  process never has one, because the handler of software asks with another key than the one stored; and a port is attributed by taking its number
  for the number of a namespace.
\<close>

theorem container_attribution:
  assumes num: "\<And>c. c \<in> set (listed_containers listed) \<Longrightarrow> list_all is_digit (ct_Pns c)"
  shows "\<exists>cache'. ContainerHandler_Handle now seq rpns listed (Cache_clear cache 5056) =
      Some (map (container_record now seq) (listed_containers listed), cache') \<and>
    process_container cache' pns = owner_name (owner_of rpns (listed_containers listed) pns) \<and>
    jar_container cache' rpns pns = ([], []) \<and>
    port_container cache' sport = owner_name (owner_of rpns (listed_containers listed) sport)"
proof -
  let ?f = "\<lambda>c. [(''container_id'', ct_ID c), (''container_name'', ct_Name c)]" and ?cs = "listed_containers listed"
  let ?kv = "map (\<lambda>c. (ct_Pns c, ?f c)) (filter (cached_container rpns) ?cs)"
  obtain k where k: "cc.puts (Cache_clear cache 5056) 5056 ?kv = Some k"
    and g: "\<And>x. Cache_Get k 5056 x = (if x \<in> fst ` set ?kv then (the (map_of (rev ?kv) x), True) else ([], False))"
    using cc.puts_after_clear[of cache 5056 ?kv] by blast
  have run: "ContainerHandler_Handle now seq rpns listed (Cache_clear cache 5056) = Some (map (container_record now seq) ?cs, k)"
    using k by (simp add: ContainerHandler_Handle_def container_loop_puts listed_containers_def)
  have m: "map_of (rev ?kv) x = map_option ?f (owner_of rpns ?cs x)" for x
    using map_of_find[of ct_Pns ?f "rev (filter (cached_container rpns) ?cs)" x]
      find_filter[of "\<lambda>c. ct_Pns c = x" "cached_container rpns" "rev ?cs"]
    by (simp only: rev_map rev_filter owner_of_def)
  have dm: "x \<in> fst ` set ?kv \<longleftrightarrow> owner_of rpns ?cs x \<noteq> None" for x
    using m[of x] map_of_eq_None_iff[of "rev ?kv" x] by (simp add: set_rev)
  have p: "container_fields (Cache_Get k 5056 x) = owner_name (owner_of rpns ?cs x)" for x
    unfolding g dm m by (simp add: container_fields_def owner_name_def split: option.split)
  have "''pns'' @ pns \<notin> fst ` set ?kv"
  proof
    assume "''pns'' @ pns \<in> fst ` set ?kv"
    then obtain d where "d \<in> set ?cs" "ct_Pns d = ''pns'' @ pns" by auto
    then have "list_all is_digit (''pns'' @ pns)" using num by metis
    then show False by (simp add: is_digit_def)
  qed
  then have j: "jar_container k rpns pns = ([], [])" by (simp add: jar_container_def g)
  show ?thesis unfolding process_container_def port_container_def by (intro exI conjI, rule run, rule p, rule j, rule p)
qed

definition demo_container :: col_Container where
  "demo_container = \<lparr>ct_ID = ''c1'', ct_Name = ''web'', ct_ImageID = [], ct_ImageName = [], ct_State = ''running'', ct_Pid = ''7'',
     ct_Pns = ''402'', ct_Runtime = ''docker'', ct_CreateTime = []\<rparr>"

theorem container_attribution_witness:
  "\<exists>k. ContainerHandler_Handle 0 ''s'' ''400'' [Inl ''down'', Inr [demo_container]] (Cache_clear NewCache 5056) =
       Some ([container_record 0 ''s'' demo_container], k) \<and>
     process_container k ''402'' = (''c1'', ''web'') \<and> jar_container k ''400'' ''402'' = ([], [])"
proof -
  let ?l = "[Inl ''down'', Inr [demo_container]] :: (string + col_Container list) list"
  have l: "listed_containers ?l = [demo_container]" by (simp add: listed_containers_def)
  have o: "owner_of ''400'' [demo_container] ''402'' = Some demo_container"
    by (simp add: owner_of_def cached_container_def demo_container_def StateName_def)
  have "owner_name (Some demo_container) = (''c1'', ''web'')" by (simp add: owner_name_def demo_container_def)
  moreover have "\<And>c. c \<in> set (listed_containers ?l) \<Longrightarrow> list_all is_digit (ct_Pns c)"
    unfolding l by (simp add: demo_container_def is_digit_def)
  ultimately show ?thesis
    using container_attribution[of ?l 0 "''s''" "''400''" NewCache "''402''" "''80''"] unfolding l o by auto
qed

text \<open>The record of a container gives its state where it should give its runtime.\<close>

lemma container_runtime_is_state: "map_of (cr_Fields (container_record now seq c)) ''runtime'' = Some (ct_State c)"
  by (simp add: container_record_def)

end
