(* ===== verification/CollectorPort.thy ===== *)
theory CollectorPort
  imports CollectorEngine
begin

text \<open>
  The listening ports of the collector plugin (\<open>plugins/collector/port/\<close>, \<open>port.go\<close>): the netlink messages
  of \<open>sock_diag\<close>, the reader of \<open>/proc/net\<close>, the merging of both and the search for the owning processes.
  What the kernel and \<open>/proc\<close> answer are parameters, the byte order of the machine too.  The lemmas show
  the round trip of a netlink answer, the size of a request, and what is lost when ports are
  merged by their number.
\<close>

section \<open>Netlink messages\<close>

definition native_val :: "bool \<Rightarrow> string \<Rightarrow> nat" where
  "native_val le b = (if le then le_val b else be_val b)"

definition native_bytes :: "bool \<Rightarrow> nat \<Rightarrow> nat \<Rightarrow> string" where
  "native_bytes le k n = (if le then le_bytes k n else be_bytes k n)"

record sockid =
  si_sport :: nat
  si_dport :: nat
  si_sip :: string
  si_dip :: string
  si_iface :: nat
  si_cookie0 :: nat
  si_cookie1 :: nat

record inetDiagReq =
  rq_family :: nat
  rq_protocol :: nat
  rq_ext :: nat
  rq_pad :: nat
  rq_states :: nat
  rq_id :: sockid

text \<open>The padding of the destination address counts the bytes of the source address.\<close>

definition Serialize :: "bool \<Rightarrow> inetDiagReq \<Rightarrow> string" where
  "Serialize le r =
     [char_of (rq_family r), char_of (rq_protocol r), char_of (rq_ext r), char_of (rq_pad r)] @
     native_bytes le 4 (rq_states r) @ be_bytes 2 (si_sport (rq_id r)) @ be_bytes 2 (si_dport (rq_id r)) @
     si_sip (rq_id r) @ (if length (si_sip (rq_id r)) < 16 then replicate (16 - length (si_sip (rq_id r))) NUL else []) @
     si_dip (rq_id r) @ (if length (si_dip (rq_id r)) < 16 then replicate (16 - length (si_sip (rq_id r))) NUL else []) @
     native_bytes le 4 (si_iface (rq_id r)) @ native_bytes le 4 (si_cookie0 (rq_id r)) @ native_bytes le 4 (si_cookie1 (rq_id r))"

definition req_Len :: nat where
  "req_Len = 0x30 + 0x8"

record inetDiagResp =
  rs_family :: nat
  rs_state :: nat
  rs_timer :: nat
  rs_retrans :: nat
  rs_id :: sockid
  rs_expires :: nat
  rs_rqueue :: nat
  rs_wqueue :: nat
  rs_uid :: nat
  rs_inode :: nat

definition resp_Len :: nat where
  "resp_Len = 0x30 + 0x18"

text \<open>A message that is long enough is read without an error, field by field.\<close>

definition Deserialize :: "bool \<Rightarrow> string \<Rightarrow> inetDiagResp option" where
  "Deserialize le d =
     (if length d < resp_Len then None
      else
        let u8 = (\<lambda>o1. le_val (take 1 (drop o1 d))); u16 = (\<lambda>o1. be_val (take 2 (drop o1 d)));
            u32 = (\<lambda>o1. native_val le (take 4 (drop o1 d)));
            w = (if u8 0 = 10 then 16 else 4)
        in Some \<lparr>rs_family = u8 0, rs_state = u8 1, rs_timer = u8 2, rs_retrans = u8 3,
             rs_id = \<lparr>si_sport = u16 4, si_dport = u16 6, si_sip = take w (drop 8 d), si_dip = take w (drop 24 d),
               si_iface = u32 40, si_cookie0 = u32 44, si_cookie1 = u32 48\<rparr>,
             rs_expires = u32 52, rs_rqueue = u32 56, rs_wqueue = u32 60, rs_uid = u32 64, rs_inode = u32 68\<rparr>)"

text \<open>
  The messages of one dump: the answers of the kernel to the receive calls, each an error, or the sender and the messages with their
  type.  Where the answers end, the call is still waiting (None).
\<close>

definition diag_state :: "nat \<Rightarrow> string + nat" where
  "diag_state proto = (if proto = 17 then Inr 7 else if proto = 6 then Inr 10 else Inl (''unsupported protocol '' @ nat_digits proto))"

definition diag_request :: "nat \<Rightarrow> nat \<Rightarrow> nat \<Rightarrow> inetDiagReq" where
  "diag_request family proto st = \<lparr>rq_family = family, rq_protocol = proto, rq_ext = 6, rq_pad = 0, rq_states = 2 ^ st,
     rq_id = \<lparr>si_sport = 0, si_dport = 0, si_sip = [], si_dip = [], si_iface = 0, si_cookie0 = 0, si_cookie1 = 0\<rparr>\<rparr>"

fun diag_msgs :: "bool \<Rightarrow> (nat \<times> string) list \<Rightarrow> inetDiagResp list \<Rightarrow> inetDiagResp list \<times> string option \<times> bool" where
  "diag_msgs le [] ret = (ret, None, False)"
| "diag_msgs le ((ty, d) # ms) ret =
     (if ty = 3 then (ret, None, True)
      else if ty = 2 then (ret, Some ''unknown error'', True)
      else diag_msgs le ms (case Deserialize le d of None \<Rightarrow> ret | Some r \<Rightarrow> if rs_inode r \<noteq> 0 then ret @ [r] else ret))"

type_synonym diag_recv = "string + (nat \<times> (nat \<times> string) list)"

fun diag_loop :: "bool \<Rightarrow> diag_recv list \<Rightarrow> inetDiagResp list \<Rightarrow> (inetDiagResp list \<times> string option) option" where
  "diag_loop le [] ret = None"
| "diag_loop le (Inl e # rs) ret = Some (ret, Some e)"
| "diag_loop le (Inr (pid, ms) # rs) ret =
     (if pid \<noteq> 0 then diag_loop le rs ret
      else if ms = [] then Some (ret, None)
      else (case diag_msgs le ms ret of (ret', err, stop) \<Rightarrow> if stop then Some (ret', err) else diag_loop le rs ret'))"

text \<open>\<open>sub\<close> and \<open>snd_err\<close> are the errors of opening the socket and of sending the request.\<close>

definition inetDiag :: "bool \<Rightarrow> string option \<Rightarrow> string option \<Rightarrow> nat \<Rightarrow> diag_recv list \<Rightarrow> (inetDiagResp list \<times> string option) option" where
  "inetDiag le sub snd_err proto recvs =
     (case (sub, diag_state proto, snd_err) of
        (Some e, _, _) \<Rightarrow> Some ([], Some e)
      | (None, Inl e, _) \<Rightarrow> Some ([], Some e)
      | (None, Inr st, Some e) \<Rightarrow> Some ([], Some e)
      | (None, Inr st, None) \<Rightarrow> diag_loop le recvs [])"

section \<open>The files of /proc/net\<close>

record Port =
  po_Seq :: string
  po_Family :: string
  po_Protocol :: string
  po_State :: string
  po_Sport :: string
  po_Dport :: string
  po_Sip :: string
  po_Dip :: string
  po_Uid :: string
  po_Inode :: string
  po_Username :: string
  po_Pid :: string
  po_Exe :: string
  po_Comm :: string
  po_Cmdline :: string
  po_Psm :: string
  po_PodName :: string

definition empty_Port :: Port where
  "empty_Port = \<lparr>po_Seq = [], po_Family = [], po_Protocol = [], po_State = [], po_Sport = [], po_Dport = [], po_Sip = [], po_Dip = [],
     po_Uid = [], po_Inode = [], po_Username = [], po_Pid = [], po_Exe = [], po_Comm = [], po_Cmdline = [], po_Psm = [], po_PodName = []\<rparr>"

text \<open>The groups of four bytes of a hexadecimal address, each reversed.\<close>

definition parseIP :: "string \<Rightarrow> string option" where
  "parseIP h =
     (case hex_DecodeString h of
        None \<Rightarrow> None
      | Some b \<Rightarrow>
          if length b = 4 then Some (IP_String (rev b))
          else if length b = 16
          then Some (IP_String (rev (take 4 b) @ rev (take 4 (drop 4 b)) @ rev (take 4 (drop 8 b)) @ rev (take 4 (drop 12 b))))
          else None)"

definition procNet_file :: "nat \<Rightarrow> nat \<Rightarrow> string + string" where
  "procNet_file family proto =
     (case (if proto = 17 then Inr ''udp'' else if proto = 6 then Inr ''tcp''
            else Inl (''unsupported protocol '' @ nat_digits proto)) of
        Inl e \<Rightarrow> Inl e
      | Inr f1 \<Rightarrow>
          if family = 2 then Inr (path_Join [''/proc/net'', f1 @ ''4''])
          else if family = 10 then Inr (path_Join [''/proc/net'', f1 @ ''6''])
          else Inl (''unsupported family '' @ nat_digits family))"

text \<open>The names of the columns; the header is read from behind the word \<open>uid\<close>, and too short a header panics (None).\<close>

definition procNet_header :: "string \<Rightarrow> (nat, string) gomap option" where
  "procNet_header line =
     (let rest = (case Cut line ''uid'' of Some (a, b) \<Rightarrow> Some b | None \<Rightarrow> if 2 \<le> length line then Some (drop 2 line) else None)
      in map_option (\<lambda>r. [(1, ''local_address''), (2, ''rem_address''), (3, ''st''), (7, ''uid'')] @
           zip [8..<8 + length (Fields r)] (Fields r)) rest)"

text \<open>An address column: the address and the port, and whether reading ended with an error; other values keep what was set so far.\<close>

definition net_address :: "string \<Rightarrow> string \<Rightarrow> string \<Rightarrow> bool \<Rightarrow> string \<times> string \<times> bool" where
  "net_address f ip port err =
     (case Split f '':'' of
        [a, b] \<Rightarrow> (case parseIP a of
            None \<Rightarrow> ([], port, True)
          | Some t \<Rightarrow> (case ParseHex b of None \<Rightarrow> (t, port, True) | Some n \<Rightarrow> (t, nat_digits n, False)))
      | _ \<Rightarrow> (ip, port, err))"

text \<open>One column; the error flag belongs to the line and every parsed column sets it anew.\<close>

definition procNet_column :: "(string \<Rightarrow> string) \<Rightarrow> string option \<Rightarrow> string \<Rightarrow> Port \<times> bool \<Rightarrow> Port \<times> bool" where
  "procNet_column username key f pe =
     (case pe of (p, err) \<Rightarrow>
        if key = Some ''local_address'' then
          (case net_address f (po_Sip p) (po_Sport p) err of (ip, port, e) \<Rightarrow> (p\<lparr>po_Sip := ip, po_Sport := port\<rparr>, e))
        else if key = Some ''rem_address'' then
          (case net_address f (po_Dip p) (po_Dport p) err of (ip, port, e) \<Rightarrow> (p\<lparr>po_Dip := ip, po_Dport := port\<rparr>, e))
        else if key = Some ''st'' then
          (case ParseHex f of None \<Rightarrow> (p, True) | Some n \<Rightarrow> (p\<lparr>po_State := nat_digits n\<rparr>, False))
        else if key = Some ''uid'' then (p\<lparr>po_Uid := f, po_Username := username f\<rparr>, err)
        else if key = Some ''inode'' then (p\<lparr>po_Inode := f\<rparr>, err)
        else (p, err))"

definition procNet_line :: "(string \<Rightarrow> string) \<Rightarrow> (nat, string) gomap \<Rightarrow> string \<Rightarrow> Port \<times> bool" where
  "procNet_line username hdr line =
     foldl (\<lambda>pe (i, f). procNet_column username (map_of (rev hdr) i) f pe) (empty_Port, False)
       (zip [0..<length (Fields line)] (Fields line))"

definition procNet :: "(string \<Rightarrow> string) \<Rightarrow> (string \<Rightarrow> string option) \<Rightarrow> nat \<Rightarrow> nat \<Rightarrow> (Port list \<times> bool) option" where
  "procNet username readf family proto =
     (case procNet_file family proto of
        Inl e \<Rightarrow> Some ([], True)
      | Inr path \<Rightarrow> (case readf path of
          None \<Rightarrow> Some ([], True)
        | Some c \<Rightarrow> (case ScanLines (take (2 * 1024 * 1024) c) of
            [] \<Rightarrow> Some ([], False)
          | h # ls \<Rightarrow> (case procNet_header h of
              None \<Rightarrow> None
            | Some hdr \<Rightarrow>
                let parsed = map (procNet_line username hdr) ls;
                    good = filter (\<lambda>(p, err). \<not> err \<and> (proto = 17 \<and> po_State p = ''7'' \<or> proto = 6 \<and> po_State p = ''10'')) parsed
                in Some (map (\<lambda>(p, err). p\<lparr>po_Protocol := nat_digits proto, po_Family := nat_digits family\<rparr>) good, False)))))"

section \<open>Merging and owners\<close>

record port_proc =
  pp_pid :: string
  pp_fds :: "string list option"
  pp_exe :: string
  pp_cmdline :: string
  pp_comm :: string
  pp_envs :: "(string, string) gomap option"

fun first_env :: "string list \<Rightarrow> (string, string) gomap \<Rightarrow> string option" where
  "first_env [] envs = None"
| "first_env (k # ks) envs = (case map_of envs k of Some v \<Rightarrow> Some v | None \<Rightarrow> first_env ks envs)"

definition pod_keys :: "string list" where
  "pod_keys = [''POD_NAME'', ''MY_POD_NAME'']"

definition psm_keys :: "string list" where
  "psm_keys = [''LOAD_SERVICE_PSM'', ''TCE_PSM'', ''RUNTIME_PSM'']"

definition diag_port :: "(string \<Rightarrow> string) \<Rightarrow> string \<Rightarrow> nat \<Rightarrow> inetDiagResp \<Rightarrow> Port" where
  "diag_port username seq proto r = empty_Port\<lparr>po_Seq := seq, po_Family := nat_digits (rs_family r), po_Protocol := nat_digits proto,
     po_State := nat_digits (rs_state r), po_Sport := nat_digits (si_sport (rs_id r)), po_Dport := nat_digits (si_dport (rs_id r)),
     po_Sip := IP_String (si_sip (rs_id r)), po_Dip := IP_String (si_dip (rs_id r)), po_Uid := nat_digits (rs_uid r),
     po_Inode := nat_digits (rs_inode r), po_Username := username (nat_digits (rs_uid r))\<rparr>"

text \<open>The sockets of one dump: only the first socket of each port number is kept.\<close>

definition add_diag :: "(string \<Rightarrow> string) \<Rightarrow> string \<Rightarrow> nat \<Rightarrow> nat list \<times> (string, Port) gomap \<Rightarrow> inetDiagResp \<Rightarrow> nat list \<times> (string, Port) gomap" where
  "add_diag username seq proto st r =
     (case st of (seen, pm) \<Rightarrow>
        if si_sport (rs_id r) \<in> set seen then st
        else (si_sport (rs_id r) # seen, mput pm (nat_digits (rs_inode r)) (diag_port username seq proto r)))"

abbreviation scan_order :: "(nat \<times> nat) list" where
  "scan_order \<equiv> [(17, 2), (17, 10), (6, 2), (6, 10)]"

definition diag_ports :: "(string \<Rightarrow> string) \<Rightarrow> string \<Rightarrow> (nat \<times> nat \<Rightarrow> inetDiagResp list \<times> string option) \<Rightarrow> nat list \<times> (string, Port) gomap" where
  "diag_ports username seq diag =
     foldl (\<lambda>st (proto, family). case diag (proto, family) of
         (resp, None) \<Rightarrow> foldl (add_diag username seq proto) st resp
       | (resp, Some e) \<Rightarrow> st) ([], []) scan_order"

definition add_file_port :: "string list \<times> (string, Port) gomap \<Rightarrow> Port \<Rightarrow> string list \<times> (string, Port) gomap" where
  "add_file_port st p =
     (case st of (seen, pm) \<Rightarrow>
        if po_Sport p \<in> set seen then st else (po_Sport p # seen, mput pm (po_Inode p) p))"

definition file_ports :: "(nat \<times> nat \<Rightarrow> Port list \<times> bool) \<Rightarrow> string list \<times> (string, Port) gomap" where
  "file_ports net =
     foldl (\<lambda>st pf. case net pf of (ps, False) \<Rightarrow> foldl add_file_port st ps | (ps, True) \<Rightarrow> st) ([], []) scan_order"

definition set_owner :: "port_proc \<Rightarrow> Port \<Rightarrow> Port" where
  "set_owner p port =
     (let port1 = port\<lparr>po_Pid := pp_pid p, po_Exe := pp_exe p, po_Cmdline := pp_cmdline p, po_Comm := pp_comm p\<rparr>
      in case pp_envs p of
           None \<Rightarrow> port1
         | Some envs \<Rightarrow>
             let port2 = (case first_env pod_keys envs of None \<Rightarrow> port1 | Some v \<Rightarrow> port1\<lparr>po_PodName := v\<rparr>)
             in (case first_env psm_keys envs of None \<Rightarrow> port2 | Some v \<Rightarrow> port2\<lparr>po_Psm := v\<rparr>))"

definition socket_inode :: "string \<Rightarrow> string option" where
  "socket_inode fd = (if HasPrefix fd ''socket:['' \<and> HasSuffix fd '']'' then Some (take (length fd - 9) (drop 8 fd)) else None)"

definition own_fd :: "port_proc \<Rightarrow> (string, Port) gomap \<Rightarrow> string \<Rightarrow> (string, Port) gomap" where
  "own_fd p pm fd =
     (case socket_inode fd of
        None \<Rightarrow> pm
      | Some i \<Rightarrow> (case map_of pm i of None \<Rightarrow> pm | Some port \<Rightarrow> mput pm i (set_owner p port)))"

definition own_ports :: "port_proc list \<Rightarrow> (string, Port) gomap \<Rightarrow> (string, Port) gomap" where
  "own_ports procs pm = foldl (\<lambda>pm p. case pp_fds p of None \<Rightarrow> pm | Some fds \<Rightarrow> foldl (own_fd p) pm fds) pm procs"

text \<open>
  \<open>diag\<close>, \<open>net\<close> are the results of \<open>inetDiag\<close> and \<open>procNet\<close>; the error that counts is that of the last call made.
  \<open>procs\<close> is None where \<open>Processes\<close> fails, whose error the call then returns with no port.
\<close>

definition ListeningPorts ::
  "(string \<Rightarrow> string) \<Rightarrow> string \<Rightarrow> (nat \<times> nat \<Rightarrow> inetDiagResp list \<times> string option) \<Rightarrow> (nat \<times> nat \<Rightarrow> Port list \<times> bool) \<Rightarrow>
   port_proc list option \<Rightarrow> Port list \<times> bool" where
  "ListeningPorts username seq diag net procs =
     (let pm1 = snd (diag_ports username seq diag);
          pm2 = (if pm1 = [] then snd (file_ports net) else pm1);
          err = (pm1 = [] \<and> snd (net (6, 10)))
      in if pm2 = [] \<and> err then ([], True)
         else (case procs of
                 None \<Rightarrow> (filter (\<lambda>v. po_Pid v \<noteq> []) (map snd pm2), True)
               | Some ps \<Rightarrow> (filter (\<lambda>v. po_Pid v \<noteq> []) (map snd (own_ports ps pm2)), False)))"

text \<open>\<open>decode\<close> is \<open>mapstructure.Decode\<close>: it writes the fields of a structure, given by their tags, into a map.\<close>

type_synonym map_decoder = "(string \<times> string) list \<Rightarrow> (string, string) gomap \<Rightarrow> (string, string) gomap"

definition port_record :: "map_decoder \<Rightarrow> eng_Cache \<Rightarrow> int \<Rightarrow> string \<Rightarrow> Port \<Rightarrow> col_record" where
  "port_record decode cache now seq p =
     (let (cid, cname) = port_container cache (po_Sport p);
          fs = decode
            [(''seq'', po_Seq p), (''family'', po_Family p), (''protocol'', po_Protocol p), (''state'', po_State p), (''sport'', po_Sport p),
             (''dport'', po_Dport p), (''sip'', po_Sip p), (''dip'', po_Dip p), (''uid'', po_Uid p), (''inode'', po_Inode p),
             (''username'', po_Username p), (''pid'', po_Pid p), (''exe'', po_Exe p), (''comm'', po_Comm p), (''cmdline'', po_Cmdline p),
             (''psm'', po_Psm p), (''pod_name'', po_PodName p)] []
      in \<lparr>cr_DataType = 5051, cr_Timestamp = now,
          cr_Fields = mput (mput (mput fs ''container_id'' cid) ''container_name'' cname) ''package_seq'' seq\<rparr>)"

definition PortHandler_Handle :: "map_decoder \<Rightarrow> eng_Cache \<Rightarrow> int \<Rightarrow> string \<Rightarrow> Port list \<times> bool \<Rightarrow> col_record list" where
  "PortHandler_Handle decode cache now seq lp = (if snd lp then [] else map (port_record decode cache now seq) (fst lp))"

section \<open>Messages\<close>

lemma length_native_bytes [simp]: "length (native_bytes le k n) = k"
  by (simp add: native_bytes_def)

lemma native_val_bytes: "n < 256 ^ k \<Longrightarrow> native_val le (native_bytes le k n) = n"
  by (simp add: native_val_def native_bytes_def le_val_bytes be_val_bytes)

text \<open>The message the kernel sends for a socket: addresses of four bytes are padded to sixteen.\<close>

definition pad16 :: "string \<Rightarrow> string" where
  "pad16 a = a @ replicate (16 - length a) NUL"

definition resp_bytes :: "bool \<Rightarrow> inetDiagResp \<Rightarrow> string" where
  "resp_bytes le r =
     [char_of (rs_family r), char_of (rs_state r), char_of (rs_timer r), char_of (rs_retrans r)] @
     be_bytes 2 (si_sport (rs_id r)) @ be_bytes 2 (si_dport (rs_id r)) @ pad16 (si_sip (rs_id r)) @ pad16 (si_dip (rs_id r)) @
     native_bytes le 4 (si_iface (rs_id r)) @ native_bytes le 4 (si_cookie0 (rs_id r)) @ native_bytes le 4 (si_cookie1 (rs_id r)) @
     native_bytes le 4 (rs_expires r) @ native_bytes le 4 (rs_rqueue r) @ native_bytes le 4 (rs_wqueue r) @
     native_bytes le 4 (rs_uid r) @ native_bytes le 4 (rs_inode r)"

definition wf_resp :: "inetDiagResp \<Rightarrow> bool" where
  "wf_resp r \<longleftrightarrow>
     list_all (\<lambda>n. n < 256) [rs_family r, rs_state r, rs_timer r, rs_retrans r] \<and>
     list_all (\<lambda>n. n < 256 ^ 2) [si_sport (rs_id r), si_dport (rs_id r)] \<and>
     length (si_sip (rs_id r)) = (if rs_family r = 10 then 16 else 4) \<and> length (si_dip (rs_id r)) = length (si_sip (rs_id r)) \<and>
     list_all (\<lambda>n. n < 256 ^ 4) [si_iface (rs_id r), si_cookie0 (rs_id r), si_cookie1 (rs_id r), rs_expires r, rs_rqueue r, rs_wqueue r,
       rs_uid r, rs_inode r]"

lemma length_pad16 [simp]: "length a \<le> 16 \<Longrightarrow> length (pad16 a) = 16"
  by (simp add: pad16_def)

lemma pad16_full: "length a = 16 \<Longrightarrow> pad16 a = a"
  by (simp add: pad16_def)

lemma take_pad16: "length a = 4 \<Longrightarrow> take 4 (pad16 a) = a"
  by (simp add: pad16_def)

lemma sockid_eta: "\<lparr>si_sport = si_sport x, si_dport = si_dport x, si_sip = si_sip x, si_dip = si_dip x, si_iface = si_iface x,
    si_cookie0 = si_cookie0 x, si_cookie1 = si_cookie1 x\<rparr> = x"
  by (cases x) simp

lemma drop_field: "length a = n \<Longrightarrow> n \<le> m \<Longrightarrow> drop m (a @ b) = drop (m - n) b"
  by simp

lemma take_field: "length a = n \<Longrightarrow> take n (a @ b) = a"
  by simp

text \<open>
  C28. The netlink answers of the kernel are read as they were written: for every socket, in either byte order of the machine, IPv4 or
  IPv6, followed by any attributes, \<open>Deserialize\<close> gives back all fields.
\<close>

theorem Deserialize_roundtrip:
  assumes w: "wf_resp r"
  shows "Deserialize le (resp_bytes le r @ attrs) = Some r"
proof -
  have p: "length (pad16 (si_sip (rs_id r))) = 16" "length (pad16 (si_dip (rs_id r))) = 16"
    using w by (auto simp: wf_resp_def)
  have n: "native_val le (native_bytes le 4 m) = m" if "m < 256 ^ 4" for m using that by (rule native_val_bytes)
  have b: "be_val (be_bytes 2 m) = m" if "m < 256 ^ 2" for m using that by (rule be_val_bytes)
  show ?thesis using w p
    by (cases r) (auto simp: Deserialize_def resp_bytes_def resp_Len_def Let_def n b wf_resp_def take_field drop_field
      pad16_full take_pad16 sockid_eta)
qed

definition demo_resp :: inetDiagResp where
  "demo_resp = \<lparr>rs_family = 2, rs_state = 10, rs_timer = 0, rs_retrans = 0,
     rs_id = \<lparr>si_sport = 8080, si_dport = 0, si_sip = [CHR 0x7F, NUL, NUL, CHR 0x01], si_dip = [NUL, NUL, NUL, NUL], si_iface = 0,
       si_cookie0 = 1, si_cookie1 = 0\<rparr>, rs_expires = 0, rs_rqueue = 0, rs_wqueue = 128, rs_uid = 1000, rs_inode = 12345\<rparr>"

theorem Deserialize_roundtrip_witness: "Deserialize True (resp_bytes True demo_resp @ ''attr'') = Some demo_resp"
  by (rule Deserialize_roundtrip) (simp add: wf_resp_def demo_resp_def)

text \<open>
  A request has the announced size if both addresses have the same length, as in the requests the plugin sends, which hold none.
  A destination address of another length than the source address shifts the fields behind it.
\<close>

lemma Serialize_length:
  "length (si_sip (rq_id r)) \<le> 16 \<Longrightarrow> length (si_dip (rq_id r)) < 16 \<Longrightarrow>
     length (Serialize le r) + length (si_sip (rq_id r)) = req_Len + length (si_dip (rq_id r))"
  by (simp add: Serialize_def req_Len_def)

lemma diag_request_size: "length (Serialize le (diag_request family proto st)) = req_Len"
  using Serialize_length[of "diag_request family proto st" le] by (simp add: diag_request_def)

text \<open>The IPv4 tables are looked for under names that the kernel does not use.\<close>

lemma procNet_file_names:
  "procNet_file 2 6 = Inr ''/proc/net/tcp4''" "procNet_file 2 17 = Inr ''/proc/net/udp4''" "procNet_file 10 6 = Inr ''/proc/net/tcp6''"
  by (code_simp)+

text \<open>A column that cannot be read is forgotten when a later one can: the error of the local address is overwritten by the state.\<close>

lemma bad_address_kept: "snd (procNet_column username (Some ''st'') f (p, err)) = (ParseHex f = None)"
  by (simp add: procNet_column_def split: option.splits)

section \<open>The reported ports\<close>

abbreviation from_diag :: "(nat \<times> nat \<Rightarrow> inetDiagResp list \<times> string option) \<Rightarrow> (string \<Rightarrow> string) \<Rightarrow> string \<Rightarrow> Port \<Rightarrow> bool" where
  "from_diag diag username seq v \<equiv> \<exists>proto family resp r. diag (proto, family) = (resp, None) \<and> r \<in> set resp \<and> v = diag_port username seq proto r"

definition ports_inv :: "(nat \<times> nat \<Rightarrow> inetDiagResp list \<times> string option) \<Rightarrow> (string \<Rightarrow> string) \<Rightarrow> string \<Rightarrow> nat list \<times> (string, Port) gomap \<Rightarrow> bool" where
  "ports_inv diag username seq st \<longleftrightarrow> wf_gomap (snd st) \<and>
     (\<forall>k v. map_of (snd st) k = Some v \<longrightarrow> po_Inode v = k \<and> from_diag diag username seq v \<and> (\<exists>n \<in> set (fst st). po_Sport v = nat_digits n)) \<and>
     (\<forall>k k' v v'. map_of (snd st) k = Some v \<longrightarrow> map_of (snd st) k' = Some v' \<longrightarrow> po_Sport v = po_Sport v' \<longrightarrow> k = k')"

lemma add_diag_inv:
  assumes "ports_inv diag username seq st" "diag (proto, family) = (resp, None)" "r \<in> set resp"
  shows "ports_inv diag username seq (add_diag username seq proto st r)"
proof (cases "si_sport (rs_id r) \<in> set (fst st)")
  case True
  then show ?thesis using assms(1) by (cases st) (simp add: add_diag_def)
next
  case False
  obtain seen pm where st: "st = (seen, pm)" by (cases st)
  have new: "po_Sport v \<noteq> nat_digits (si_sport (rs_id r))" if "map_of pm k = Some v" for k v
    using assms(1) that False by (fastforce simp: ports_inv_def st nat_digits_inject)
  have p: "po_Inode (diag_port username seq proto r) = nat_digits (rs_inode r)"
    "po_Sport (diag_port username seq proto r) = nat_digits (si_sport (rs_id r))" by (simp_all add: diag_port_def)
  have d: "from_diag diag username seq (diag_port username seq proto r)" using assms(2,3) by blast
  show ?thesis using assms(1) False new new[symmetric] p d
    by (auto simp: add_diag_def st ports_inv_def split: if_splits)
qed

lemma diag_ports_inv: "ports_inv diag username seq (diag_ports username seq diag)"
proof -
  have "ports_inv diag username seq ([], [])" by (simp add: ports_inv_def)
  moreover have "ports_inv diag username seq (foldl (add_diag username seq proto) st resp)"
    if "ports_inv diag username seq st" "diag (proto, family) = (resp, None)" for st proto family resp
    using that by (intro foldl_invariant[where P = "ports_inv diag username seq"]) (auto intro: add_diag_inv)
  ultimately show ?thesis unfolding diag_ports_def
    by (intro foldl_invariant[where P = "ports_inv diag username seq"]) (auto split: prod.splits option.splits)
qed

lemma socket_inode_Some: "socket_inode fd = Some i \<Longrightarrow> fd = ''socket:['' @ i @ '']''"
proof -
  assume a: "socket_inode fd = Some i"
  then have p: "take 8 fd = ''socket:[''" and q: "1 \<le> length fd" "drop (length fd - 1) fd = '']''" and i: "i = take (length fd - 9) (drop 8 fd)"
    by (auto simp: socket_inode_def HasPrefix_def HasSuffix_def eval_nat_numeral split: if_splits)
  have "8 \<le> length fd" using arg_cong[OF p, of length] by (simp split: if_splits)
  moreover have "length fd \<noteq> 8"
  proof
    assume "length fd = 8"
    then have "fd = ''socket:[''" using p by simp
    then show False using q by simp
  qed
  ultimately have n: "9 \<le> length fd" by simp
  have "drop 8 fd = i @ drop (length fd - 9) (drop 8 fd)" by (simp only: i append_take_drop_id)
  also have "drop (length fd - 9) (drop 8 fd) = '']''" using q n by (simp add: le_imp_diff_is_add)
  finally show ?thesis using p by (metis append_take_drop_id)
qed

text \<open>What the search for owners changes of a port.\<close>

definition owned_inv :: "port_proc list \<Rightarrow> (string, Port) gomap \<Rightarrow> (string, Port) gomap \<Rightarrow> bool" where
  "owned_inv ps pm0 pm \<longleftrightarrow> wf_gomap pm \<and>
     (\<forall>k v. map_of pm k = Some v \<longrightarrow> (\<exists>v0. map_of pm0 k = Some v0 \<and> po_Sport v = po_Sport v0 \<and> po_Inode v = po_Inode v0 \<and>
        po_Protocol v = po_Protocol v0 \<and>
        (po_Pid v = po_Pid v0 \<or> (\<exists>q fds. q \<in> set ps \<and> pp_fds q = Some fds \<and> ''socket:['' @ k @ '']'' \<in> set fds \<and> po_Pid v = pp_pid q))))"

lemma set_owner_fields:
  "po_Sport (set_owner q v) = po_Sport v" "po_Inode (set_owner q v) = po_Inode v" "po_Protocol (set_owner q v) = po_Protocol v"
  "po_Pid (set_owner q v) = pp_pid q"
  by (simp_all add: set_owner_def Let_def split: option.splits)

lemma own_fd_inv:
  assumes "owned_inv ps pm0 pm" "q \<in> set ps" "pp_fds q = Some fds" "fd \<in> set fds"
  shows "owned_inv ps pm0 (own_fd q pm fd)"
proof (cases "socket_inode fd")
  case (Some i)
  note fd = socket_inode_Some[OF Some]
  show ?thesis
  proof (cases "map_of pm i")
    case (Some v)
    obtain v0 where "map_of pm0 i = Some v0" "po_Sport v = po_Sport v0" "po_Inode v = po_Inode v0" "po_Protocol v = po_Protocol v0"
      using assms(1) Some unfolding owned_inv_def by blast
    moreover have "''socket:['' @ i @ '']'' \<in> set fds" using assms(4) fd by simp
    ultimately show ?thesis using assms Some \<open>socket_inode fd = Some i\<close>
      by (auto simp: own_fd_def owned_inv_def set_owner_fields simp del: append.simps)
  qed (use assms Some in \<open>simp add: own_fd_def\<close>)
qed (use assms in \<open>simp add: own_fd_def\<close>)

lemma own_ports_inv: "wf_gomap pm \<Longrightarrow> owned_inv ps pm (own_ports ps pm)"
proof -
  assume "wf_gomap pm"
  then have "owned_inv ps pm pm" by (simp add: owned_inv_def)
  moreover have "owned_inv ps pm (foldl (own_fd q) pm' fds)"
    if "owned_inv ps pm pm'" "q \<in> set ps" "pp_fds q = Some fds" for pm' q fds
    using that by (intro foldl_invariant[where P = "owned_inv ps pm"]) (auto intro: own_fd_inv)
  ultimately show ?thesis unfolding own_ports_def
    by (intro foldl_invariant[where P = "owned_inv ps pm"]) (auto split: option.splits)
qed

text \<open>
  C23. Every port that is reported from netlink data is a socket the kernel listed, with its number and protocol, and the process it
  is attributed to has that socket among its file descriptors.  No two reported ports have the same number.
\<close>

theorem ListeningPorts_sound:
  assumes nl: "snd (diag_ports username seq diag) \<noteq> []"
  shows "(\<forall>p \<in> set (fst (ListeningPorts username seq diag net (Some ps))).
      (\<exists>proto family resp r. diag (proto, family) = (resp, None) \<and> r \<in> set resp \<and> po_Sport p = nat_digits (si_sport (rs_id r)) \<and>
         po_Protocol p = nat_digits proto \<and> po_Inode p = nat_digits (rs_inode r)) \<and>
      (\<exists>q fds. q \<in> set ps \<and> pp_fds q = Some fds \<and> ''socket:['' @ po_Inode p @ '']'' \<in> set fds \<and> po_Pid p = pp_pid q)) \<and>
    distinct (map po_Sport (fst (ListeningPorts username seq diag net (Some ps))))"
proof -
  let ?pm = "snd (diag_ports username seq diag)"
  let ?own = "own_ports ps ?pm"
  note inv = diag_ports_inv[of diag username seq, unfolded ports_inv_def]
  have o1: "owned_inv ps ?pm ?own" using inv by (intro own_ports_inv) blast
  have res: "fst (ListeningPorts username seq diag net (Some ps)) = filter (\<lambda>v. po_Pid v \<noteq> []) (map snd ?own)"
    using nl by (simp add: ListeningPorts_def Let_def)
  have mem: "map_of ?own k = Some v" if "(k, v) \<in> set ?own" for k v
    using o1 that by (simp add: owned_inv_def map_of_Some_iff)
  have pid0: "po_Pid v = []" if "map_of ?pm k = Some v" for k v
    using inv that by (fastforce simp: diag_port_def empty_Port_def)
  have "inj_on (po_Sport \<circ> snd) (set ?own)"
  proof (rule inj_onI, clarsimp)
    fix k v k' v' assume a: "(k, v) \<in> set ?own" "(k', v') \<in> set ?own" "po_Sport v = po_Sport v'"
    obtain w w' where "map_of ?pm k = Some w" "po_Sport v = po_Sport w" "map_of ?pm k' = Some w'" "po_Sport v' = po_Sport w'"
      using o1 mem[OF a(1)] mem[OF a(2)] unfolding owned_inv_def by blast
    then have "k = k'" using inv a(3) by metis
    then show "k = k' \<and> v = v'" using mem[OF a(1)] mem[OF a(2)] by simp
  qed
  moreover have "distinct ?own" using o1 by (auto simp: owned_inv_def distinct_map)
  ultimately have "distinct (map po_Sport (map snd ?own))" by (simp add: distinct_map)
  then have d: "distinct (map po_Sport (filter (\<lambda>v. po_Pid v \<noteq> []) (map snd ?own)))" by (rule distinct_map_filter)
  have own: "(\<exists>proto family resp r. diag (proto, family) = (resp, None) \<and> r \<in> set resp \<and> po_Sport p = nat_digits (si_sport (rs_id r)) \<and>
         po_Protocol p = nat_digits proto \<and> po_Inode p = nat_digits (rs_inode r)) \<and>
      (\<exists>q fds. q \<in> set ps \<and> pp_fds q = Some fds \<and> ''socket:['' @ po_Inode p @ '']'' \<in> set fds \<and> po_Pid p = pp_pid q)"
    if p: "(k, p) \<in> set ?own" "po_Pid p \<noteq> []" for k p
  proof -
    obtain v0 where v0: "map_of ?pm k = Some v0" "po_Sport p = po_Sport v0" "po_Inode p = po_Inode v0" "po_Protocol p = po_Protocol v0"
      "po_Pid p = po_Pid v0 \<or> (\<exists>q fds. q \<in> set ps \<and> pp_fds q = Some fds \<and> ''socket:['' @ k @ '']'' \<in> set fds \<and> po_Pid p = pp_pid q)"
      using o1 mem[OF p(1)] unfolding owned_inv_def by blast
    have k: "po_Inode p = k" using inv v0(1,3) by metis
    obtain proto family resp r where r: "diag (proto, family) = (resp, None)" "r \<in> set resp" "v0 = diag_port username seq proto r"
      using inv v0(1) by metis
    have "po_Sport v0 = nat_digits (si_sport (rs_id r))" "po_Protocol v0 = nat_digits proto" "po_Inode v0 = nat_digits (rs_inode r)"
      using r(3) by (simp_all add: diag_port_def)
    moreover have "\<exists>q fds. q \<in> set ps \<and> pp_fds q = Some fds \<and> ''socket:['' @ k @ '']'' \<in> set fds \<and> po_Pid p = pp_pid q"
      using v0(5) pid0[OF v0(1)] p(2) by metis
    ultimately show ?thesis using r v0 k by metis
  qed
  show ?thesis unfolding res using d own by auto
qed

definition small_resp :: inetDiagResp where
  "small_resp = demo_resp\<lparr>rs_id := (rs_id demo_resp)\<lparr>si_sport := 53\<rparr>, rs_inode := 7\<rparr>"

definition demo_diag :: "nat \<times> nat \<Rightarrow> inetDiagResp list \<times> string option" where
  "demo_diag pf = (if pf = (17, 2) then ([small_resp], None)
     else if pf = (6, 2) then ([small_resp\<lparr>rs_inode := 8\<rparr>], None) else ([], None))"

definition demo_owner :: port_proc where
  "demo_owner = \<lparr>pp_pid = ''42'', pp_fds = Some [''socket:[7]'', ''socket:[8]''], pp_exe = ''/usr/sbin/named'', pp_cmdline = [], pp_comm = ''named'',
     pp_envs = None\<rparr>"

lemma small_digits:
  "nat_digits 53 = ''53''" "nat_digits 17 = ''17''" "nat_digits 6 = ''6''" "nat_digits 7 = ''7''" "nat_digits 8 = ''8''"
  by code_simp+

lemma demo_ports:
  "map (\<lambda>p. (po_Sport p, po_Protocol p, po_Pid p)) (fst (ListeningPorts (\<lambda>_. []) ''s'' demo_diag (\<lambda>_. ([], True)) (Some [demo_owner]))) =
     [(''53'', ''17'', ''42'')]"
  by (simp add: ListeningPorts_def diag_ports_def demo_diag_def add_diag_def small_resp_def demo_resp_def diag_port_def small_digits
    empty_Port_def own_ports_def own_fd_def demo_owner_def socket_inode_def HasPrefix_def HasSuffix_def set_owner_def)

theorem ListeningPorts_sound_witness:
  "snd (diag_ports (\<lambda>_. []) ''s'' demo_diag) \<noteq> [] \<and>
   fst (ListeningPorts (\<lambda>_. []) ''s'' demo_diag (\<lambda>_. ([], True)) (Some [demo_owner])) \<noteq> [] \<and>
   distinct (map po_Sport (fst (ListeningPorts (\<lambda>_. []) ''s'' demo_diag (\<lambda>_. ([], True)) (Some [demo_owner]))))"
proof -
  have n: "snd (diag_ports (\<lambda>_. []) ''s'' demo_diag) \<noteq> []"
    by (simp add: diag_ports_def demo_diag_def add_diag_def small_resp_def demo_resp_def)
  show ?thesis using ListeningPorts_sound[OF n, of "\<lambda>_. ([], True)" "[demo_owner]"] n demo_ports by auto
qed

abbreviation same_empty :: "nat list \<times> (string, Port) gomap \<Rightarrow> bool" where
  "same_empty st \<equiv> (fst st = []) = (snd st = [])"

lemma add_diag_empty: "same_empty st \<Longrightarrow> same_empty (add_diag username seq proto st r)"
  by (cases st) (simp add: add_diag_def)

lemma diag_ports_empty: "same_empty (diag_ports username seq diag)"
proof -
  have "same_empty (foldl (add_diag username seq proto) st resp)" if "same_empty st" for proto st resp
    using that by (rule foldl_invariant[where P = same_empty]) (rule add_diag_empty)
  then show ?thesis unfolding diag_ports_def
    by (intro foldl_invariant[where P = same_empty]) (auto split: prod.splits option.splits)
qed

text \<open>A port number that UDP uses: every port kept under it is a UDP port.\<close>

definition udp_inv :: "nat \<Rightarrow> nat list \<times> (string, Port) gomap \<Rightarrow> bool" where
  "udp_inv s st \<longleftrightarrow> s \<in> set (fst st) \<and> (\<forall>k v. map_of (snd st) k = Some v \<longrightarrow> po_Sport v = nat_digits s \<longrightarrow> po_Protocol v = nat_digits 17)"

definition udp_only :: "nat list \<times> (string, Port) gomap \<Rightarrow> bool" where
  "udp_only st \<longleftrightarrow> (\<forall>k v. map_of (snd st) k = Some v \<longrightarrow> po_Protocol v = nat_digits 17)"

lemma add_diag_udp_inv: "udp_inv s st \<Longrightarrow> udp_inv s (add_diag username seq proto st r)"
  by (cases st) (auto simp: udp_inv_def add_diag_def diag_port_def nat_digits_inject)

lemma udp_inv_fold: "udp_inv s st \<Longrightarrow> udp_inv s (foldl (add_diag username seq proto) st resp)"
  by (rule foldl_invariant[where P = "udp_inv s"]) (auto intro: add_diag_udp_inv)

lemma udp_only_fold: "udp_only st \<Longrightarrow> udp_only (foldl (add_diag username seq 17) st resp)"
  by (rule foldl_invariant[where P = udp_only]) (auto simp: udp_only_def add_diag_def diag_port_def split: prod.splits)

lemma seen_fold: "r \<in> set resp \<Longrightarrow> si_sport (rs_id r) \<in> set (fst (foldl (add_diag username seq proto) st resp))"
proof (induction resp rule: rev_induct)
  case (snoc x xs)
  show ?case
  proof (cases "r = x")
    case True
    then show ?thesis by (auto simp: add_diag_def split: prod.splits)
  next
    case False
    then show ?thesis using snoc by (auto simp: add_diag_def split: prod.splits)
  qed
qed simp

text \<open>
  A TCP port disappears behind a UDP socket of the same number: if the kernel lists a UDP socket on it, the only port reported with
  that number is the UDP one, although another process may listen on the TCP port.
\<close>

theorem udp_hides_tcp:
  assumes udp: "diag (17, family) = (resp, None)" "family = 2 \<or> family = 10" "r \<in> set resp"
    and p: "p \<in> set (fst (ListeningPorts username seq diag net (Some ps)))" "po_Sport p = nat_digits (si_sport (rs_id r))"
  shows "po_Protocol p = ''17''"
proof -
  let ?s = "si_sport (rs_id r)"
  define stage where "stage st pf = (case pf of (proto, family) \<Rightarrow> case diag (proto, family) of
      (resp, None) \<Rightarrow> foldl (add_diag username seq proto) st resp | (resp, Some e) \<Rightarrow> st)" for st and pf :: "nat \<times> nat"
  have dp: "diag_ports username seq diag = stage (stage (stage (stage ([], []) (17, 2)) (17, 10)) (6, 2)) (6, 10)"
    by (simp only: diag_ports_def stage_def foldl.simps prod.case)
  have keep: "udp_inv ?s (stage st pf)" if "udp_inv ?s st" for st pf
    using that udp_inv_fold by (auto simp: stage_def split: prod.splits option.splits)
  have only: "udp_only (stage st (17, f))" if "udp_only st" for st f
    using that udp_only_fold by (auto simp: stage_def split: prod.splits option.splits)
  have start: "udp_inv ?s (stage st (17, family))" if "udp_only st" for st
    using udp_only_fold[OF that, of username seq resp] seen_fold[OF udp(3), of username seq 17 st] udp(1)
    by (simp add: stage_def udp_inv_def udp_only_def)
  have e: "udp_only ([], [])" by (simp add: udp_only_def)
  have "udp_inv ?s (stage (stage ([], []) (17, 2)) (17, 10))"
    using udp(2)
  proof
    assume "family = 2"
    then show ?thesis using keep[OF start[OF e]] by blast
  next
    assume "family = 10"
    then show ?thesis using start[OF only[OF e]] by blast
  qed
  then have u: "udp_inv ?s (diag_ports username seq diag)" unfolding dp by (rule keep[OF keep])
  then have ne: "snd (diag_ports username seq diag) \<noteq> []"
    using diag_ports_empty[of username seq diag] by (auto simp: udp_inv_def)
  have o1: "owned_inv ps (snd (diag_ports username seq diag)) (own_ports ps (snd (diag_ports username seq diag)))"
    using diag_ports_inv[of diag username seq] by (intro own_ports_inv) (simp add: ports_inv_def)
  obtain k where "(k, p) \<in> set (own_ports ps (snd (diag_ports username seq diag)))"
    using p(1) ne by (auto simp: ListeningPorts_def Let_def)
  then have "map_of (own_ports ps (snd (diag_ports username seq diag))) k = Some p" using o1 by (simp add: owned_inv_def map_of_Some_iff)
  then obtain v where "map_of (snd (diag_ports username seq diag)) k = Some v" "po_Sport p = po_Sport v" "po_Protocol p = po_Protocol v"
    using o1 unfolding owned_inv_def by blast
  then have "po_Protocol p = nat_digits 17" using u p(2) unfolding udp_inv_def by metis
  then show ?thesis by (simp add: small_digits)
qed

theorem udp_hides_tcp_witness:
  "list_all (\<lambda>p. po_Protocol p = ''17'') (fst (ListeningPorts (\<lambda>_. []) ''s'' demo_diag (\<lambda>_. ([], True)) (Some [demo_owner])))"
  unfolding list_all_iff
proof
  fix p assume p: "p \<in> set (fst (ListeningPorts (\<lambda>_. []) ''s'' demo_diag (\<lambda>_. ([], True)) (Some [demo_owner])))"
  have d: "demo_diag (17, 2) = ([small_resp], None)" by (simp add: demo_diag_def)
  have "(po_Sport p, po_Protocol p, po_Pid p) \<in> set [(''53'', ''17'', ''42'')]"
    using p unfolding demo_ports[symmetric] by force
  then have "po_Sport p = nat_digits (si_sport (rs_id small_resp))"
    by (simp add: small_resp_def small_digits)
  then show "po_Protocol p = ''17''" using udp_hides_tcp[OF d _ _ p, of small_resp] by simp
qed

end
