(* ===== verification/CollectorProc.thy ===== *)
theory CollectorProc
  imports CollectorPort
begin

text \<open>
  The processes of the collector plugin (\<open>plugins/collector/process/process.go\<close>, \<open>process.go\<close>): reading
  \<open>/proc\<close> and the record of a process.  The files, links, directories and inode numbers of the host, the user
  data base and the clock are a record given as a parameter; \<open>mapstructure.Decode\<close> and the resource figures of
  \<open>gopsutil\<close> are parameters.
\<close>

section \<open>Reading /proc\<close>

record host_view =
  hv_read :: "string \<Rightarrow> string option"
  hv_link :: "string \<Rightarrow> string option"
  hv_ino :: "string \<Rightarrow> nat option"
  hv_dir :: "string \<Rightarrow> string list option"
  hv_user :: "string \<Rightarrow> string"
  hv_group :: "string \<Rightarrow> string"
  hv_hertz :: int
  hv_btime :: int
  hv_page :: int
  hv_rpns :: string

record Process =
  pr_pid :: string
  pr_exe :: string
  pr_cmdline :: string
  pr_comm :: string

record ProcessStat =
  st_Comm :: string
  st_State :: string
  st_Ppid :: string
  st_Pgid :: string
  st_Sid :: string
  st_StartTime :: string

record ProcessCPU =
  cpu_Utime :: string
  cpu_Stime :: string
  cpu_Cutime :: string
  cpu_Cstime :: string
  cpu_Priority :: string
  cpu_Nice :: string

record ProcessMem =
  mem_RSS :: string
  mem_RSSLim :: string
  mem_Vsize :: string

record ProcessStatus =
  ps_Umask :: string
  ps_TracerPid :: string
  ps_Ruid :: string
  ps_Euid :: string
  ps_Suid :: string
  ps_Fsuid :: string
  ps_Rgid :: string
  ps_Egid :: string
  ps_Sgid :: string
  ps_Fsgid :: string
  ps_Rusername :: string
  ps_Eusername :: string
  ps_Susername :: string
  ps_Fsusername :: string
  ps_NsPid :: string
  ps_NsPgid :: string
  ps_NsSid :: string

record ProcessNamespace =
  ns_Diff :: string
  ns_Cgroup :: string
  ns_Ipc :: string
  ns_Mnt :: string
  ns_Net :: string
  ns_Pid :: string
  ns_Time :: string
  ns_User :: string
  ns_Uts :: string

definition proc_path :: "string \<Rightarrow> string \<Rightarrow> string" where
  "proc_path pid f = path_Join [''/proc'', pid, f]"

text \<open>A link is trimmed and remembered; an error comes with the empty text.\<close>

definition pr_Exe :: "host_view \<Rightarrow> Process \<Rightarrow> (string \<times> bool) \<times> Process" where
  "pr_Exe h p =
     (if pr_exe p \<noteq> [] then ((pr_exe p, False), p)
      else (case hv_link h (proc_path (pr_pid p) ''exe'') of
              None \<Rightarrow> (([], True), p\<lparr>pr_exe := []\<rparr>)
            | Some l \<Rightarrow> ((TrimSpace l, False), p\<lparr>pr_exe := TrimSpace l\<rparr>)))"

definition pr_Cmdline :: "host_view \<Rightarrow> Process \<Rightarrow> (string \<times> bool) \<times> Process" where
  "pr_Cmdline h p =
     (if pr_cmdline p \<noteq> [] then ((pr_cmdline p, False), p)
      else (case hv_read h (proc_path (pr_pid p) ''cmdline'') of
              None \<Rightarrow> (([], True), p)
            | Some c \<Rightarrow>
                let r = take 1024 (TrimSpace (map (\<lambda>x. if x = NUL then CHR '' '' else x) c))
                in ((r, False), p\<lparr>pr_cmdline := r\<rparr>)))"

definition pr_Comm :: "host_view \<Rightarrow> Process \<Rightarrow> (string \<times> bool) \<times> Process" where
  "pr_Comm h p =
     (case hv_read h (proc_path (pr_pid p) ''comm'') of
        None \<Rightarrow> (([], True), p)
      | Some d \<Rightarrow> ((TrimSpace d, False), p\<lparr>pr_comm := TrimSpace d\<rparr>))"

definition pr_Cwd :: "host_view \<Rightarrow> Process \<Rightarrow> string" where
  "pr_Cwd h p = (case hv_link h (proc_path (pr_pid p) ''cwd'') of None \<Rightarrow> [] | Some l \<Rightarrow> TrimSpace l)"

text \<open>The entries of \<open>/proc\<close> whose name is a 32-bit number; without \<open>wk\<close> only those whose executable can be read.\<close>

definition is_int32 :: "string \<Rightarrow> bool" where
  "is_int32 s \<longleftrightarrow> (case ParseInt s of (n, e) \<Rightarrow> e = None \<and> - (2 ^ 31) \<le> n \<and> n < 2 ^ 31)"

definition Processes :: "host_view \<Rightarrow> bool \<Rightarrow> Process list option" where
  "Processes h wk =
     map_option (\<lambda>names. concat (map (\<lambda>n.
         let p = \<lparr>pr_pid = n, pr_exe = [], pr_cmdline = [], pr_comm = []\<rparr>
         in if \<not> is_int32 n then [] else if wk then [p]
            else (case pr_Exe h p of ((r, err), p') \<Rightarrow> if err then [] else [p'])) names)) (hv_dir h ''/proc'')"

abbreviation stat_fields :: "host_view \<Rightarrow> Process \<Rightarrow> string list option" where
  "stat_fields h p \<equiv> map_option Fields (hv_read h (proc_path (pr_pid p) ''stat''))"

definition trim_parens :: "string \<Rightarrow> string" where
  "trim_parens s = (let par = (\<lambda>c. c = CHR ''('' \<or> c = CHR '')'') in rev (dropWhile par (rev (dropWhile par s))))"

definition pr_Stat :: "host_view \<Rightarrow> Process \<Rightarrow> ProcessStat option" where
  "pr_Stat h p =
     map_option (\<lambda>f.
       if 24 < length f
       then \<lparr>st_Comm = trim_parens (f ! 1), st_State = f ! 2, st_Ppid = f ! 3, st_Pgid = f ! 4, st_Sid = f ! 5,
          st_StartTime = (case ParseInt (f ! 21) of (n, e) \<Rightarrow>
             if e = None then Itoa (wrap64 (sgn n * (\<bar>n\<bar> div hv_hertz h) + hv_btime h)) else [])\<rparr>
       else \<lparr>st_Comm = [], st_State = [], st_Ppid = [], st_Pgid = [], st_Sid = [], st_StartTime = []\<rparr>) (stat_fields h p)"

text \<open>Eighteen fields pass the test of the length, and the nineteenth is then read: a panic (\<open>Inl ()\<close>).\<close>

definition pr_CPU :: "host_view \<Rightarrow> Process \<Rightarrow> (unit + ProcessCPU) option" where
  "pr_CPU h p =
     map_option (\<lambda>f.
       if 17 < length f then
         (if length f = 18 then Inl ()
          else Inr \<lparr>cpu_Utime = f ! 13, cpu_Stime = f ! 14, cpu_Cutime = f ! 15, cpu_Cstime = f ! 16, cpu_Priority = f ! 17, cpu_Nice = f ! 18\<rparr>)
       else Inr \<lparr>cpu_Utime = [], cpu_Stime = [], cpu_Cutime = [], cpu_Cstime = [], cpu_Priority = [], cpu_Nice = []\<rparr>) (stat_fields h p)"

definition pr_Mem :: "host_view \<Rightarrow> Process \<Rightarrow> ProcessMem option" where
  "pr_Mem h p =
     map_option (\<lambda>f.
       if 23 < length f
       then \<lparr>mem_RSS = (case ParseInt (f ! 22) of (n, e) \<Rightarrow> if e = None then Itoa (wrap64 (n * hv_page h)) else []),
          mem_RSSLim = f ! 21, mem_Vsize = f ! 20\<rparr>
       else \<lparr>mem_RSS = [], mem_RSSLim = [], mem_Vsize = []\<rparr>) (stat_fields h p)"

text \<open>One line of the status file: key and values are separated by tabulators.\<close>

definition status_line :: "host_view \<Rightarrow> ProcessStatus \<Rightarrow> string \<Rightarrow> ProcessStatus" where
  "status_line h s line =
     (let f = FieldsBy (CHR 0x09) line
      in if length f < 2 then s
         else if f ! 0 = ''Umask:'' then s\<lparr>ps_Umask := f ! 1\<rparr>
         else if f ! 0 = ''TracerPid:'' then s\<lparr>ps_TracerPid := f ! 1\<rparr>
         else if f ! 0 = ''Uid:'' then
           (if length f < 5 then s
            else s\<lparr>ps_Ruid := f ! 1, ps_Rusername := hv_user h (f ! 1), ps_Euid := f ! 2, ps_Eusername := hv_user h (f ! 2),
                   ps_Suid := f ! 3, ps_Susername := hv_user h (f ! 3), ps_Fsuid := f ! 4, ps_Fsusername := hv_user h (f ! 4)\<rparr>)
         else if f ! 0 = ''Gid:'' then
           (if length f < 5 then s
            else s\<lparr>ps_Rgid := f ! 1, ps_Rusername := hv_group h (f ! 1), ps_Egid := f ! 2, ps_Eusername := hv_group h (f ! 2),
                   ps_Sgid := f ! 3, ps_Susername := hv_group h (f ! 3), ps_Fsgid := f ! 4, ps_Fsusername := hv_group h (f ! 4)\<rparr>)
         else if f ! 0 = ''NSpid:'' then s\<lparr>ps_NsPid := f ! 1\<rparr>
         else if f ! 0 = ''NSpgid:'' then s\<lparr>ps_NsPgid := f ! 1\<rparr>
         else if f ! 0 = ''NSsid:'' then s\<lparr>ps_NsSid := f ! 1\<rparr>
         else s)"

definition empty_status :: ProcessStatus where
  "empty_status = \<lparr>ps_Umask = [], ps_TracerPid = [], ps_Ruid = [], ps_Euid = [], ps_Suid = [], ps_Fsuid = [], ps_Rgid = [], ps_Egid = [],
     ps_Sgid = [], ps_Fsgid = [], ps_Rusername = [], ps_Eusername = [], ps_Susername = [], ps_Fsusername = [], ps_NsPid = [], ps_NsPgid = [],
     ps_NsSid = []\<rparr>"

definition pr_Status :: "host_view \<Rightarrow> Process \<Rightarrow> ProcessStatus option" where
  "pr_Status h p =
     map_option (\<lambda>c. foldl (status_line h) empty_status (FieldsBy (CHR 0x0A) c)) (hv_read h (proc_path (pr_pid p) ''status''))"

text \<open>The namespaces are read until one cannot be; the result is used all the same.\<close>

definition set_ns :: "ProcessNamespace \<Rightarrow> string \<Rightarrow> string \<Rightarrow> ProcessNamespace" where
  "set_ns n k v =
     (if k = ''cgroup'' then n\<lparr>ns_Cgroup := v\<rparr> else if k = ''ipc'' then n\<lparr>ns_Ipc := v\<rparr> else if k = ''mnt'' then n\<lparr>ns_Mnt := v\<rparr>
      else if k = ''net'' then n\<lparr>ns_Net := v\<rparr> else if k = ''pid'' then n\<lparr>ns_Pid := v\<rparr> else if k = ''user'' then n\<lparr>ns_User := v\<rparr>
      else if k = ''uts'' then n\<lparr>ns_Uts := v\<rparr> else n)"

fun ns_loop :: "host_view \<Rightarrow> string \<Rightarrow> string list \<Rightarrow> ProcessNamespace \<Rightarrow> ProcessNamespace \<times> bool" where
  "ns_loop h pid [] n = (n, False)"
| "ns_loop h pid (k # ks) n =
     (case hv_ino h (path_Join [''/proc'', pid, ''ns'', k]) of
        None \<Rightarrow> (n, True)
      | Some i \<Rightarrow> ns_loop h pid ks (set_ns n k (nat_digits i)))"

definition empty_ns :: ProcessNamespace where
  "empty_ns = \<lparr>ns_Diff = [], ns_Cgroup = [], ns_Ipc = [], ns_Mnt = [], ns_Net = [], ns_Pid = [], ns_Time = [], ns_User = [], ns_Uts = []\<rparr>"

definition pr_Namespaces :: "host_view \<Rightarrow> Process \<Rightarrow> ProcessNamespace \<times> bool" where
  "pr_Namespaces h p =
     (case hv_ino h (path_Join [''/proc'', pr_pid p, ''ns'']) of
        None \<Rightarrow> (empty_ns, True)
      | Some i \<Rightarrow>
          (case ns_loop h (pr_pid p) [''cgroup'', ''ipc'', ''mnt'', ''net'', ''pid'', ''user'', ''uts''] empty_ns of (n, err) \<Rightarrow>
             (n\<lparr>ns_Diff := (if ns_Pid n = hv_rpns h then ''false'' else ''true'')\<rparr>, err)))"

text \<open>The environment: an entry with more than one equals sign is dropped.\<close>

definition pr_Envs :: "host_view \<Rightarrow> Process \<Rightarrow> (string, string) gomap option" where
  "pr_Envs h p =
     map_option (\<lambda>c.
       let es = Split c [NUL]; ts = takeWhile (\<lambda>e. length e < 65536) (if last es = [] then butlast es else es)
       in foldl (\<lambda>m e. case Split e ''='' of [k, v] \<Rightarrow> mput m k v | _ \<Rightarrow> m) [] ts) (hv_read h (proc_path (pr_pid p) ''environ''))"

text \<open>At most 1024 descriptors, an empty directory being an error; links that cannot be read are skipped.\<close>

definition pr_Fds :: "host_view \<Rightarrow> Process \<Rightarrow> string list option" where
  "pr_Fds h p =
     (case hv_dir h (proc_path (pr_pid p) ''fd'') of
        None \<Rightarrow> None
      | Some names \<Rightarrow>
          if names = [] then None
          else Some (concat (map (\<lambda>n. case hv_link h (path_Join [''/proc'', pr_pid p, ''fd'', n]) of None \<Rightarrow> [] | Some l \<Rightarrow> [TrimSpace l])
            (take 1024 names))))"

section \<open>The record of a process\<close>

text \<open>
  The checksum and the hash of an executable and the CPU and memory figures of a process, already as text, and the
  usage of the whole host.
\<close>

record proc_measures =
  pm_md5 :: "string \<Rightarrow> string"
  pm_hash :: "string \<Rightarrow> string"
  pm_usage :: "string \<Rightarrow> string \<times> string"
  pm_host_cpu :: "string option"
  pm_host_mem :: "string option"

definition stat_tags :: "ProcessStat \<Rightarrow> (string \<times> string) list" where
  "stat_tags s = [(''comm'', st_Comm s), (''state'', st_State s), (''ppid'', st_Ppid s), (''pgid'', st_Pgid s), (''sid'', st_Sid s),
     (''start_time'', st_StartTime s)]"

definition status_tags :: "ProcessStatus \<Rightarrow> (string \<times> string) list" where
  "status_tags s = [(''umask'', ps_Umask s), (''tcpid'', ps_TracerPid s), (''ruid'', ps_Ruid s), (''euid'', ps_Euid s), (''suid'', ps_Suid s),
     (''fsuid'', ps_Fsuid s), (''rgid'', ps_Rgid s), (''egid'', ps_Egid s), (''sgid'', ps_Sgid s), (''fsgid'', ps_Fsgid s),
     (''rusername'', ps_Rusername s), (''eusername'', ps_Eusername s), (''susername'', ps_Susername s), (''fsusername'', ps_Fsusername s),
     (''nspid'', ps_NsPid s), (''nspgid'', ps_NsPgid s), (''nssid'', ps_NsSid s)]"

definition ns_tags :: "ProcessNamespace \<Rightarrow> (string \<times> string) list" where
  "ns_tags n = [(''dns'', ns_Diff n), (''cns'', ns_Cgroup n), (''ins'', ns_Ipc n), (''mns'', ns_Mnt n), (''nns'', ns_Net n), (''pns'', ns_Pid n),
     (''tns'', ns_Time n), (''uns'', ns_User n), (''utns'', ns_Uts n)]"

abbreviation field :: "(string, string) gomap \<Rightarrow> string \<Rightarrow> string" where
  "field m k \<equiv> (case map_of m k of None \<Rightarrow> [] | Some v \<Rightarrow> v)"

definition process_record ::
  "map_decoder \<Rightarrow> host_view \<Rightarrow> proc_measures \<Rightarrow> eng_Cache \<Rightarrow> int \<Rightarrow> string \<Rightarrow> string \<Rightarrow> Process \<Rightarrow> col_record option" where
  "process_record decode h pm cache now stamp seq p0 =
     (case pr_Cmdline h p0 of ((cmdline, err), p) \<Rightarrow>
        (case (err, pr_Stat h p, pr_Status h p) of
           (False, Some stat, Some status) \<Rightarrow>
             (let ns = fst (pr_Namespaces h p); exe = fst (fst (pr_Exe h p)); (cid, cname) = process_container cache (ns_Pid ns);
                  f0 = [(''seq'', stamp), (''cmdline'', cmdline), (''cwd'', pr_Cwd h p), (''checksum'', pm_md5 pm exe),
                        (''exe_hash'', pm_hash pm exe), (''exe'', exe), (''pid'', pr_pid p), (''cpu'', fst (pm_usage pm (pr_pid p))),
                        (''mem'', snd (pm_usage pm (pr_pid p)))];
                  f1 = decode (ns_tags ns) (decode (status_tags status) (decode (stat_tags stat) f0));
                  f2 = mput (mput (mput f1 ''container_id'' cid) ''container_name'' cname) ''integrity'' ''true'';
                  f3 = (if snd (Cache_Get cache 5057 (field f2 ''exe'')) \<and> field f2 ''container_id'' = []
                        then mput f2 ''integrity'' ''false'' else f2)
              in Some \<lparr>cr_DataType = 5050, cr_Timestamp = now, cr_Fields = mput f3 ''package_seq'' seq\<rparr>)
         | _ \<Rightarrow> None))"

definition ProcessHandler_Handle ::
  "map_decoder \<Rightarrow> host_view \<Rightarrow> proc_measures \<Rightarrow> eng_Cache \<Rightarrow> int \<Rightarrow> string \<Rightarrow> string \<Rightarrow> col_record list" where
  "ProcessHandler_Handle decode h pm cache now stamp seq =
     (case Processes h False of
        None \<Rightarrow> []
      | Some procs \<Rightarrow>
          \<lparr>cr_DataType = 50501, cr_Timestamp = now, cr_Fields =
             [(''seq'', stamp)] @ (case pm_host_cpu pm of None \<Rightarrow> [] | Some c \<Rightarrow> [(''cpu_usage'', c)]) @
             (case pm_host_mem pm of None \<Rightarrow> [] | Some m \<Rightarrow> [(''mem_usage'', m)])\<rparr>
          # concat (map (\<lambda>p. case process_record decode h pm cache now stamp seq p of None \<Rightarrow> [] | Some r \<Rightarrow> [r]) procs))"

text \<open>What is relied on of the decoder: it leaves alone the keys that are no tags of the structure.\<close>

definition decodes_only :: "map_decoder \<Rightarrow> bool" where
  "decodes_only decode \<longleftrightarrow> (\<forall>tags m k. k \<notin> fst ` set tags \<longrightarrow> map_of (decode tags m) k = map_of m k)"

lemma decode_keeps: "decodes_only decode \<Longrightarrow> k \<notin> fst ` set tags \<Longrightarrow> map_of (decode tags m) k = map_of m k"
  by (simp add: decodes_only_def)

lemma process_record_integrity:
  assumes dec: "decodes_only decode" and r: "process_record decode h pm cache now stamp seq p = Some rec"
    and exe: "exe = fst (fst (pr_Exe h (snd (pr_Cmdline h p))))"
    and cid: "cid = fst (process_container cache (ns_Pid (fst (pr_Namespaces h (snd (pr_Cmdline h p))))))"
  shows "map_of (cr_Fields rec) ''exe'' = Some exe \<and> map_of (cr_Fields rec) ''integrity'' =
    Some (if snd (Cache_Get cache 5057 exe) \<and> cid = [] then ''false'' else ''true'')"
proof -
  obtain cmdline err p' where c: "pr_Cmdline h p = ((cmdline, err), p')" by (metis prod.collapse)
  obtain cname where pc: "process_container cache (ns_Pid (fst (pr_Namespaces h p'))) = (cid, cname)"
    using cid c by (metis prod.collapse snd_conv)
  have k: "map_of (decode (ns_tags a) (decode (status_tags b) (decode (stat_tags d) m))) ''exe'' = map_of m ''exe''" for a b d m
    by (simp add: decode_keeps[OF dec] ns_tags_def status_tags_def stat_tags_def)
  show ?thesis using r exe c pc
    by (auto simp: process_record_def Let_def k split: option.splits bool.splits)
qed

section \<open>User names\<close>

lemma status_line_names:
  assumes "FieldsBy (CHR 0x09) l = [] \<or> hd (FieldsBy (CHR 0x09) l) \<notin> {''Uid:'', ''Gid:''}"
  shows "ps_Rusername (status_line h s l) = ps_Rusername s \<and> ps_Eusername (status_line h s l) = ps_Eusername s \<and>
    ps_Susername (status_line h s l) = ps_Susername s \<and> ps_Fsusername (status_line h s l) = ps_Fsusername s \<and>
    ps_Ruid (status_line h s l) = ps_Ruid s \<and> ps_Euid (status_line h s l) = ps_Euid s"
  using assms by (cases "FieldsBy (CHR 0x09) l") (simp_all add: status_line_def Let_def)

lemma status_lines_names:
  assumes "\<And>l. l \<in> set ls \<Longrightarrow> FieldsBy (CHR 0x09) l = [] \<or> hd (FieldsBy (CHR 0x09) l) \<notin> {''Uid:'', ''Gid:''}"
  shows "ps_Rusername (foldl (status_line h) s ls) = ps_Rusername s \<and> ps_Eusername (foldl (status_line h) s ls) = ps_Eusername s \<and>
    ps_Susername (foldl (status_line h) s ls) = ps_Susername s \<and> ps_Fsusername (foldl (status_line h) s ls) = ps_Fsusername s \<and>
    ps_Ruid (foldl (status_line h) s ls) = ps_Ruid s \<and> ps_Euid (foldl (status_line h) s ls) = ps_Euid s"
  using assms
proof (induction ls arbitrary: s)
  case (Cons l ls)
  have "FieldsBy (CHR 0x09) l = [] \<or> hd (FieldsBy (CHR 0x09) l) \<notin> {''Uid:'', ''Gid:''}" using Cons.prems by simp
  from status_line_names[OF this, of h s] show ?case using Cons.IH[of "status_line h s l"] Cons.prems by simp
qed simp

text \<open>
  A process is reported with the names of its groups where the names of its users belong: in a status file as the kernel writes it, with
  the line of the groups behind that of the users, all four user names of the result are those of the group numbers,
  while the user numbers are right.
\<close>

theorem usernames_are_groups:
  assumes f: "hv_read h (proc_path (pr_pid p) ''status'') = Some c"
    and c: "FieldsBy (CHR 0x0A) c = pre @ [u, g] @ post"
    and u: "FieldsBy (CHR 0x09) u = [''Uid:'', u1, u2, u3, u4]" and g: "FieldsBy (CHR 0x09) g = [''Gid:'', g1, g2, g3, g4]"
    and rest: "\<And>l. l \<in> set post \<Longrightarrow> FieldsBy (CHR 0x09) l = [] \<or> hd (FieldsBy (CHR 0x09) l) \<notin> {''Uid:'', ''Gid:''}"
  shows "\<exists>s. pr_Status h p = Some s \<and> ps_Ruid s = u1 \<and> ps_Euid s = u2 \<and>
    ps_Rusername s = hv_group h g1 \<and> ps_Eusername s = hv_group h g2 \<and> ps_Susername s = hv_group h g3 \<and> ps_Fsusername s = hv_group h g4"
proof -
  let ?s = "foldl (status_line h) empty_status pre"
  let ?t = "status_line h (status_line h ?s u) g"
  have t: "ps_Rusername ?t = hv_group h g1 \<and> ps_Eusername ?t = hv_group h g2 \<and> ps_Susername ?t = hv_group h g3 \<and>
      ps_Fsusername ?t = hv_group h g4 \<and> ps_Ruid ?t = u1 \<and> ps_Euid ?t = u2"
    by (simp add: status_line_def u g Let_def)
  have "pr_Status h p = Some (foldl (status_line h) ?t post)" using f c by (simp add: pr_Status_def)
  then show ?thesis using t status_lines_names[OF rest, where h = h and s = ?t] by simp
qed

definition demo_status :: string where
  "demo_status = Join [Join [''Uid:'', ''0'', ''0'', ''0'', ''0''] [CHR 0x09], Join [''Gid:'', ''5'', ''5'', ''5'', ''5''] [CHR 0x09], []] [CHR 0x0A]"

definition demo_view :: host_view where
  "demo_view = \<lparr>hv_read = (\<lambda>_. Some demo_status), hv_link = (\<lambda>_. None), hv_ino = (\<lambda>_. None), hv_dir = (\<lambda>_. None), hv_user = (\<lambda>_. ''root''),
     hv_group = (\<lambda>_. ''tty''), hv_hertz = 100, hv_btime = 0, hv_page = 4096, hv_rpns = []\<rparr>"

theorem usernames_are_groups_witness:
  "\<exists>s. pr_Status demo_view \<lparr>pr_pid = ''1'', pr_exe = [], pr_cmdline = [], pr_comm = []\<rparr> = Some s \<and> ps_Ruid s = ''0'' \<and> ps_Rusername s = ''tty''"
proof -
  let ?u = "Join [''Uid:'', ''0'', ''0'', ''0'', ''0''] [CHR 0x09]" and ?g = "Join [''Gid:'', ''5'', ''5'', ''5'', ''5''] [CHR 0x09]"
  let ?p = "\<lparr>pr_pid = ''1'', pr_exe = [], pr_cmdline = [], pr_comm = []\<rparr>"
  have c: "FieldsBy (CHR 0x0A) demo_status = [] @ [?u, ?g] @ []" by code_simp
  have f: "hv_read demo_view (proc_path (pr_pid ?p) ''status'') = Some demo_status" by (simp add: demo_view_def)
  have u: "FieldsBy (CHR 0x09) ?u = [''Uid:'', ''0'', ''0'', ''0'', ''0'']" and g: "FieldsBy (CHR 0x09) ?g = [''Gid:'', ''5'', ''5'', ''5'', ''5'']"
    by code_simp+
  show ?thesis using usernames_are_groups[OF f c u g] by (auto simp: demo_view_def)
qed

end
