(* ===== verification/CollectorRpm.thy ===== *)
theory CollectorRpm
  imports GoHost
begin

text \<open>
  The RPM database reader of the collector plugin (\<open>plugins/collector/rpm/rpm.go\<close>): the Berkeley DB hash
  pages of \<open>/var/lib/rpm/Packages\<close>, the chains of overflow pages and the header of a package.  A file is its
  bytes; a read past its end is an error, an index out of range a panic, and the loop over a chain of pages,
  which may run for ever, a partial function.  Memory is unbounded.  The lemmas show the round trip of
  the decoders of a header, that an intact chain is read completely, and that a chain which meets a page of another
  type is read for ever.
\<close>

section \<open>Pages and entries\<close>

record GenericMetadataPageHeader =
  md_LSN :: string
  md_PageNo :: nat
  md_Magic :: nat
  md_Version :: nat
  md_PageSize :: nat
  md_EncryptionAlg :: nat
  md_PageType :: nat
  md_MetaFlags :: nat
  md_Unused1 :: nat
  md_Free :: nat
  md_LastPageNo :: nat
  md_NParts :: nat
  md_KeyCount :: nat
  md_RecordCount :: nat
  md_Flags :: nat
  md_UniqueFileID :: string

record HashMetadataPage = GenericMetadataPageHeader +
  md_MaxBucket :: nat
  md_HighMask :: nat
  md_LowMask :: nat
  md_FillFactor :: nat
  md_NumKeys :: nat
  md_CharKeyHash :: nat

record HashPageHeader =
  ph_LSN :: string
  ph_PageNo :: nat
  ph_PreviousPageNo :: nat
  ph_NextPageNo :: nat
  ph_NumEntries :: nat
  ph_FreeAreaOffset :: nat
  ph_TreeLevel :: nat
  ph_PageType :: nat

record HashOffPageEntry =
  oe_PageType :: nat
  oe_PageNo :: nat
  oe_Length :: nat

record RPMEntryInfo =
  ei_Tag :: int
  ei_Type :: nat
  ei_Offset :: int
  ei_Count :: nat

record rpm_FileInfo =
  rf_Path :: string
  rf_Digest :: string

record rpm_Package =
  rp_Epoch :: int
  rp_Name :: string
  rp_Version :: string
  rp_Release :: string
  rp_Arch :: string
  rp_SourceRpm :: string
  rp_Size :: int
  rp_License :: string
  rp_Vendor :: string
  rp_DigestAlgorithm :: int
  rp_Files :: "rpm_FileInfo list"

record rpm_Database =
  db_metadata :: HashMetadataPage
  db_file :: string
  db_pos :: nat

text \<open>The fields of a structure, read by \<open>binary.Read\<close> from bytes that are long enough.\<close>

abbreviation le_at :: "nat \<Rightarrow> nat \<Rightarrow> string \<Rightarrow> nat" where
  "le_at off n b \<equiv> le_val (take n (drop off b))"

definition read_metadata :: "string \<Rightarrow> read_error + HashMetadataPage" where
  "read_metadata f =
     (case ReadFull_at f 0 95 of
        Inl e \<Rightarrow> Inl e
      | Inr b \<Rightarrow> Inr \<lparr>md_LSN = take 8 b, md_PageNo = le_at 8 4 b, md_Magic = le_at 12 4 b, md_Version = le_at 16 4 b,
          md_PageSize = le_at 20 4 b, md_EncryptionAlg = le_at 24 1 b, md_PageType = le_at 25 1 b,
          md_MetaFlags = le_at 26 1 b, md_Unused1 = le_at 27 1 b, md_Free = le_at 28 4 b, md_LastPageNo = le_at 32 4 b,
          md_NParts = le_at 36 4 b, md_KeyCount = le_at 40 4 b, md_RecordCount = le_at 44 4 b, md_Flags = le_at 48 4 b,
          md_UniqueFileID = take 19 (drop 52 b), md_MaxBucket = le_at 71 4 b, md_HighMask = le_at 75 4 b,
          md_LowMask = le_at 79 4 b, md_FillFactor = le_at 83 4 b, md_NumKeys = le_at 87 4 b, md_CharKeyHash = le_at 91 4 b\<rparr>)"

definition read_page_header :: "string \<Rightarrow> read_error + HashPageHeader" where
  "read_page_header pd =
     (case ReadFull_at pd 0 26 of
        Inl e \<Rightarrow> Inl e
      | Inr b \<Rightarrow> Inr \<lparr>ph_LSN = take 8 b, ph_PageNo = le_at 8 4 b, ph_PreviousPageNo = le_at 12 4 b,
          ph_NextPageNo = le_at 16 4 b, ph_NumEntries = le_at 20 2 b, ph_FreeAreaOffset = le_at 22 2 b,
          ph_TreeLevel = le_at 24 1 b, ph_PageType = le_at 25 1 b\<rparr>)"

definition read_off_entry :: "string \<Rightarrow> nat \<Rightarrow> read_error + HashOffPageEntry" where
  "read_off_entry pd index =
     (case ReadFull_at pd index 12 of
        Inl e \<Rightarrow> Inl e
      | Inr b \<Rightarrow> Inr \<lparr>oe_PageType = le_at 0 1 b, oe_PageNo = le_at 4 4 b, oe_Length = le_at 8 4 b\<rparr>)"

abbreviation be_at :: "nat \<Rightarrow> string \<Rightarrow> nat" where
  "be_at off b \<equiv> be_val (take 4 (drop off b))"

definition entry_of :: "string \<Rightarrow> RPMEntryInfo" where
  "entry_of b = \<lparr>ei_Tag = wrap32 (int (be_at 0 b)), ei_Type = be_at 4 b, ei_Offset = wrap32 (int (be_at 8 b)), ei_Count = be_at 12 b\<rparr>"

section \<open>Values of a header\<close>

definition DigestAlgorithm_String :: "int \<Rightarrow> string" where
  "DigestAlgorithm_String d =
     (if d = 1 then ''md5'' else if d = 2 then ''sha1'' else if d = 3 then ''ripemd160'' else if d = 5 then ''md2''
      else if d = 6 then ''tiger192'' else if d = 7 then ''haval-5-160'' else if d = 8 then ''sha256''
      else if d = 9 then ''sha384'' else if d = 10 then ''sha512'' else if d = 11 then ''sha224''
      else ''unknown-digest-algorithm'')"

definition decodeStringArray :: "string \<Rightarrow> string list" where
  "decodeStringArray dt =
     (let elements = Split dt [NUL] in if elements \<noteq> [] \<and> last elements = [] then butlast elements else elements)"

fun decodeInt32Array :: "string \<Rightarrow> int list" where
  "decodeInt32Array (a # b # c # d # r) = wrap32 (int (be_val [a, b, c, d])) # decodeInt32Array r"
| "decodeInt32Array r = []"

text \<open>A directory index outside of the names panics.\<close>

fun join_loop :: "string list \<Rightarrow> string list \<Rightarrow> (string \<times> int) list \<Rightarrow> rpm_FileInfo list option" where
  "join_loop dirNames digests [] = Some []"
| "join_loop dirNames digests ((bn, ix) # r) =
     (if 0 \<le> ix \<and> ix < int (length dirNames)
      then map_option ((#) \<lparr>rf_Path = path_Join [dirNames ! nat ix, bn], rf_Digest = (case digests of [] \<Rightarrow> [] | d # ds \<Rightarrow> d)\<rparr>)
             (join_loop dirNames (drop 1 digests) r)
      else None)"

definition joinFiles :: "string list \<Rightarrow> string list \<Rightarrow> string list \<Rightarrow> int list \<Rightarrow> rpm_FileInfo list option" where
  "joinFiles dirNames baseNames digests dirIndexes =
     (if dirNames = [] \<or> baseNames = [] \<or> dirIndexes = [] \<or> length dirIndexes \<noteq> length baseNames
         \<or> length dirNames > length baseNames
      then Some []
      else join_loop dirNames digests (zip baseNames dirIndexes))"

text \<open>The package under construction; a tag of an unexpected type or too short a number ends the loop over the tags (None).\<close>

record tag_state =
  ts_p :: rpm_Package
  ts_dirNames :: "string list"
  ts_baseNames :: "string list"
  ts_digests :: "string list"
  ts_dirIndexes :: "int list"

definition none_empty :: "string \<Rightarrow> string" where
  "none_empty s = (if s = ''(none)'' then [] else s)"

abbreviation (input) STRING :: nat where "STRING \<equiv> 6"
abbreviation (input) STRING_ARRAY :: nat where "STRING_ARRAY \<equiv> 8"
abbreviation (input) INT32 :: nat where "INT32 \<equiv> 4"

definition read_int32 :: "string \<Rightarrow> int option" where
  "read_int32 edt = (case ReadFull_at edt 0 4 of Inl e \<Rightarrow> None | Inr b \<Rightarrow> Some (wrap32 (int (be_val b))))"

definition rpm_tag :: "tag_state \<Rightarrow> RPMEntryInfo \<Rightarrow> string \<Rightarrow> tag_state option" where
  "rpm_tag st ei edt =
     (let t = ei_Tag ei; ty = ei_Type ei; s = TrimRightByte NUL edt;
          upd = (\<lambda>f. Some (st\<lparr>ts_p := f (ts_p st)\<rparr>));
          str = (\<lambda>f. if ty \<noteq> STRING then None else upd f);
          num = (\<lambda>f. if ty \<noteq> INT32 then None else (case read_int32 edt of None \<Rightarrow> None | Some i \<Rightarrow> upd (f i)))
      in if t = 1116 then (if ty \<noteq> INT32 then None else Some (st\<lparr>ts_dirIndexes := decodeInt32Array edt\<rparr>))
         else if t = 1118 then (if ty \<noteq> STRING_ARRAY then None else Some (st\<lparr>ts_dirNames := decodeStringArray edt\<rparr>))
         else if t = 1117 then (if ty \<noteq> STRING_ARRAY then None else Some (st\<lparr>ts_baseNames := decodeStringArray edt\<rparr>))
         else if t = 1000 then str (rp_Name_update (\<lambda>_. s))
         else if t = 1003 then num (\<lambda>i. rp_Epoch_update (\<lambda>_. i))
         else if t = 1001 then str (rp_Version_update (\<lambda>_. s))
         else if t = 1002 then str (rp_Release_update (\<lambda>_. s))
         else if t = 1022 then str (rp_Arch_update (\<lambda>_. s))
         else if t = 1044 then str (rp_SourceRpm_update (\<lambda>_. none_empty s))
         else if t = 1014 then str (rp_License_update (\<lambda>_. none_empty s))
         else if t = 1011 then str (rp_Vendor_update (\<lambda>_. none_empty s))
         else if t = 1009 then num (\<lambda>i. rp_Size_update (\<lambda>_. i))
         else if t = 5011 then num (\<lambda>i. rp_DigestAlgorithm_update (\<lambda>_. i))
         else if t = 1035 then (if ty \<noteq> STRING_ARRAY then None else Some (st\<lparr>ts_digests := decodeStringArray edt\<rparr>))
         else Some st)"

text \<open>
  The loop over the entries: the data of an entry ends where the next one begins, that of the last at \<open>dl\<close>.
  \<open>dt\<close> is the rest of the buffer with its spare capacity, against which Go checks the bounds.
\<close>

fun tags_loop :: "string \<Rightarrow> nat \<Rightarrow> RPMEntryInfo list \<Rightarrow> tag_state \<Rightarrow> tag_state option" where
  "tags_loop dt dl [] st = Some st"
| "tags_loop dt dl (ei # eis) st =
     (case go_slice dt (ei_Offset ei) (case eis of [] \<Rightarrow> int dl | ej # ejs \<Rightarrow> ei_Offset ej) of
        None \<Rightarrow> None
      | Some edt \<Rightarrow> (case rpm_tag st ei edt of None \<Rightarrow> Some st | Some st' \<Rightarrow> tags_loop dt dl eis st'))"


section \<open>Walking the database\<close>

text \<open>How a walk ends early: with an error or with a panic.\<close>

datatype walk_stop = WalkErr read_error | WalkPanic

definition empty_tag_state :: tag_state where
  "empty_tag_state = \<lparr>ts_p = \<lparr>rp_Epoch = 0, rp_Name = [], rp_Version = [], rp_Release = [], rp_Arch = [], rp_SourceRpm = [],
     rp_Size = 0, rp_License = [], rp_Vendor = [], rp_DigestAlgorithm = 0, rp_Files = []\<rparr>,
     ts_dirNames = [], ts_baseNames = [], ts_digests = [], ts_dirIndexes = []\<rparr>"

text \<open>\<open>il\<close> index entries of 16 bytes from the front of the buffer; the rest of the buffer.\<close>

fun read_entries :: "nat \<Rightarrow> string \<Rightarrow> read_error + RPMEntryInfo list \<times> string" where
  "read_entries 0 buf = Inr ([], buf)"
| "read_entries (Suc n) buf =
     (case ReadFull_at buf 0 16 of
        Inl e \<Rightarrow> Inl e
      | Inr b \<Rightarrow> (case read_entries n (drop 16 buf) of
                    Inl e \<Rightarrow> Inl e
                  | Inr (eis, rest) \<Rightarrow> Inr (entry_of b # eis, rest)))"

definition parse_header :: "(string \<Rightarrow> string) \<Rightarrow> string \<Rightarrow> walk_stop + rpm_Package" where
  "parse_header spare buf =
     (case ReadFull_at buf 0 4 of
        Inl e \<Rightarrow> Inl (WalkErr e)
      | Inr b1 \<Rightarrow> (case ReadFull_at (drop 4 buf) 0 4 of
          Inl e \<Rightarrow> Inl (WalkErr e)
        | Inr b2 \<Rightarrow> (case read_entries (be_val b1) (drop 8 buf) of
            Inl e \<Rightarrow> Inl (WalkErr e)
          | Inr (eis, dt) \<Rightarrow>
              if eis = [] then Inl WalkPanic
              else (case tags_loop (dt @ spare buf) (be_val b2) (tl eis) empty_tag_state of
                      None \<Rightarrow> Inl WalkPanic
                    | Some st \<Rightarrow>
                        (case joinFiles (ts_dirNames st) (ts_baseNames st) (ts_digests st) (ts_dirIndexes st) of
                           None \<Rightarrow> Inl WalkPanic
                         | Some fs \<Rightarrow> Inr (ts_p st\<lparr>rp_Files := fs\<rparr>))))))"

text \<open>
  The chain of overflow pages from page \<open>spno\<close>: the offset of a page is a product of \<open>uint32\<close> values, and
  a page of another type is read again.
\<close>

abbreviation page_offset :: "nat \<Rightarrow> nat \<Rightarrow> nat" where
  "page_offset ps spno \<equiv> spno * ps mod 2 ^ 32"

partial_function (option) read_overflow :: "string \<Rightarrow> nat \<Rightarrow> nat \<Rightarrow> string \<Rightarrow> (walk_stop + string) option" where
  "read_overflow f ps spno buf =
     (if spno = 0 then Some (Inr buf)
      else (case ReadFull_at f (page_offset ps spno) ps of
        Inl e \<Rightarrow> Some (Inl (WalkErr e))
      | Inr spd \<Rightarrow> (case read_page_header spd of
          Inl e \<Rightarrow> Some (Inl (WalkErr e))
        | Inr shdr \<Rightarrow>
            if ph_PageType shdr \<noteq> 7 then read_overflow f ps spno buf
            else if ph_NextPageNo shdr = 0 then
              (case go_slice spd 26 (int ((26 + ph_FreeAreaOffset shdr) mod 2 ^ 16)) of
                 None \<Rightarrow> Some (Inl WalkPanic)
               | Some d \<Rightarrow> read_overflow f ps (ph_NextPageNo shdr) (buf @ d))
            else read_overflow f ps (ph_NextPageNo shdr) (buf @ drop 26 spd))))"

text \<open>The entries of a hash page that point to overflow pages; every second index is that of a value.\<close>

fun page_indexes :: "string \<Rightarrow> nat \<Rightarrow> nat \<Rightarrow> walk_stop + nat list" where
  "page_indexes pd 0 pos = Inr []"
| "page_indexes pd (Suc n) pos =
     (case ReadFull_at pd (pos + 2) 2 of
        Inl e \<Rightarrow> Inl (WalkErr e)
      | Inr b \<Rightarrow>
          if length pd \<le> le_val b then Inl WalkPanic
          else (case page_indexes pd n (pos + 4) of
                  Inl s \<Rightarrow> Inl s
                | Inr is \<Rightarrow> Inr (if pd ! le_val b = CHR 0x03 then le_val b # is else is)))"

text \<open>The packages handed to the callback, and how the loop ended; None where it does not end.\<close>

type_synonym walk_result = "(rpm_Package list \<times> (walk_stop + unit)) option"

fun page_packages :: "(nat \<Rightarrow> string \<Rightarrow> string) \<Rightarrow> string \<Rightarrow> nat \<Rightarrow> string \<Rightarrow> nat list \<Rightarrow> walk_result" where
  "page_packages spare f ps pd [] = Some ([], Inr ())"
| "page_packages spare f ps pd (index # is) =
     (case read_off_entry pd index of
        Inl e \<Rightarrow> Some ([], Inl (WalkErr e))
      | Inr e \<Rightarrow> (case read_overflow f ps (oe_PageNo e) [] of
          None \<Rightarrow> None
        | Some (Inl s) \<Rightarrow> Some ([], Inl s)
        | Some (Inr buf) \<Rightarrow> (case parse_header (spare (oe_Length e)) buf of
            Inl s \<Rightarrow> Some ([], Inl s)
          | Inr p \<Rightarrow> map_option (\<lambda>(pk, r). (p # pk, r)) (page_packages spare f ps pd is))))"

definition walk_page :: "(nat \<Rightarrow> string \<Rightarrow> string) \<Rightarrow> string \<Rightarrow> nat \<Rightarrow> string \<Rightarrow> walk_result" where
  "walk_page spare f ps pd =
     (case read_page_header pd of
        Inl e \<Rightarrow> Some ([], Inl (WalkErr e))
      | Inr hdr \<Rightarrow>
          if ph_PageType hdr \<noteq> 13 \<or> odd (ph_NumEntries hdr) then Some ([], Inr ())
          else (case page_indexes pd (ph_NumEntries hdr div 2) 26 of
                  Inl s \<Rightarrow> Some ([], Inl s)
                | Inr is \<Rightarrow> page_packages spare f ps pd is))"

fun walk_pages :: "(nat \<Rightarrow> string \<Rightarrow> string) \<Rightarrow> string \<Rightarrow> nat \<Rightarrow> nat \<Rightarrow> nat \<Rightarrow> walk_result" where
  "walk_pages spare f ps 0 pos = Some ([], Inr ())"
| "walk_pages spare f ps (Suc n) pos =
     (case ReadFull_at f pos ps of
        Inl e \<Rightarrow> Some ([], Inl (WalkErr e))
      | Inr pd \<Rightarrow> (case walk_page spare f ps pd of
          None \<Rightarrow> None
        | Some (pk, Inl s) \<Rightarrow> Some (pk, Inl s)
        | Some (pk, Inr u) \<Rightarrow> map_option (\<lambda>(pk', r). (pk @ pk', r)) (walk_pages spare f ps n (pos + ps))))"

definition WalkPackages :: "(nat \<Rightarrow> string \<Rightarrow> string) \<Rightarrow> rpm_Database \<Rightarrow> walk_result" where
  "WalkPackages spare db =
     walk_pages spare (db_file db) (md_PageSize (db_metadata db)) (md_LastPageNo (db_metadata db)) (db_pos db)"

datatype open_error = NoFile | BadRead read_error | BadMagic | BadPageType

definition OpenDatabase :: "string option \<Rightarrow> open_error + rpm_Database" where
  "OpenDatabase f =
     (case f of
        None \<Rightarrow> Inl NoFile
      | Some c \<Rightarrow> (case read_metadata c of
          Inl e \<Rightarrow> Inl (BadRead e)
        | Inr md \<Rightarrow>
            if md_Magic md \<noteq> 0x061561 then Inl BadMagic
            else if md_PageType md \<noteq> 8 then Inl BadPageType
            else Inr \<lparr>db_metadata = md, db_file = c, db_pos = md_PageSize md\<rparr>))"

section \<open>The header of a package\<close>

lemma decodeStringArray_terminated:
  assumes "\<And>s. s \<in> set ss \<Longrightarrow> NUL \<notin> set s"
  shows "decodeStringArray (concat (map (\<lambda>s. s @ [NUL]) ss)) = ss"
  using Split_terminated[OF assms] by (simp add: decodeStringArray_def)

definition int32_bytes :: "int \<Rightarrow> string" where
  "int32_bytes i = be_bytes 4 (nat (i mod 2 ^ 32))"

abbreviation int32 :: "int \<Rightarrow> bool" where
  "int32 i \<equiv> - (2 ^ 31) \<le> i \<and> i < 2 ^ 31"

lemma wrap32_mod: "int32 i \<Longrightarrow> wrap32 (i mod 2 ^ 32) = i"
proof -
  assume i: "int32 i"
  have "(word_of_int (i mod 2 ^ 32) :: 32 word) = word_of_int i"
    by (simp add: word_of_int_eq_iff take_bit_eq_mod)
  then have "wrap32 (i mod 2 ^ 32) = wrap32 i" by (simp only: wrap32_def)
  then show ?thesis using i by (simp add: wrap32_id)
qed

lemma int32_bytes_val: "int32 i \<Longrightarrow> wrap32 (int (be_val (int32_bytes i))) = i"
proof -
  assume i: "int32 i"
  have "nat (i mod 2 ^ 32) < 256 ^ 4" by (simp add: nat_less_iff)
  then have "int (be_val (int32_bytes i)) = i mod 2 ^ 32" by (simp add: int32_bytes_def be_val_bytes)
  then show ?thesis using wrap32_mod[OF i] by simp
qed

lemma length_int32_bytes [simp]: "length (int32_bytes i) = 4"
  by (simp add: int32_bytes_def)

lemma decodeInt32Array_bytes:
  "list_all int32 is \<Longrightarrow> decodeInt32Array (concat (map int32_bytes is)) = is"
proof (induction "is")
  case (Cons i "is")
  have "length (int32_bytes i) = Suc (Suc (Suc (Suc 0)))" by simp
  then obtain a b c d where q: "int32_bytes i = [a, b, c, d]"
    by (auto simp: length_Suc_conv simp del: length_int32_bytes)
  then show ?case using Cons int32_bytes_val[of i] by simp
qed simp

lemma read_int32_bytes: "int32 i \<Longrightarrow> read_int32 (int32_bytes i @ rest) = Some i"
  using int32_bytes_val[of i] by (simp add: read_int32_def ReadFull_at_def)

text \<open>A header as \<open>rpm\<close> writes it: the number of entries, the size of the data, the region entry, the other entries and the data.\<close>

type_synonym rpm_entry = "nat \<times> nat \<times> nat \<times> string"

fun enc_entries :: "nat \<Rightarrow> rpm_entry list \<Rightarrow> string" where
  "enc_entries off [] = []"
| "enc_entries off ((t, ty, n, d) # es) =
     be_bytes 4 t @ be_bytes 4 ty @ be_bytes 4 off @ be_bytes 4 n @ enc_entries (off + length d) es"

definition enc_data :: "rpm_entry list \<Rightarrow> string" where
  "enc_data es = concat (map (\<lambda>(t, ty, n, d). d) es)"

definition enc_header :: "string \<Rightarrow> rpm_entry list \<Rightarrow> string" where
  "enc_header region es =
     be_bytes 4 (Suc (length es)) @ be_bytes 4 (length (enc_data es)) @ region @ enc_entries 0 es @ enc_data es"

fun infos :: "nat \<Rightarrow> rpm_entry list \<Rightarrow> RPMEntryInfo list" where
  "infos off [] = []"
| "infos off ((t, ty, n, d) # es) =
     \<lparr>ei_Tag = int t, ei_Type = ty, ei_Offset = int off, ei_Count = n\<rparr> # infos (off + length d) es"

fun tags_fold :: "rpm_entry list \<Rightarrow> tag_state \<Rightarrow> tag_state" where
  "tags_fold [] st = st"
| "tags_fold ((t, ty, n, d) # es) st =
     (case rpm_tag st \<lparr>ei_Tag = int t, ei_Type = ty, ei_Offset = 0, ei_Count = n\<rparr> d of
        None \<Rightarrow> st | Some st' \<Rightarrow> tags_fold es st')"

definition fits :: "rpm_entry list \<Rightarrow> bool" where
  "fits es \<longleftrightarrow> length (enc_data es) < 2 ^ 31 \<and> length es < 2 ^ 31 \<and>
     list_all (\<lambda>(t, ty, n, d). t < 2 ^ 31 \<and> ty < 2 ^ 32 \<and> n < 2 ^ 32) es"

lemma entry_of_bytes:
  assumes "t < 2 ^ 31" "ty < 2 ^ 32" "off < 2 ^ 31" "n < 2 ^ 32"
  shows "entry_of (be_bytes 4 t @ be_bytes 4 ty @ be_bytes 4 off @ be_bytes 4 n) =
     \<lparr>ei_Tag = int t, ei_Type = ty, ei_Offset = int off, ei_Count = n\<rparr>"
  using assms be_val_bytes[of t 4] be_val_bytes[of ty 4] be_val_bytes[of off 4] be_val_bytes[of n 4]
  by (simp add: entry_of_def wrap32_id)

lemma length_enc_data: "length (enc_data ((t, ty, n, d) # es)) = length d + length (enc_data es)"
  by (simp add: enc_data_def)

lemma read_entries_enc:
  assumes "off + length (enc_data es) < 2 ^ 31"
    "list_all (\<lambda>(t, ty, n, d). t < 2 ^ 31 \<and> ty < 2 ^ 32 \<and> n < 2 ^ 32) es"
  shows "read_entries (length es) (enc_entries off es @ rest) = Inr (infos off es, rest)"
  using assms
proof (induction es arbitrary: off)
  case (Cons x es)
  obtain t ty n d where x: "x = (t, ty, n, d)" by (metis prod_cases4)
  let ?b = "be_bytes 4 t @ be_bytes 4 ty @ be_bytes 4 off @ be_bytes 4 n"
  have e: "enc_entries off (x # es) @ rest = ?b @ enc_entries (off + length d) es @ rest" by (simp add: x)
  have "ReadFull_at (?b @ enc_entries (off + length d) es @ rest) 0 16 = Inr ?b"
    using ReadFull_at_append[of "[]" 0 ?b 16 "enc_entries (off + length d) es @ rest"] by simp
  moreover have "entry_of ?b = \<lparr>ei_Tag = int t, ei_Type = ty, ei_Offset = int off, ei_Count = n\<rparr>"
    using Cons.prems by (intro entry_of_bytes) (auto simp: x length_enc_data)
  moreover have "read_entries (length es) (enc_entries (off + length d) es @ rest) = Inr (infos (off + length d) es, rest)"
    using Cons.prems by (intro Cons.IH) (auto simp: x length_enc_data)
  moreover have "drop 16 (?b @ enc_entries (off + length d) es @ rest) = enc_entries (off + length d) es @ rest" by simp
  ultimately show ?case unfolding e by (simp add: x del: append_assoc)
qed simp

lemma rpm_tag_offset: "rpm_tag st (ei\<lparr>ei_Offset := k\<rparr>) d = rpm_tag st ei d"
  by (simp add: rpm_tag_def)

lemma tags_loop_infos:
  "tags_loop (pre @ enc_data es @ spare) (length pre + length (enc_data es)) (infos (length pre) es) st = Some (tags_fold es st)"
proof (induction es arbitrary: pre st)
  case (Cons x es)
  obtain t ty n d where x: "x = (t, ty, n, d)" by (metis prod_cases4)
  have hi: "(case infos (length pre + length d) es of [] \<Rightarrow> int (length pre + length (enc_data (x # es)))
      | ej # ejs \<Rightarrow> ei_Offset ej) = int (length pre + length d)"
  proof (cases es)
    case Nil
    then show ?thesis by (simp add: x enc_data_def)
  next
    case (Cons y ys)
    then show ?thesis by (cases y) simp
  qed
  have sl: "go_slice (pre @ enc_data (x # es) @ spare) (int (length pre)) (int (length pre + length d)) = Some d"
    by (simp add: go_slice_def x enc_data_def)
  have r: "rpm_tag st \<lparr>ei_Tag = int t, ei_Type = ty, ei_Offset = int (length pre), ei_Count = n\<rparr> d =
      rpm_tag st \<lparr>ei_Tag = int t, ei_Type = ty, ei_Offset = 0, ei_Count = n\<rparr> d"
    using rpm_tag_offset[of st "int (length pre)" "\<lparr>ei_Tag = int t, ei_Type = ty, ei_Offset = 0, ei_Count = n\<rparr>" d] by simp
  have IH: "tags_loop (pre @ enc_data (x # es) @ spare) (length pre + length (enc_data (x # es)))
      (infos (length pre + length d) es) st' = Some (tags_fold es st')" for st'
    using Cons.IH[of "pre @ d" st'] by (simp add: x enc_data_def add.assoc)
  show ?case unfolding x infos.simps tags_loop.simps tags_fold.simps RPMEntryInfo.select_convs
      hi[unfolded x] sl[unfolded x] option.case r IH[unfolded x]
    by (simp split: option.split)
qed (simp add: enc_data_def)

lemma parse_header_enc:
  assumes "fits es" "length region = 16"
  shows "parse_header spare (enc_header region es) =
     (let st = tags_fold es empty_tag_state
      in case joinFiles (ts_dirNames st) (ts_baseNames st) (ts_digests st) (ts_dirIndexes st) of
           None \<Rightarrow> Inl WalkPanic | Some fs \<Rightarrow> Inr (ts_p st\<lparr>rp_Files := fs\<rparr>))"
proof -
  let ?h = "enc_header region es" and ?rest = "enc_entries 0 es @ enc_data es"
  have v: "be_val (be_bytes 4 (Suc (length es))) = Suc (length es)"
    "be_val (be_bytes 4 (length (enc_data es))) = length (enc_data es)"
    using assms(1) by (auto simp: fits_def intro!: be_val_bytes)
  have r1: "ReadFull_at ?h 0 4 = Inr (be_bytes 4 (Suc (length es)))"
    "ReadFull_at (drop 4 ?h) 0 4 = Inr (be_bytes 4 (length (enc_data es)))"
    by (simp_all add: enc_header_def ReadFull_at_def)
  have d8: "drop 8 ?h = region @ ?rest" by (simp add: enc_header_def)
  have r2: "ReadFull_at (region @ ?rest) 0 16 = Inr region" "drop 16 (region @ ?rest) = ?rest"
    using assms(2) by (simp_all add: ReadFull_at_def)
  have "read_entries (length es) ?rest = Inr (infos 0 es, enc_data es)"
    using assms(1) by (intro read_entries_enc) (auto simp: fits_def)
  then have r3: "read_entries (Suc (length es)) (region @ ?rest) = Inr (entry_of region # infos 0 es, enc_data es)"
    using r2 by simp
  have t: "tags_loop (enc_data es @ spare ?h) (length (enc_data es)) (infos 0 es) empty_tag_state =
      Some (tags_fold es empty_tag_state)"
    using tags_loop_infos[of "[]" es "spare ?h" empty_tag_state] by simp
  show ?thesis unfolding parse_header_def
    by (simp add: r1 v d8 r3 t Let_def del: read_entries.simps split: option.split)
qed

definition package_entries :: "(nat \<Rightarrow> nat) \<Rightarrow> rpm_Package \<Rightarrow> string list \<Rightarrow> string list \<Rightarrow> string list \<Rightarrow> int list \<Rightarrow> rpm_entry list" where
  "package_entries pad p dirs bases digests ixs =
     (let str = (\<lambda>t s. (t, STRING, 1, s @ replicate (Suc (pad t)) NUL));
          num = (\<lambda>t i. (t, INT32, 1, int32_bytes i @ replicate (pad t) NUL));
          arr = (\<lambda>t ss. (t, STRING_ARRAY, length ss, concat (map (\<lambda>s. s @ [NUL]) ss)))
      in [str 1000 (rp_Name p), str 1001 (rp_Version p), str 1002 (rp_Release p), num 1003 (rp_Epoch p), num 1009 (rp_Size p),
          str 1011 (rp_Vendor p), str 1014 (rp_License p), str 1022 (rp_Arch p), arr 1035 digests, str 1044 (rp_SourceRpm p),
          (1116, INT32, length ixs, concat (map int32_bytes ixs)), arr 1117 bases, arr 1118 dirs, num 5011 (rp_DigestAlgorithm p)])"

definition no_trailing_nul :: "string \<Rightarrow> bool" where
  "no_trailing_nul s \<longleftrightarrow> s = [] \<or> last s \<noteq> NUL"

definition wf_package :: "rpm_Package \<Rightarrow> bool" where
  "wf_package p \<longleftrightarrow>
     list_all no_trailing_nul [rp_Name p, rp_Version p, rp_Release p, rp_Vendor p, rp_License p, rp_Arch p, rp_SourceRpm p] \<and>
     list_all (\<lambda>s. s \<noteq> ''(none)'') [rp_Vendor p, rp_License p, rp_SourceRpm p] \<and>
     list_all int32 [rp_Epoch p, rp_Size p, rp_DigestAlgorithm p]"

definition wf_files :: "string list \<Rightarrow> string list \<Rightarrow> string list \<Rightarrow> int list \<Rightarrow> bool" where
  "wf_files dirs bases digests ixs \<longleftrightarrow>
     list_all (\<lambda>s. NUL \<notin> set s) (dirs @ bases @ digests) \<and> dirs \<noteq> [] \<and> length dirs \<le> length bases \<and>
     length ixs = length bases \<and> length dirs < 2 ^ 31 \<and> list_all (\<lambda>i. 0 \<le> i \<and> i < int (length dirs)) ixs"

definition listed_files :: "string list \<Rightarrow> string list \<Rightarrow> string list \<Rightarrow> int list \<Rightarrow> rpm_FileInfo list" where
  "listed_files dirs bases digests ixs =
     map (\<lambda>k. \<lparr>rf_Path = path_Join [dirs ! nat (ixs ! k), bases ! k], rf_Digest = (if k < length digests then digests ! k else [])\<rparr>)
       [0..<length bases]"

lemma TrimRightByte_pad: "no_trailing_nul s \<Longrightarrow> TrimRightByte NUL (s @ NUL # replicate n NUL) = s"
  using TrimRightByte_append[of s NUL "Suc n"] by (simp add: no_trailing_nul_def)

lemma join_loop_listed:
  assumes "length ixs = length bases" "list_all (\<lambda>i. 0 \<le> i \<and> i < int (length dirs)) ixs"
  shows "join_loop dirs digests (zip bases ixs) = Some (listed_files dirs bases digests ixs)"
  using assms
proof (induction bases arbitrary: ixs digests)
  case (Cons b bases)
  obtain i "is" where i: "ixs = i # is" using Cons.prems by (cases ixs) auto
  have "join_loop dirs (drop 1 digests) (zip bases is) = Some (listed_files dirs bases (drop 1 digests) is)"
    using Cons i by simp
  moreover have "listed_files dirs (b # bases) digests ixs =
      \<lparr>rf_Path = path_Join [dirs ! nat i, b], rf_Digest = (case digests of [] \<Rightarrow> [] | d # ds \<Rightarrow> d)\<rparr>
      # listed_files dirs bases (drop 1 digests) is"
    by (auto simp: listed_files_def i upt_conv_Cons map_Suc_upt[symmetric] nth_Cons' simp del: upt_Suc split: list.split)
  ultimately show ?case using Cons.prems by (simp add: i)
qed (simp add: listed_files_def)

lemma joinFiles_listed:
  "wf_files dirs bases digests ixs \<Longrightarrow> joinFiles dirs bases digests ixs = Some (listed_files dirs bases digests ixs)"
  using join_loop_listed[of ixs bases dirs digests] by (auto simp: joinFiles_def wf_files_def)

lemma tags_fold_package:
  assumes p: "wf_package p" and f: "wf_files dirs bases digests ixs"
  shows "tags_fold (package_entries pad p dirs bases digests ixs) empty_tag_state =
     \<lparr>ts_p = p\<lparr>rp_Files := []\<rparr>, ts_dirNames = dirs, ts_baseNames = bases, ts_digests = digests, ts_dirIndexes = ixs\<rparr>"
proof -
  have arr: "decodeStringArray (concat (map (\<lambda>s. s @ [NUL]) dirs)) = dirs"
    "decodeStringArray (concat (map (\<lambda>s. s @ [NUL]) bases)) = bases"
    "decodeStringArray (concat (map (\<lambda>s. s @ [NUL]) digests)) = digests"
    using f by (auto simp: wf_files_def list_all_iff intro!: decodeStringArray_terminated)
  have ix: "decodeInt32Array (concat (map int32_bytes ixs)) = ixs"
    using f by (intro decodeInt32Array_bytes) (fastforce simp: wf_files_def list_all_iff)
  have pe: "rp_Epoch p = e \<Longrightarrow> int32 e" "rp_Size p = e \<Longrightarrow> int32 e" "rp_DigestAlgorithm p = e \<Longrightarrow> int32 e" for e
    using p by (auto simp: wf_package_def)
  note n = read_int32_bytes[OF pe(1)[OF refl]] read_int32_bytes[OF pe(2)[OF refl]] read_int32_bytes[OF pe(3)[OF refl]]
  show ?thesis using p
    by (cases p) (simp add: package_entries_def Let_def rpm_tag_def arr ix n[simplified] TrimRightByte_pad none_empty_def
      wf_package_def empty_tag_state_def read_int32_bytes)
qed

text \<open>
  C14. A package header in the format that \<open>rpm\<close> writes is read back: for every package whose texts and numbers fit
  their types, with any padding after texts and numbers and whatever lies in the spare capacity of the buffer,
  \<open>WalkPackages\<close> delivers the package itself, and the files it lists are the base names joined to their directories, each with its
  digest.
\<close>

theorem rpm_header_roundtrip:
  assumes "wf_package p" "wf_files dirs bases digests ixs"
    and "fits (package_entries pad p dirs bases digests ixs)" "length region = 16"
  shows "parse_header spare (enc_header region (package_entries pad p dirs bases digests ixs)) =
     Inr (p\<lparr>rp_Files := listed_files dirs bases digests ixs\<rparr>)"
  using assms by (simp add: parse_header_enc tags_fold_package joinFiles_listed)

definition demo_package :: rpm_Package where
  "demo_package = \<lparr>rp_Epoch = 1, rp_Name = ''bash'', rp_Version = ''4.2'', rp_Release = ''35'', rp_Arch = ''x86'', rp_SourceRpm = [],
     rp_Size = 7, rp_License = ''GPL'', rp_Vendor = [], rp_DigestAlgorithm = 8, rp_Files = []\<rparr>"

theorem rpm_header_roundtrip_witness:
  "parse_header (\<lambda>_. []) (enc_header (replicate 16 NUL) (package_entries (\<lambda>_. 2) demo_package [''/bin/''] [''bash'', ''sh''] [''ab''] [0, 0])) =
     Inr (demo_package\<lparr>rp_Files := listed_files [''/bin/''] [''bash'', ''sh''] [''ab''] [0, 0]\<rparr>)"
proof -
  have "wf_package demo_package" by (simp add: wf_package_def demo_package_def no_trailing_nul_def)
  moreover have "wf_files [''/bin/''] [''bash'', ''sh''] [''ab''] [0, 0]" by (simp add: wf_files_def)
  moreover have "fits (package_entries (\<lambda>_. 2) demo_package [''/bin/''] [''bash'', ''sh''] [''ab''] [0, 0])"
    by (simp add: fits_def package_entries_def demo_package_def enc_data_def Let_def)
  ultimately show ?thesis by (rule rpm_header_roundtrip) simp
qed

section \<open>Chains of overflow pages\<close>

text \<open>The page the loop looks at after page \<open>spno\<close>, if it goes on: the page itself when it has another type.\<close>

definition overflow_next :: "string \<Rightarrow> nat \<Rightarrow> nat \<Rightarrow> nat option" where
  "overflow_next f ps spno =
     (if spno = 0 then None
      else case ReadFull_at f (page_offset ps spno) ps of
             Inl e \<Rightarrow> None
           | Inr spd \<Rightarrow> (case read_page_header spd of
               Inl e \<Rightarrow> None
             | Inr shdr \<Rightarrow> if ph_PageType shdr \<noteq> 7 then Some spno
                          else if ph_NextPageNo shdr = 0 then None else Some (ph_NextPageNo shdr)))"

fun follow :: "string \<Rightarrow> nat \<Rightarrow> nat \<Rightarrow> nat \<Rightarrow> nat option" where
  "follow f ps 0 spno = Some spno"
| "follow f ps (Suc n) spno = (case overflow_next f ps spno of None \<Rightarrow> None | Some q \<Rightarrow> follow f ps n q)"

lemma overflow_stops: "overflow_next f ps spno = None \<Longrightarrow> read_overflow f ps spno buf \<noteq> None"
  by (subst read_overflow.simps)
    (auto simp: overflow_next_def read_overflow.simps[of f ps 0] split: if_splits sum.splits option.split)

lemma overflow_goes_on:
  "overflow_next f ps spno = Some q \<Longrightarrow> \<exists>buf'. read_overflow f ps spno buf = read_overflow f ps q buf'"
  by (subst read_overflow.simps) (auto simp: overflow_next_def split: if_splits sum.splits)

lemma follow_returns: "follow f ps n spno = None \<Longrightarrow> read_overflow f ps spno buf \<noteq> None"
proof (induction n arbitrary: spno buf)
  case (Suc n)
  show ?case
  proof (cases "overflow_next f ps spno")
    case None
    then show ?thesis by (rule overflow_stops)
  next
    case (Some q)
    obtain buf' where "read_overflow f ps spno buf = read_overflow f ps q buf'"
      using overflow_goes_on[OF Some] by blast
    then show ?thesis using Suc.IH[of q buf'] Suc.prems Some by simp
  qed
qed simp

lemma returns_follow:
  assumes "read_overflow f ps spno buf = Some r"
  shows "\<exists>n. follow f ps n spno = None"
proof (rule read_overflow.raw_induct[where P = "\<lambda>f ps spno buf r. \<exists>n. follow f ps n spno = None", OF _ assms])
  fix g :: "string \<Rightarrow> nat \<Rightarrow> nat \<Rightarrow> string \<Rightarrow> (walk_stop + string) option" and f ps spno buf r
  assume IH: "\<And>f ps spno buf r. g f ps spno buf = Some r \<Longrightarrow> \<exists>n. follow f ps n spno = None"
  assume body: "(if spno = 0 then Some (Inr buf)
      else (case ReadFull_at f (page_offset ps spno) ps of
        Inl e \<Rightarrow> Some (Inl (WalkErr e))
      | Inr spd \<Rightarrow> (case read_page_header spd of
          Inl e \<Rightarrow> Some (Inl (WalkErr e))
        | Inr shdr \<Rightarrow>
            if ph_PageType shdr \<noteq> 7 then g f ps spno buf
            else if ph_NextPageNo shdr = 0 then
              (case go_slice spd 26 (int ((26 + ph_FreeAreaOffset shdr) mod 2 ^ 16)) of
                 None \<Rightarrow> Some (Inl WalkPanic)
               | Some d \<Rightarrow> g f ps (ph_NextPageNo shdr) (buf @ d))
            else g f ps (ph_NextPageNo shdr) (buf @ drop 26 spd)))) = Some r"
  show "\<exists>n. follow f ps n spno = None"
  proof (cases "overflow_next f ps spno")
    case None
    then show ?thesis by (intro exI[of _ "Suc 0"]) simp
  next
    case (Some q)
    then have "\<exists>buf'. g f ps q buf' = Some r" using body
      by (auto simp: overflow_next_def split: if_splits sum.splits)
    then obtain n where "follow f ps n q = None" using IH by blast
    then show ?thesis using Some by (intro exI[of _ "Suc n"]) simp
  qed
qed

text \<open>
  C22. The loop over the overflow pages of an entry ends exactly when the chain of pages, followed from its first page,
  comes to an end after finitely many pages.  A page of another type is its own successor, so one such
  page in a chain, or a chain that closes on itself, keeps the reader busy for ever.
\<close>

theorem overflow_returns_iff:
  "read_overflow f ps spno buf = None \<longleftrightarrow> (\<forall>n. follow f ps n spno \<noteq> None)"
  using follow_returns[of f ps _ spno buf] returns_follow[of f ps spno buf] by (cases "read_overflow f ps spno buf") blast+

lemma follow_self: "overflow_next f ps spno = Some spno \<Longrightarrow> follow f ps n spno = Some spno"
  by (induction n) auto

lemma self_page_hangs: "overflow_next f ps spno = Some spno \<Longrightarrow> read_overflow f ps spno buf = None"
  using returns_follow[of f ps spno buf] follow_self[of f ps spno] by (cases "read_overflow f ps spno buf") auto

text \<open>
  A database whose first hash page points to a page that is not an overflow page stops the software scan for good: the
  walk over the packages does not return, whatever the rest of the file holds.
\<close>

theorem wrong_page_type_hangs:
  assumes page: "ReadFull_at (db_file db) (db_pos db) (md_PageSize (db_metadata db)) = Inr pd"
    and some: "md_LastPageNo (db_metadata db) \<noteq> 0"
    and hdr: "read_page_header pd = Inr h" "ph_PageType h = 13" "even (ph_NumEntries h)"
    and ix: "page_indexes pd (ph_NumEntries h div 2) 26 = Inr (index # is)"
    and off: "read_off_entry pd index = Inr e" "oe_PageNo e \<noteq> 0"
    and sub: "ReadFull_at (db_file db) (page_offset (md_PageSize (db_metadata db)) (oe_PageNo e)) (md_PageSize (db_metadata db)) = Inr spd"
    and wrong: "read_page_header spd = Inr sh" "ph_PageType sh \<noteq> 7"
  shows "WalkPackages spare db = None"
proof -
  have "overflow_next (db_file db) (md_PageSize (db_metadata db)) (oe_PageNo e) = Some (oe_PageNo e)"
    using off sub wrong by (simp add: overflow_next_def)
  then have "walk_page spare (db_file db) (md_PageSize (db_metadata db)) pd = None"
    using hdr ix off by (simp add: walk_page_def self_page_hangs)
  then show ?thesis using page some by (cases "md_LastPageNo (db_metadata db)") (simp_all add: WalkPackages_def)
qed

text \<open>Page 1 holds one entry that points to page 1 itself, a hash page.\<close>

definition demo_page :: string where
  "demo_page = replicate 20 NUL @ [CHR 0x02, NUL, NUL, NUL, NUL, CHR 0x0D, NUL, NUL, CHR 0x1E, NUL] @
     [CHR 0x03, NUL, NUL, NUL, CHR 0x01, NUL, NUL, NUL, NUL, NUL, NUL, NUL]"

definition demo_rpm_db :: rpm_Database where
  "demo_rpm_db = \<lparr>db_metadata = \<lparr>md_LSN = [], md_PageNo = 0, md_Magic = 0x061561, md_Version = 9, md_PageSize = 42, md_EncryptionAlg = 0,
     md_PageType = 8, md_MetaFlags = 0, md_Unused1 = 0, md_Free = 0, md_LastPageNo = 1, md_NParts = 0, md_KeyCount = 1,
     md_RecordCount = 1, md_Flags = 0, md_UniqueFileID = [], md_MaxBucket = 0, md_HighMask = 0, md_LowMask = 0, md_FillFactor = 0,
     md_NumKeys = 0, md_CharKeyHash = 0\<rparr>, db_file = replicate 42 NUL @ demo_page, db_pos = 42\<rparr>"

theorem wrong_page_type_hangs_witness: "WalkPackages (\<lambda>_ _. []) demo_rpm_db = None"
proof -
  have r: "ReadFull_at (db_file demo_rpm_db) (db_pos demo_rpm_db) (md_PageSize (db_metadata demo_rpm_db)) = Inr demo_page"
    by (simp add: demo_rpm_db_def demo_page_def ReadFull_at_def)
  have h: "\<exists>h. read_page_header demo_page = Inr h \<and> ph_PageType h = 13 \<and> ph_NumEntries h = 2"
    by (simp add: read_page_header_def demo_page_def ReadFull_at_def numeral_eq_Suc)
  then obtain h where h: "read_page_header demo_page = Inr h" "ph_PageType h = 13" "ph_NumEntries h = 2" by blast
  have i: "page_indexes demo_page 1 26 = Inr [30]"
    by (simp add: demo_page_def ReadFull_at_def numeral_eq_Suc)
  have e: "read_off_entry demo_page 30 = Inr \<lparr>oe_PageType = 3, oe_PageNo = 1, oe_Length = 0\<rparr>"
    by (simp add: read_off_entry_def demo_page_def ReadFull_at_def numeral_eq_Suc)
  have s: "ReadFull_at (db_file demo_rpm_db) (page_offset (md_PageSize (db_metadata demo_rpm_db)) 1)
      (md_PageSize (db_metadata demo_rpm_db)) = Inr demo_page"
    using r by (simp add: demo_rpm_db_def)
  have i': "page_indexes demo_page (ph_NumEntries h div 2) 26 = Inr (30 # [])"
    using i by (simp add: h del: page_indexes.simps)
  have n: "md_LastPageNo (db_metadata demo_rpm_db) \<noteq> 0" by (simp add: demo_rpm_db_def)
  have s': "ReadFull_at (db_file demo_rpm_db) (page_offset (md_PageSize (db_metadata demo_rpm_db))
      (oe_PageNo \<lparr>oe_PageType = 3, oe_PageNo = 1, oe_Length = 0\<rparr>)) (md_PageSize (db_metadata demo_rpm_db)) = Inr demo_page"
    using s by (simp only: HashOffPageEntry.select_convs)
  show ?thesis by (rule wrong_page_type_hangs[OF r n h(1,2) _ i' e _ s' h(1)]) (simp_all add: h)
qed

section \<open>The walk over the pages\<close>

text \<open>The bytes of page \<open>k\<close> of a file.\<close>

definition page_of :: "string \<Rightarrow> nat \<Rightarrow> nat \<Rightarrow> string" where
  "page_of f ps k = take ps (drop (k * ps) f)"

lemma walk_pages_all:
  assumes "(k + n) * ps \<le> length f"
    and "\<And>i. k \<le> i \<Longrightarrow> i < k + n \<Longrightarrow> walk_page spare f ps (page_of f ps i) = Some (pk i, Inr ())"
  shows "walk_pages spare f ps n (k * ps) = Some (concat (map pk [k..<k + n]), Inr ())"
  using assms
proof (induction n arbitrary: k)
  case (Suc n)
  have "k * ps + ps \<le> (k + Suc n) * ps" by (simp add: algebra_simps)
  then have r: "ReadFull_at f (k * ps) ps = Inr (page_of f ps k)"
    using Suc.prems(1) by (simp add: ReadFull_at_def page_of_def algebra_simps)
  have IH: "walk_pages spare f ps n (Suc k * ps) = Some (concat (map pk [Suc k..<Suc k + n]), Inr ())"
    using Suc.prems by (intro Suc.IH) auto
  have m: "Suc k * ps = k * ps + ps" by simp
  have u: "[k..<k + Suc n] = k # [Suc k..<Suc k + n]" by (simp add: upt_conv_Cons del: upt_Suc)
  show ?case unfolding walk_pages.simps u using r Suc.prems(2)[of k] IH[unfolded m] by (simp del: upt_Suc)
qed simp

text \<open>
  Opening a database and walking it looks at every page but the metadata page, the last one included, each once and in order:
  if the file holds all the pages its metadata announces and every page is read without an error, the packages delivered
  are those of pages 1 to \<open>LastPageNo\<close>.
\<close>

theorem WalkPackages_complete:
  assumes opn: "OpenDatabase (Some f) = Inr db"
    and md: "md_PageSize (db_metadata db) = ps" "md_LastPageNo (db_metadata db) = n" and whole: "(n + 1) * ps \<le> length f"
    and pages: "\<And>i. 1 \<le> i \<Longrightarrow> i \<le> n \<Longrightarrow> walk_page spare f ps (page_of f ps i) = Some (pk i, Inr ())"
  shows "WalkPackages spare db = Some (concat (map pk [1..<n + 1]), Inr ())"
proof -
  have "db_file db = f" "db_pos db = 1 * ps"
    using opn md by (auto simp: OpenDatabase_def split: sum.splits if_splits)
  then show ?thesis using walk_pages_all[of 1 n ps f spare pk] whole pages md
    by (simp add: WalkPackages_def add.commute)
qed

text \<open>One page behind the metadata page, without any entry.\<close>

definition demo_rpm_file :: string where
  "demo_rpm_file = replicate 12 NUL @ [CHR 0x61, CHR 0x15, CHR 0x06, NUL, NUL, NUL, NUL, NUL, CHR 0x60, NUL, NUL, NUL, NUL, CHR 0x08,
     NUL, NUL, NUL, NUL, NUL, NUL, CHR 0x01, NUL, NUL, NUL] @ replicate 156 NUL"

lemma demo_rpm_open:
  "\<exists>db. OpenDatabase (Some demo_rpm_file) = Inr db \<and> md_PageSize (db_metadata db) = 96 \<and> md_LastPageNo (db_metadata db) = 1"
  by (simp add: OpenDatabase_def read_metadata_def demo_rpm_file_def ReadFull_at_def)

theorem WalkPackages_complete_witness:
  "\<exists>db. OpenDatabase (Some demo_rpm_file) = Inr db \<and> WalkPackages (\<lambda>_ _. []) db = Some ([], Inr ())"
proof -
  obtain db where db: "OpenDatabase (Some demo_rpm_file) = Inr db" "md_PageSize (db_metadata db) = 96"
    "md_LastPageNo (db_metadata db) = 1" using demo_rpm_open by blast
  have "walk_page (\<lambda>_ _. []) demo_rpm_file 96 (page_of demo_rpm_file 96 1) = Some ([], Inr ())"
    by (simp add: walk_page_def page_of_def read_page_header_def demo_rpm_file_def ReadFull_at_def)
  then have "walk_page (\<lambda>_ _. []) demo_rpm_file 96 (page_of demo_rpm_file 96 i) = Some ([], Inr ())" if "1 \<le> i" "i \<le> 1" for i
    using that by (simp add: le_antisym)
  then have "WalkPackages (\<lambda>_ _. []) db = Some (concat (map (\<lambda>_. []) [1..<1 + 1]), Inr ())"
    by (intro WalkPackages_complete[OF db]) (simp_all add: demo_rpm_file_def)
  then show ?thesis using db(1) by auto
qed

text \<open>
  The reader indexes what the file says: a header without any entry, an entry whose data begins behind the next
  entry's data, and a file whose directory index is negative or too large all panic, and with them the whole
  collector process.
\<close>

lemma empty_header_panics: "be_val (take 4 b) = 0 \<Longrightarrow> 8 \<le> length b \<Longrightarrow> parse_header spare b = Inl WalkPanic"
  by (simp add: parse_header_def ReadFull_at_def)

lemma unsorted_entries_panic: "ei_Offset ej < ei_Offset ei \<Longrightarrow> tags_loop dt dl (ei # ej # eis) st = None"
  by (simp add: go_slice_def)

lemma join_loop_wild:
  "(b, i) \<in> set prs \<Longrightarrow> i < 0 \<or> int (length dirs) \<le> i \<Longrightarrow> join_loop dirs ds prs = None"
  by (induction dirs ds prs rule: join_loop.induct) auto

lemma wild_index_panics:
  assumes "dirs \<noteq> []" "length dirs \<le> length bases" "length ixs = length bases"
    and "i \<in> set ixs" "i < 0 \<or> int (length dirs) \<le> i"
  shows "joinFiles dirs bases digests ixs = None"
proof -
  obtain k where "k < length ixs" "ixs ! k = i" using assms(4) by (metis in_set_conv_nth)
  then have "(bases ! k, i) \<in> set (zip bases ixs)" using assms(3) by (auto simp: in_set_zip)
  then have "join_loop dirs digests (zip bases ixs) = None" using assms(5) by (rule join_loop_wild)
  then show ?thesis using assms by (auto simp: joinFiles_def)
qed

end
