(* ===== verification/CollectorHost.thy ===== *)
theory CollectorHost
  imports CollectorProc CollectorRpm
begin

text \<open>
  The collectors of scheduled jobs, services, users, software and changed files (\<open>plugins/collector/cron.go\<close>,
  \<open>service.go\<close>, \<open>kmod.go\<close>, \<open>user.go\<close>, \<open>software.go\<close>, \<open>integrity.go\<close>).  Files are their contents; checksums, password hashing, the
  user data base and the output of \<open>sudo\<close> are parameters.  The lemmas show the round trips of the parsers, what a
  check of the installed files reports, and how its result reaches the records of processes.
\<close>

section \<open>Scheduled jobs\<close>

record Crontab =
  cn_Path :: string
  cn_Username :: string
  cn_Schedule :: string
  cn_Command :: string
  cn_Checksum :: string

definition cron_line :: "bool \<Rightarrow> string \<Rightarrow> string \<Rightarrow> string \<Rightarrow> Crontab option" where
  "cron_line wu path md5 text =
     (let line = TrimSpace text; fields = Fields line;
          entry = (\<lambda>user sched cmd. Some \<lparr>cn_Path = path, cn_Username = user, cn_Schedule = sched, cn_Command = cmd, cn_Checksum = md5\<rparr>)
      in if line = [] \<or> HasPrefix line ''#'' then None
         else if HasPrefix line ''@'' then
           (if wu then (if length fields < 3 then None else entry (fields ! 1) (fields ! 0) (Join (drop 2 fields) '' ''))
            else (if length fields < 2 then None else entry path (fields ! 0) (Join (drop 1 fields) '' '')))
         else
           (if wu then (if length fields < 7 then None else entry (fields ! 5) (Join (take 5 fields) '' '') (Join (drop 6 fields) '' ''))
            else (if length fields < 6 then None else entry (path_Base path) (Join (take 5 fields) '' '') (Join (drop 5 fields) '' ''))))"

definition parseCrontab :: "bool \<Rightarrow> string \<Rightarrow> string \<Rightarrow> string \<Rightarrow> Crontab list" where
  "parseCrontab wu path md5 content =
     concat (map (\<lambda>l. case cron_line wu path md5 l of None \<Rightarrow> [] | Some c \<Rightarrow> [c]) (ScanLines (take (1024 * 1024) content)))"

section \<open>Services and kernel modules\<close>

record Service =
  sv_Name :: string
  sv_Type :: string
  sv_Command :: string
  sv_Restart :: string
  sv_WorkingDir :: string
  sv_Checksum :: string
  sv_BusName :: string

definition SetDefault :: "Service \<Rightarrow> Service" where
  "SetDefault s =
     (if sv_Command s \<noteq> [] \<and> sv_Type s = [] \<and> sv_BusName s = [] then s\<lparr>sv_Type := ''simple''\<rparr>
      else if sv_Command s = [] \<and> sv_Type s = [] then s\<lparr>sv_Type := ''oneshot''\<rparr>
      else if sv_Type s = [] \<and> sv_BusName s \<noteq> [] then s\<lparr>sv_Type := ''dbus''\<rparr>
      else s)"

definition service_line :: "Service \<Rightarrow> string \<Rightarrow> Service" where
  "service_line u l =
     (case Split l ''='' of
        [k, v] \<Rightarrow>
          if TrimSpace k = ''Type'' then u\<lparr>sv_Type := TrimSpace v\<rparr>
          else if TrimSpace k = ''ExecStart'' then u\<lparr>sv_Command := TrimSpace v\<rparr>
          else if TrimSpace k = ''Restart'' then u\<lparr>sv_Restart := (if sv_Restart u = ''no'' then ''false'' else ''true'')\<rparr>
          else if TrimSpace k = ''WorkingDirectory'' then u\<lparr>sv_WorkingDir := TrimSpace v\<rparr>
          else u
      | _ \<Rightarrow> u)"

definition parse_service :: "string \<Rightarrow> string \<Rightarrow> string \<Rightarrow> Service" where
  "parse_service name md5 content =
     SetDefault ((foldl service_line
       \<lparr>sv_Name = name, sv_Type = [], sv_Command = [], sv_Restart = ''false'', sv_WorkingDir = [], sv_Checksum = [], sv_BusName = []\<rparr>
       (ScanLines (take (1024 * 1024) content)))\<lparr>sv_Checksum := md5\<rparr>)"

text \<open>The first readable unit file of each name, in the order of the directories; \<open>files\<close> lists name, whether it is a file or link, path.\<close>

fun service_walk :: "(string \<Rightarrow> string option) \<Rightarrow> (string \<Rightarrow> string) \<Rightarrow> string list \<Rightarrow> (string \<times> bool \<times> string) list \<Rightarrow> Service list" where
  "service_walk readf md5 seen [] = []"
| "service_walk readf md5 seen ((name, reg, path) # fs) =
     (if HasSuffix name ''.service'' \<and> reg \<and> name \<notin> set seen then
        (case readf path of
           None \<Rightarrow> service_walk readf md5 seen fs
         | Some c \<Rightarrow> parse_service name (md5 path) c # service_walk readf md5 (name # seen) fs)
      else service_walk readf md5 seen fs)"

definition kmod_records :: "int \<Rightarrow> string \<Rightarrow> string option \<Rightarrow> col_record list" where
  "kmod_records now seq content =
     (case content of
        None \<Rightarrow> []
      | Some c \<Rightarrow> concat (map (\<lambda>l. let f = Fields l in
          if 5 < length f
          then [\<lparr>cr_DataType = 5062, cr_Timestamp = now, cr_Fields = [(''name'', f ! 0), (''size'', f ! 1), (''refcount'', f ! 2), (''used_by'', f ! 3),
                  (''state'', f ! 4), (''addr'', f ! 5), (''package_seq'', seq)]\<rparr>]
          else []) (ScanLines c)))"

section \<open>Users\<close>

definition maskPassword :: "string \<Rightarrow> string" where
  "maskPassword pwd =
     (let n = length pwd
      in if n = 0 then [] else if n = 1 then ''*''
         else if n = 2 \<or> n = 3 then pwd[1 := CHR ''*'']
         else if n = 4 then pwd[1 := CHR ''*'', 2 := CHR ''*'']
         else take 2 pwd @ replicate (n - 4) (CHR ''*'') @ drop (n - 2) pwd)"

text \<open>\<open>crypt method password salt\<close> is the result of the hashing package; the list of weak passwords is embedded in the program.\<close>

definition verifyWeak :: "(string \<Rightarrow> string \<Rightarrow> string \<Rightarrow> string option) \<Rightarrow> string \<Rightarrow> string \<Rightarrow> string \<times> string" where
  "verifyWeak crypt weakPassword hashed =
     (let fields = Split hashed ''$''
      in if length fields < 4 then (''true'', ''not valid format'')
         else if fields ! 1 = ''1'' then (''true'', ''weak algorithm'')
         else if fields ! 1 \<noteq> ''5'' \<and> fields ! 1 \<noteq> ''6'' then (''false'', [])
         else (case find (\<lambda>w. crypt (fields ! 1) w (''$'' @ fields ! 1 @ ''$'' @ fields ! 2) = Some hashed) (ScanLines weakPassword) of
                 None \<Rightarrow> (''false'', [])
               | Some w \<Rightarrow> (''true'', maskPassword w)))"

record col_User =
  us_Username :: string
  us_Password :: string
  us_Uid :: string
  us_Gid :: string
  us_Groupname :: string
  us_Info :: string
  us_Home :: string
  us_Shell :: string
  us_LastLoginTime :: string
  us_LastLoginIP :: string
  us_WeakPassword :: string
  us_WeakPasswordContent :: string
  us_Sudoers :: string
  us_ShadowPassword :: string
  us_ShadowLastChange :: string
  us_ShadowMin :: string
  us_ShadowMax :: string
  us_ShadowWarn :: string
  us_ShadowInactive :: string
  us_ShadowExpire :: string
  us_ShadowFlag :: string

definition nth_or :: "string list \<Rightarrow> nat \<Rightarrow> string \<Rightarrow> string" where
  "nth_or f k old = (if k < length f then f ! k else old)"

definition passwd_user :: "(string \<Rightarrow> string) \<Rightarrow> string \<Rightarrow> col_User" where
  "passwd_user grp line =
     (let f0 = Split line '':''; f = f0 @ replicate (7 - length f0) []
      in \<lparr>us_Username = f ! 0, us_Password = f ! 1, us_Uid = f ! 2, us_Gid = f ! 3, us_Groupname = grp (f ! 3), us_Info = f ! 4, us_Home = f ! 5,
          us_Shell = f ! 6, us_LastLoginTime = [], us_LastLoginIP = [], us_WeakPassword = [], us_WeakPasswordContent = [], us_Sudoers = [],
          us_ShadowPassword = [], us_ShadowLastChange = [], us_ShadowMin = [], us_ShadowMax = [], us_ShadowWarn = [], us_ShadowInactive = [],
          us_ShadowExpire = [], us_ShadowFlag = []\<rparr>)"

definition passwd_users :: "(string \<Rightarrow> string) \<Rightarrow> string \<Rightarrow> (string, col_User) gomap" where
  "passwd_users grp content = foldl (\<lambda>m l. let u = passwd_user grp l in mput m (us_Username u) u) [] (ScanLines content)"

text \<open>The records of \<open>wtmp\<close> have 384 bytes: user at 44, time at 340, address at 348.\<close>

definition login_ip :: "string \<Rightarrow> string" where
  "login_ip addr = IP_String (TrimRightByte NUL addr)"

fun wtmp_loop :: "nat \<Rightarrow> string \<Rightarrow> (string, col_User) gomap \<Rightarrow> (string, col_User) gomap" where
  "wtmp_loop 0 b m = m"
| "wtmp_loop (Suc n) b m =
     (if length b < 384 then m
      else let name = TrimRightByte NUL (take 32 (drop 44 b)); addr = take 16 (drop 348 b); sec = wrap32 (int (le_val (take 4 (drop 340 b))))
           in wtmp_loop n (drop 384 b)
                (case map_of m name of
                   None \<Rightarrow> m
                 | Some u \<Rightarrow> mput m name (u\<lparr>us_LastLoginIP := login_ip addr, us_LastLoginTime := Itoa sec\<rparr>)))"

definition shadow_line :: "(string \<Rightarrow> string \<times> string) \<Rightarrow> (string, col_User) gomap \<Rightarrow> string \<Rightarrow> (string, col_User) gomap" where
  "shadow_line weak m line =
     (let f = Split line '':''
      in if length f < 2 then m
         else case map_of m (f ! 0) of
                None \<Rightarrow> m
              | Some u \<Rightarrow>
                  let (w, wc) = (if Contains (f ! 1) ''*'' \<or> Contains (f ! 1) ''!'' then (''false'', []) else weak (f ! 1))
                  in mput m (f ! 0) (u\<lparr>us_WeakPassword := w, us_WeakPasswordContent := wc,
                       us_ShadowPassword := f ! 1, us_ShadowLastChange := nth_or f 2 (us_ShadowLastChange u), us_ShadowMin := nth_or f 3 (us_ShadowMin u),
                       us_ShadowMax := nth_or f 4 (us_ShadowMax u), us_ShadowWarn := nth_or f 5 (us_ShadowWarn u),
                       us_ShadowInactive := nth_or f 6 (us_ShadowInactive u), us_ShadowExpire := nth_or f 7 (us_ShadowExpire u),
                       us_ShadowFlag := nth_or f 8 (us_ShadowFlag u)\<rparr>))"

definition sudo_text :: "string option \<Rightarrow> string option" where
  "sudo_text out =
     (case out of
        None \<Rightarrow> None
      | Some o1 \<Rightarrow> (case Cut o1 ''may run the following commands'' of
          None \<Rightarrow> None
        | Some (a, b) \<Rightarrow>
            if a = [] then None
            else (case Cut (''may run the following commands'' @ b) '':'' of
                    None \<Rightarrow> None
                  | Some (x, rest) \<Rightarrow> if rest = [] then None else Some (TrimSpace rest))))"

definition collect_users ::
  "(string \<Rightarrow> string) \<Rightarrow> (string \<Rightarrow> string \<times> string) \<Rightarrow> (string \<Rightarrow> string option) \<Rightarrow> string \<Rightarrow> string option \<Rightarrow> string option \<Rightarrow> col_User list" where
  "collect_users grp weak sudo passwd wtmp shadow =
     (let m0 = passwd_users grp passwd;
          m1 = (case wtmp of None \<Rightarrow> m0 | Some b \<Rightarrow> wtmp_loop (length b) b m0);
          m2 = (case shadow of None \<Rightarrow> m1 | Some c \<Rightarrow> foldl (shadow_line weak) m1 (ScanLines c))
      in map (\<lambda>(k, u). case sudo_text (sudo (us_Username u)) of None \<Rightarrow> u | Some t \<Rightarrow> u\<lparr>us_Sudoers := t\<rparr>) m2)"

section \<open>Software\<close>

record Software =
  sw_Seq :: string
  sw_Name :: string
  sw_Version :: string
  sw_Type :: string
  sw_Source :: string
  sw_Status :: string
  sw_Vendor :: string
  sw_ComponentVersion :: string
  sw_Pid :: string
  sw_PodName :: string
  sw_Psm :: string
  sw_PackageSeq :: string

definition new_software :: "string \<Rightarrow> string \<Rightarrow> Software" where
  "new_software seq type = \<lparr>sw_Seq = seq, sw_Name = [], sw_Version = [], sw_Type = type, sw_Source = [], sw_Status = [], sw_Vendor = [],
     sw_ComponentVersion = [], sw_Pid = [], sw_PodName = [], sw_Psm = [], sw_PackageSeq = []\<rparr>"

definition parsePypiName :: "string \<Rightarrow> string \<Rightarrow> Software option" where
  "parsePypiName name seq =
     (let n = TrimSuffix (TrimSuffix name ''.egg-info'') ''.dist-info'';
          s = new_software seq ''pypi''
      in case SplitN n ''-'' 3 of
           [a] \<Rightarrow> Some (s\<lparr>sw_Name := a\<rparr>)
         | [a, b] \<Rightarrow> Some (s\<lparr>sw_Name := a, sw_Version := b\<rparr>)
         | [a, b, c] \<Rightarrow> Some (s\<lparr>sw_Name := a, sw_Version := b, sw_ComponentVersion := c\<rparr>)
         | _ \<Rightarrow> None)"

text \<open>The first hyphen that a digit follows separates name and version.\<close>

fun parseJarFilename :: "string \<Rightarrow> string \<times> string" where
  "parseJarFilename (a # b # r) =
     (if a = CHR ''-'' \<and> is_digit b then ([], b # r) else (case parseJarFilename (b # r) of (n, v) \<Rightarrow> (a # n, v)))"
| "parseJarFilename r = (r, [])"

text \<open>
  The stanzas of \<open>/var/lib/dpkg/status\<close>: a new one begins at each line that starts with \<open>Package:\<close>.  A stanza that
  does not fit the scanner's buffer of 64 KiB ends the scan.
\<close>

definition pkg_sep :: string where
  "pkg_sep = CHR 0x0A # ''Package: ''"

function dpkg_chunks :: "string \<Rightarrow> string list" where
  "dpkg_chunks d =
     (if d = [] then []
      else case Cut d pkg_sep of
             None \<Rightarrow> if length d < 65536 then [d] else []
           | Some (a, b) \<Rightarrow> if length a + 10 \<le> 65536 then a # dpkg_chunks (''Package: '' @ b) else [])"
  by pat_completeness auto
termination by (relation "measure length") (auto dest!: Cut_Some simp: pkg_sep_def)

declare dpkg_chunks.simps [simp del]

definition dpkg_line :: "Software \<Rightarrow> string \<Rightarrow> Software" where
  "dpkg_line s line =
     (case SplitN line '': '' 2 of
        [k, v] \<Rightarrow>
          if k = ''Package'' then s\<lparr>sw_Name := v\<rparr> else if k = ''Version'' then s\<lparr>sw_Version := v\<rparr>
          else if k = ''Source'' then s\<lparr>sw_Source := v\<rparr> else if k = ''Status'' then s\<lparr>sw_Status := v\<rparr> else s
      | _ \<Rightarrow> s)"

definition dpkg_software :: "string \<Rightarrow> string \<Rightarrow> Software list" where
  "dpkg_software seq content =
     map (\<lambda>c. foldl dpkg_line (new_software seq ''dpkg'') (Split c [CHR 0x0A]))
       (dpkg_chunks (take (25 * 1024 * 1024) content))"

definition rpm_record :: "int \<Rightarrow> string \<Rightarrow> string \<Rightarrow> rpm_Package \<Rightarrow> col_record" where
  "rpm_record now stamp seq p = \<lparr>cr_DataType = 5055, cr_Timestamp = now, cr_Fields =
     [(''seq'', stamp), (''type'', ''rpm''), (''package_seq'', seq), (''name'', rp_Name p), (''sversion'', rp_Version p), (''source_rpm'', rp_SourceRpm p),
      (''vendor'', rp_Vendor p)]\<rparr>"

section \<open>Changed files\<close>

definition isBin :: "string \<Rightarrow> bool" where
  "isBin path \<longleftrightarrow> path_Ext path = [] \<and>
     path_Dir path \<in> {''/bin'', ''/sbin'', ''/usr/bin'', ''/usr/sbin'', ''/usr/local/bin'', ''/usr/local/sbin''}"

text \<open>The versions of the installed packages; the lines of a stanza are read until both are known.\<close>

fun name_version :: "string \<Rightarrow> string \<Rightarrow> string list \<Rightarrow> string \<times> string" where
  "name_version n v [] = (n, v)"
| "name_version n v (l # ls) =
     (case SplitN l '': '' 2 of
        [k, x] \<Rightarrow>
          let n' = (if k = ''Package'' then x else n); v' = (if k = ''Version'' then x else v)
          in if n' \<noteq> [] \<and> v' \<noteq> [] then (n', v') else name_version n' v' ls
      | _ \<Rightarrow> name_version n v ls)"

definition dpkg_versions :: "string \<Rightarrow> (string, string) gomap" where
  "dpkg_versions content =
     foldl (\<lambda>m c. case name_version [] [] (Split c [CHR 0x0A]) of (n, v) \<Rightarrow> if n \<noteq> [] \<and> v \<noteq> [] then mput m n v else m) []
       (dpkg_chunks (take (25 * 1024 * 1024) content))"

definition md5sums_files :: "string \<Rightarrow> (string, string) gomap" where
  "md5sums_files content =
     foldl (\<lambda>m l. case Fields l of
         [d, f] \<Rightarrow> let p = path_Join [''/'', f] in if isBin p then mput m p d else m
       | _ \<Rightarrow> m) [] (ScanLines content)"

text \<open>A file of the host: its size and time of change, the bytes that were read, and whether reading failed in the end.\<close>

record disk_file =
  df_size :: int
  df_mtime :: int
  df_bytes :: string
  df_error :: bool

definition integrity_record :: "int \<Rightarrow> string \<Rightarrow> string \<Rightarrow> string \<Rightarrow> string \<Rightarrow> string \<Rightarrow> string \<Rightarrow> string \<Rightarrow> int \<Rightarrow> col_record" where
  "integrity_record now seq name digest odigest algo path version mtime = \<lparr>cr_DataType = 5057, cr_Timestamp = now, cr_Fields =
     [(''software_name'', name), (''digest'', digest), (''origin_digest'', odigest), (''digest_algorithm'', algo), (''exe'', path),
      (''modify_time'', Itoa mtime), (''software_version'', version), (''package_seq'', seq)]\<rparr>"

text \<open>
  The files of one package: \<open>acc\<close> holds the bytes that the hash has seen since it was last reset, which after an error is not
  done.  The result is what the hash holds, the records and the cache; None is a panic.
\<close>

type_synonym integrity_state = "string \<times> col_record list \<times> eng_Cache"

fun dpkg_verify ::
  "(string \<Rightarrow> string) \<Rightarrow> (string \<Rightarrow> disk_file option) \<Rightarrow> int \<Rightarrow> string \<Rightarrow> string \<Rightarrow> string \<Rightarrow> (string \<times> string) list \<Rightarrow> integrity_state \<Rightarrow> integrity_state option" where
  "dpkg_verify md5 disk now seq pn v [] st = Some st"
| "dpkg_verify md5 disk now seq pn v ((path, od) # fs) (acc, rs, cache) =
     (case disk path of
        None \<Rightarrow> dpkg_verify md5 disk now seq pn v fs (acc, rs, cache)
      | Some f \<Rightarrow>
          if \<not> df_size f < 100 * 1024 * 1024 then dpkg_verify md5 disk now seq pn v fs (acc, rs, cache)
          else if df_error f then dpkg_verify md5 disk now seq pn v fs (acc @ df_bytes f, rs, cache)
          else let digest = hex_bytes (md5 (acc @ df_bytes f))
               in if digest \<noteq> od then
                    (case Cache_Put cache 5057 path [] of
                       None \<Rightarrow> None
                     | Some cache' \<Rightarrow> dpkg_verify md5 disk now seq pn v fs
                         ([], rs @ [integrity_record now seq pn digest od ''md5'' path v (df_mtime f)], cache'))
                  else dpkg_verify md5 disk now seq pn v fs ([], rs, cache))"

text \<open>
  The packages with a list of checksums, in the order of the directory; \<open>sums\<close> gives name and content of each list, and \<open>order\<close> the
  order in which the iteration over the map of a package's files yields them.
\<close>

type_synonym map_order = "(string \<times> string) list \<Rightarrow> (string \<times> string) list"

fun dpkg_packages ::
  "map_order \<Rightarrow> (string \<Rightarrow> string) \<Rightarrow> (string \<Rightarrow> disk_file option) \<Rightarrow> int \<Rightarrow> string \<Rightarrow> (string, string) gomap \<Rightarrow> (string \<times> string option) list \<Rightarrow> integrity_state \<Rightarrow> integrity_state option" where
  "dpkg_packages order md5 disk now seq nvm [] st = Some st"
| "dpkg_packages order md5 disk now seq nvm ((fname, content) # fs) st =
     (if path_Ext fname \<noteq> ''.md5sums'' then dpkg_packages order md5 disk now seq nvm fs st
      else let pn = TrimSuffix (path_Base fname) ''.md5sums''
           in case (map_of nvm pn, content) of
                (Some v, Some c) \<Rightarrow>
                  (case dpkg_verify md5 disk now seq pn v (order (md5sums_files c)) st of
                     None \<Rightarrow> None
                   | Some st' \<Rightarrow> dpkg_packages order md5 disk now seq nvm fs st')
              | _ \<Rightarrow> dpkg_packages order md5 disk now seq nvm fs st)"

text \<open>The files of an RPM package: the hash is reset before each file.\<close>

fun rpm_verify ::
  "(int \<Rightarrow> string \<Rightarrow> string) \<Rightarrow> (string \<Rightarrow> disk_file option) \<Rightarrow> int \<Rightarrow> string \<Rightarrow> rpm_Package \<Rightarrow> rpm_FileInfo list \<Rightarrow> col_record list \<times> eng_Cache \<Rightarrow> (col_record list \<times> eng_Cache) option" where
  "rpm_verify hash disk now seq p [] st = Some st"
| "rpm_verify hash disk now seq p (f # fs) (rs, cache) =
     (case (isBin (rf_Path f) \<and> rf_Digest f \<noteq> [], disk (rf_Path f)) of
        (True, Some d) \<Rightarrow>
          (let digest = hex_bytes (hash (rp_DigestAlgorithm p) (df_bytes d))
           in if df_size d < 100 * 1024 * 1024 \<and> \<not> df_error d \<and> digest \<noteq> rf_Digest f then
                (case Cache_Put cache 5057 (rf_Path f) [] of
                   None \<Rightarrow> None
                 | Some cache' \<Rightarrow> rpm_verify hash disk now seq p fs
                     (rs @ [integrity_record now seq (rp_Name p) digest (rf_Digest f) (DigestAlgorithm_String (rp_DigestAlgorithm p))
                        (rf_Path f) (rp_Version p) (df_mtime d)], cache'))
              else rpm_verify hash disk now seq p fs (rs, cache))
      | _ \<Rightarrow> rpm_verify hash disk now seq p fs (rs, cache))"

text \<open>\<open>hash\<close> gives the functions for MD5, SHA-1, SHA-256 and SHA-512; packages with another algorithm are skipped.\<close>

definition rpm_package_verify ::
  "(int \<Rightarrow> string \<Rightarrow> string) \<Rightarrow> (string \<Rightarrow> disk_file option) \<Rightarrow> int \<Rightarrow> string \<Rightarrow> rpm_Package \<Rightarrow> col_record list \<times> eng_Cache \<Rightarrow> (col_record list \<times> eng_Cache) option" where
  "rpm_package_verify hash disk now seq p st =
     (if rp_DigestAlgorithm p \<in> {1, 2, 8, 10} then rpm_verify hash disk now seq p (rp_Files p) st else Some st)"

text \<open>The handler: the dpkg data base if it can be read, otherwise the packages of the RPM data base.\<close>

definition IntegrityHandler_Handle ::
  "map_order \<Rightarrow> (string \<Rightarrow> string) \<Rightarrow> (int \<Rightarrow> string \<Rightarrow> string) \<Rightarrow> (string \<Rightarrow> disk_file option) \<Rightarrow> int \<Rightarrow> string \<Rightarrow> string option \<Rightarrow> (string \<times> string option) list option \<Rightarrow>
   rpm_Package list \<Rightarrow> eng_Cache \<Rightarrow> (col_record list \<times> eng_Cache) option" where
  "IntegrityHandler_Handle order md5 hash disk now seq status info packages cache =
     (case (status, info) of
        (Some c, Some sums) \<Rightarrow> map_option snd (dpkg_packages order md5 disk now seq (dpkg_versions c) sums ([], [], cache))
      | (Some c, None) \<Rightarrow> Some ([], cache)
      | (None, _) \<Rightarrow> foldl (\<lambda>st p. case st of None \<Rightarrow> None | Some s \<Rightarrow> rpm_package_verify hash disk now seq p s) (Some ([], cache)) packages)"

section \<open>From a changed fname to the record of a process\<close>

abbreviation small_file :: "disk_file \<Rightarrow> bool" where
  "small_file f \<equiv> df_size f < 100 * 1024 * 1024"

definition changed_file :: "(string \<Rightarrow> string) \<Rightarrow> (string \<Rightarrow> disk_file option) \<Rightarrow> string \<times> string \<Rightarrow> bool" where
  "changed_file md5 disk pd =
     (case disk (fst pd) of None \<Rightarrow> False | Some f \<Rightarrow> small_file f \<and> hex_bytes (md5 (df_bytes f)) \<noteq> snd pd)"

abbreviation readable :: "(string \<Rightarrow> disk_file option) \<Rightarrow> string \<Rightarrow> bool" where
  "readable disk path \<equiv> (case disk path of None \<Rightarrow> True | Some f \<Rightarrow> \<not> df_error f)"

text \<open>
  The state after the files \<open>fs\<close> were checked: records were sent for the changed ones, in order, and exactly these joined the
  cache.
\<close>

abbreviation reported :: "col_record list \<Rightarrow> string option list" where
  "reported rs \<equiv> map (\<lambda>r. map_of (cr_Fields r) ''exe'') rs"

definition checked ::
  "(string \<Rightarrow> string) \<Rightarrow> (string \<Rightarrow> disk_file option) \<Rightarrow> (string \<times> string) list \<Rightarrow> col_record list \<times> eng_Cache \<Rightarrow> col_record list \<times> eng_Cache \<Rightarrow> bool" where
  "checked md5 disk fs s t \<longleftrightarrow> Cache_ready (snd t) 5057 \<and>
     (\<forall>k. snd (Cache_Get (snd t) 5057 k) \<longleftrightarrow> snd (Cache_Get (snd s) 5057 k) \<or> k \<in> fst ` set (filter (changed_file md5 disk) fs)) \<and>
     reported (fst t) = reported (fst s) @ map (Some \<circ> fst) (filter (changed_file md5 disk) fs)"

lemma checked_append: "checked md5 disk a s t \<Longrightarrow> checked md5 disk b t u \<Longrightarrow> checked md5 disk (a @ b) s u"
  by (auto simp add: checked_def image_Un simp del: set_filter)

lemma checked_Nil: "Cache_ready cache 5057 \<Longrightarrow> checked md5 disk [] (rs, cache) (rs, cache)"
  by (simp add: checked_def)

lemma checked_one:
  assumes "changed_file md5 disk (path, od)" "Cache_ready cache 5057" "Cache_Put cache 5057 path [] = Some c1"
  shows "checked md5 disk [(path, od)] (rs, cache) (rs @ [integrity_record now seq pn d od a path v m], c1)"
  using assms cc.ready_put[OF assms(3)] cc.get_put[OF assms(3)] by (auto simp: checked_def integrity_record_def)

lemma dpkg_verify_exact:
  assumes "list_all (\<lambda>p. readable disk (fst p)) fs" "Cache_ready cache 5057"
  shows "\<exists>rs' cache'. dpkg_verify md5 disk now seq pn v fs ([], rs, cache) = Some ([], rs', cache') \<and> checked md5 disk fs (rs, cache) (rs', cache')"
  using assms
proof (induction fs arbitrary: rs cache)
  case Nil
  then show ?case by (simp add: checked_Nil)
next
  case (Cons x fs)
  obtain path od where x: "x = (path, od)" by (cases x)
  have r: "list_all (\<lambda>p. readable disk (fst p)) fs" using Cons.prems by simp
  show ?case
  proof (cases "changed_file md5 disk x")
    case True
    then obtain f where f: "disk path = Some f" "small_file f" "hex_bytes (md5 (df_bytes f)) \<noteq> od" "\<not> df_error f"
      using Cons.prems(1) by (auto simp: changed_file_def x split: option.splits)
    obtain c1 where c1: "Cache_Put cache 5057 path [] = Some c1" using Cons.prems(2) cc.put_ready[of cache 5057 path "[]"] by auto
    have c2: "Cache_ready c1 5057" using cc.ready_put[OF c1] Cons.prems(2) by blast
    let ?rs = "rs @ [integrity_record now seq pn (hex_bytes (md5 (df_bytes f))) od ''md5'' path v (df_mtime f)]"
    have st: "dpkg_verify md5 disk now seq pn v (x # fs) ([], rs, cache) = dpkg_verify md5 disk now seq pn v fs ([], ?rs, c1)"
      using f c1 by (simp add: x Let_def)
    obtain rs' cache' where d: "dpkg_verify md5 disk now seq pn v fs ([], ?rs, c1) = Some ([], rs', cache')"
      "checked md5 disk fs (?rs, c1) (rs', cache')" using Cons.IH[OF r c2, of ?rs] by blast
    have "checked md5 disk ([x] @ fs) (rs, cache) (rs', cache')"
      unfolding x by (rule checked_append[OF checked_one[OF True[unfolded x] Cons.prems(2) c1] d(2)])
    then show ?thesis using st d(1) by (metis append_Cons append_Nil)
  next
    case False
    have "dpkg_verify md5 disk now seq pn v (x # fs) ([], rs, cache) = dpkg_verify md5 disk now seq pn v fs ([], rs, cache)"
      using False Cons.prems(1) by (auto simp: changed_file_def x Let_def split: option.splits)
    then show ?thesis using Cons.IH[OF r Cons.prems(2), of rs] False by (simp add: checked_def)
  qed
qed

text \<open>The files that the lists of the installed packages name.\<close>

definition listed_package :: "map_order \<Rightarrow> (string, string) gomap \<Rightarrow> string \<times> string option \<Rightarrow> (string \<times> string) list" where
  "listed_package order nvm fc =
     (if path_Ext (fst fc) \<noteq> ''.md5sums'' then []
      else case (map_of nvm (TrimSuffix (path_Base (fst fc)) ''.md5sums''), snd fc) of
             (Some v, Some c) \<Rightarrow> order (md5sums_files c)
           | _ \<Rightarrow> [])"

abbreviation package_files :: "map_order \<Rightarrow> (string, string) gomap \<Rightarrow> (string \<times> string option) list \<Rightarrow> (string \<times> string) list" where
  "package_files order nvm sums \<equiv> concat (map (listed_package order nvm) sums)"

lemma dpkg_packages_exact:
  assumes "list_all (\<lambda>p. readable disk (fst p)) (package_files order nvm sums)" "Cache_ready cache 5057"
  shows "\<exists>rs' cache'. dpkg_packages order md5 disk now seq nvm sums ([], rs, cache) = Some ([], rs', cache') \<and>
    checked md5 disk (package_files order nvm sums) (rs, cache) (rs', cache')"
  using assms
proof (induction sums arbitrary: rs cache)
  case Nil
  then show ?case by (simp add: checked_Nil)
next
  case (Cons x sums)
  obtain fname content where x: "x = (fname, content)" by (cases x)
  have r: "list_all (\<lambda>p. readable disk (fst p)) (package_files order nvm sums)"
    and r1: "list_all (\<lambda>p. readable disk (fst p)) (listed_package order nvm x)" using Cons.prems by auto
  let ?pn = "TrimSuffix (path_Base fname) ''.md5sums''"
  show ?case
  proof (cases "\<exists>v c. path_Ext fname = ''.md5sums'' \<and> map_of nvm ?pn = Some v \<and> content = Some c")
    case True
    then obtain v c where t: "path_Ext fname = ''.md5sums''" "map_of nvm ?pn = Some v" "content = Some c" by blast
    have l: "listed_package order nvm x = order (md5sums_files c)" by (simp add: listed_package_def x t)
    obtain rs1 c1 where d: "dpkg_verify md5 disk now seq ?pn v (order (md5sums_files c)) ([], rs, cache) = Some ([], rs1, c1)"
      "checked md5 disk (listed_package order nvm x) (rs, cache) (rs1, c1)"
      using dpkg_verify_exact[OF r1[unfolded l] Cons.prems(2)] l by metis
    then obtain rs2 c2 where e: "dpkg_packages order md5 disk now seq nvm sums ([], rs1, c1) = Some ([], rs2, c2)"
      "checked md5 disk (package_files order nvm sums) (rs1, c1) (rs2, c2)"
      using Cons.IH[OF r, of c1 rs1] by (auto simp: checked_def)
    have "dpkg_packages order md5 disk now seq nvm (x # sums) ([], rs, cache) = Some ([], rs2, c2)"
      using d(1) e(1) t by (simp add: x Let_def)
    moreover have "checked md5 disk (package_files order nvm (x # sums)) (rs, cache) (rs2, c2)"
      using checked_append[OF d(2) e(2)] by simp
    ultimately show ?thesis by blast
  next
    case False
    have "listed_package order nvm x = []" using False by (auto simp: listed_package_def x split: option.splits)
    moreover have "dpkg_packages order md5 disk now seq nvm (x # sums) ([], rs, cache) = dpkg_packages order md5 disk now seq nvm sums ([], rs, cache)"
      using False by (auto simp: x Let_def split: option.splits)
    ultimately show ?thesis using Cons.IH[OF r Cons.prems(2), of rs] by simp
  qed
qed

lemma mset_package_files:
  assumes "\<And>l. mset (order l) = mset l"
  shows "mset (package_files order nvm sums) = mset (package_files id nvm sums)"
proof -
  have "mset (listed_package order nvm x) = mset (listed_package id nvm x)" for x
    using assms by (simp add: listed_package_def split: option.split)
  then show ?thesis by (induction sums) simp_all
qed

text \<open>
  C11. From the disk to the report, on a host with the dpkg data base.  The files checked are those that the lists of checksums of the installed packages
  name in one of six directories for programs and without an extension.  After the integrity handler has checked them without a read error,
  in whatever order, it has reported exactly those below 100 MB whose checksum differs from the package's, and the record of a process of the host, outside of any
  container, says that its executable is intact unless that executable is one of those files.
\<close>

theorem tampered_executable_reported:
  assumes perm: "\<And>l. mset (order l) = mset l"
    and run: "IntegrityHandler_Handle order md5 hash disk now seq (Some status) (Some sums) packages (Cache_clear cache0 5057) = Some (rs, cache)"
    and files: "files = package_files id (dpkg_versions status) sums" and ok: "list_all (\<lambda>p. readable disk (fst p)) files"
    and dec: "decodes_only decode" and rec: "process_record decode h pm cache now' stamp seq' p = Some rec"
    and exe: "exe = fst (fst (pr_Exe h (snd (pr_Cmdline h p))))"
    and host: "fst (process_container cache (ns_Pid (fst (pr_Namespaces h (snd (pr_Cmdline h p)))))) = []"
  shows "mset (reported rs) = mset (map (Some \<circ> fst) (filter (changed_file md5 disk) files)) \<and>
    map_of (cr_Fields rec) ''integrity'' = Some (if exe \<in> fst ` set (filter (changed_file md5 disk) files) then ''false'' else ''true'')"
proof -
  let ?files = "package_files order (dpkg_versions status) sums"
  have m: "mset ?files = mset files" unfolding files by (rule mset_package_files[OF perm])
  have ok': "list_all (\<lambda>p. readable disk (fst p)) ?files" using ok mset_eq_setD[OF m] by (simp only: list_all_iff)
  have rd: "Cache_ready (Cache_clear cache0 5057) 5057" using cc.ready_clear by blast
  obtain rs' c' where d: "dpkg_packages order md5 disk now seq (dpkg_versions status) sums ([], [], Cache_clear cache0 5057) = Some ([], rs', c')"
    "checked md5 disk ?files ([], Cache_clear cache0 5057) (rs', c')"
    using dpkg_packages_exact[OF ok' rd] by metis
  have e: "rs' = rs" "c' = cache" using run d(1) by (simp_all add: IntegrityHandler_Handle_def)
  have st: "set (filter (changed_file md5 disk) ?files) = set (filter (changed_file md5 disk) files)" using mset_eq_setD[OF m] by simp
  have mm: "mset (map (Some \<circ> fst) (filter (changed_file md5 disk) ?files)) = mset (map (Some \<circ> fst) (filter (changed_file md5 disk) files))"
    using m by (simp only: mset_map mset_filter)
  have "snd (Cache_Get cache 5057 exe) \<longleftrightarrow> exe \<in> fst ` set (filter (changed_file md5 disk) files)"
    using d(2) e cc.get_clear[of cache0 5057 5057 exe] unfolding st[symmetric] by (simp add: checked_def)
  moreover have "reported rs = map (Some \<circ> fst) (filter (changed_file md5 disk) ?files)" using d(2) e by (simp add: checked_def)
  ultimately show ?thesis using process_record_integrity[OF dec rec exe refl] host mm by simp
qed

text \<open>One package, one changed file, and a process that runs it.\<close>

definition put_tags :: map_decoder where
  "put_tags tags m = foldl (\<lambda>m t. mput m (fst t) (snd t)) m tags"

lemma put_tags_only: "decodes_only put_tags"
proof -
  have "map_of (put_tags tags m) k = map_of m k" if "k \<notin> fst ` set tags" for tags m k
  proof -
    have "find (\<lambda>t. fst t = k) (rev tags) = None" using that by (force simp: find_None_iff)
    then show ?thesis by (simp add: put_tags_def foldl_mput_map_of)
  qed
  then show ?thesis by (simp add: decodes_only_def)
qed

definition demo_dpkg :: string where
  "demo_dpkg = ''Package: a'' @ [CHR 0x0A] @ ''Version: 1''"

definition demo_sums :: "(string \<times> string option) list" where
  "demo_sums = [(''a.md5sums'', Some ''0 bin/x'')]"

definition demo_disk :: "string \<Rightarrow> disk_file option" where
  "demo_disk path = (if path = ''/bin/x'' then Some \<lparr>df_size = 1, df_mtime = 7, df_bytes = ''z'', df_error = False\<rparr> else None)"

lemma demo_files: "dpkg_versions demo_dpkg = [(''a'', ''1'')]" "md5sums_files ''0 bin/x'' = [(''/bin/x'', ''0'')]"
  "listed_package id [(''a'', ''1'')] (''a.md5sums'', Some ''0 bin/x'') = [(''/bin/x'', ''0'')]"
proof -
  have "Cut demo_dpkg pkg_sep = None" "name_version [] [] (Split demo_dpkg [CHR 0x0A]) = (''a'', ''1'')" by code_simp+
  moreover have "take (25 * 1024 * 1024) demo_dpkg = demo_dpkg" "length demo_dpkg < 65536" "demo_dpkg \<noteq> []" by (simp_all add: demo_dpkg_def)
  ultimately show "dpkg_versions demo_dpkg = [(''a'', ''1'')]" unfolding dpkg_versions_def by (simp add: dpkg_chunks.simps)
  have "scan_lines_raw ''0 bin/x'' = [''0 bin/x'']" by code_simp
  then have "ScanLines ''0 bin/x'' = [''0 bin/x'']" by (simp add: ScanLines_def drop_cr_def)
  moreover have "Fields ''0 bin/x'' = [''0'', ''bin/x'']" "path_Join [''/'', ''bin/x''] = ''/bin/x''" "isBin ''/bin/x''" by code_simp+
  ultimately show m: "md5sums_files ''0 bin/x'' = [(''/bin/x'', ''0'')]" by (simp add: md5sums_files_def)
  have "path_Ext ''a.md5sums'' = ''.md5sums''" "TrimSuffix (path_Base ''a.md5sums'') ''.md5sums'' = ''a''" by code_simp+
  then show "listed_package id [(''a'', ''1'')] (''a.md5sums'', Some ''0 bin/x'') = [(''/bin/x'', ''0'')]" by (simp add: listed_package_def m)
qed

definition demo_proc_view :: host_view where
  "demo_proc_view = demo_view\<lparr>hv_read := (\<lambda>_. Some [])\<rparr>"

definition demo_measures :: proc_measures where
  "demo_measures = \<lparr>pm_md5 = (\<lambda>_. []), pm_hash = (\<lambda>_. []), pm_usage = (\<lambda>_. ([], [])), pm_host_cpu = None, pm_host_mem = None\<rparr>"

definition demo_process :: Process where
  "demo_process = \<lparr>pr_pid = ''9'', pr_exe = ''/bin/x'', pr_cmdline = ''x'', pr_comm = []\<rparr>"

theorem tampered_executable_reported_witness:
  "\<exists>rs cache rec. IntegrityHandler_Handle rev (\<lambda>_. []) (\<lambda>_ _. []) demo_disk 0 ''s'' (Some demo_dpkg) (Some demo_sums) [] (Cache_clear NewCache 5057) = Some (rs, cache) \<and>
     process_record put_tags demo_proc_view demo_measures cache 1 [] ''t'' demo_process = Some rec \<and>
     mset (reported rs) = {#Some ''/bin/x''#} \<and> map_of (cr_Fields rec) ''integrity'' = Some ''false''"
proof -
  let ?files = "package_files id (dpkg_versions demo_dpkg) demo_sums"
  have f: "?files = [(''/bin/x'', ''0'')]" by (simp add: demo_files demo_sums_def)
  have ok: "list_all (\<lambda>p. readable demo_disk (fst p)) ?files" by (simp add: f demo_disk_def)
  have "mset (rev l) = mset l" for l :: "(string \<times> string) list" by simp
  note perm = this and pm = mset_package_files[of rev, OF this]
  have okr: "list_all (\<lambda>p. readable demo_disk (fst p)) (package_files rev (dpkg_versions demo_dpkg) demo_sums)"
    using ok mset_eq_setD[OF pm] by (simp only: list_all_iff)
  have "Cache_ready (Cache_clear NewCache 5057) 5057" using cc.ready_clear by blast
  then obtain rs cache where d: "dpkg_packages rev (\<lambda>_. []) demo_disk 0 ''s'' (dpkg_versions demo_dpkg) demo_sums ([], [], Cache_clear NewCache 5057) = Some ([], rs, cache)"
    using dpkg_packages_exact[OF okr] by blast
  have run: "IntegrityHandler_Handle rev (\<lambda>_. []) (\<lambda>_ _. []) demo_disk 0 ''s'' (Some demo_dpkg) (Some demo_sums) [] (Cache_clear NewCache 5057) = Some (rs, cache)"
    using d by (simp add: IntegrityHandler_Handle_def)
  have cl: "pr_Cmdline demo_proc_view demo_process = ((''x'', False), demo_process)" by (simp add: pr_Cmdline_def demo_process_def)
  have ex: "pr_Exe demo_proc_view demo_process = ((''/bin/x'', False), demo_process)" by (simp add: pr_Exe_def demo_process_def)
  have ns: "pr_Namespaces demo_proc_view demo_process = (empty_ns, True)" by (simp add: pr_Namespaces_def demo_proc_view_def demo_view_def)
  have rd: "hv_read demo_proc_view x = Some []" for x by (simp add: demo_proc_view_def)
  have "process_record put_tags demo_proc_view demo_measures cache 1 [] ''t'' demo_process \<noteq> None"
    by (simp add: process_record_def cl pr_Stat_def pr_Status_def rd Let_def split: prod.splits)
  then obtain rec where rec: "process_record put_tags demo_proc_view demo_measures cache 1 [] ''t'' demo_process = Some rec" by blast
  have ch: "changed_file (\<lambda>_. []) demo_disk (''/bin/x'', ''0'')" by (simp add: changed_file_def demo_disk_def hex_bytes_def)
  have pn: "path_Ext ''a.md5sums'' = ''.md5sums''" "TrimSuffix (path_Base ''a.md5sums'') ''.md5sums'' = ''a''" by code_simp+
  have "cache = [(5057, [(''/bin/x'', [])])]"
    using d by (simp add: demo_sums_def demo_files pn demo_disk_def hex_bytes_def Cache_Put_def Cache_clear_def NewCache_def)
  then have host: "fst (process_container cache (ns_Pid (fst (pr_Namespaces demo_proc_view (snd (pr_Cmdline demo_proc_view demo_process)))))) = []"
    by (simp add: process_container_def container_fields_def Cache_Get_def)
  have "mset (reported rs) = mset (map (Some \<circ> fst) (filter (changed_file (\<lambda>_. []) demo_disk) ?files)) \<and>
    map_of (cr_Fields rec) ''integrity'' = Some (if ''/bin/x'' \<in> fst ` set (filter (changed_file (\<lambda>_. []) demo_disk) ?files) then ''false'' else ''true'')"
    by (rule tampered_executable_reported[OF perm run refl ok put_tags_only rec _ host]) (simp add: cl ex)
  then show ?thesis using run rec ch by (auto simp: f)
qed

text \<open>
  C39. After a file that cannot be read to its end, the next file of the same run is compared by a wrong checksum, since the hash still
  holds the bytes of the first: an unchanged executable is reported as changed.
\<close>

theorem unreadable_file_taints_next:
  assumes f1: "disk p1 = Some f1" "small_file f1" "df_error f1" and f2: "disk p2 = Some f2" "small_file f2" "\<not> df_error f2"
    and same: "hex_bytes (md5 (df_bytes f2)) = od2" and differ: "hex_bytes (md5 (df_bytes f1 @ df_bytes f2)) \<noteq> od2"
    and ready: "Cache_ready cache 5057"
  shows "\<exists>r cache'. dpkg_verify md5 disk now seq pn v [(p1, od1), (p2, od2)] ([], [], cache) = Some ([], [r], cache') \<and>
    map_of (cr_Fields r) ''exe'' = Some p2 \<and> snd (Cache_Get cache' 5057 p2) \<and> \<not> changed_file md5 disk (p2, od2)"
proof -
  obtain c1 where c1: "Cache_Put cache 5057 p2 [] = Some c1" using ready cc.put_ready[of cache 5057 p2 "[]"] by auto
  have "\<not> changed_file md5 disk (p2, od2)" using f2 same by (simp add: changed_file_def)
  then show ?thesis using f1 f2 differ c1 cc.get_put[OF c1, of 5057 p2] by (simp add: integrity_record_def Let_def)
qed

theorem unreadable_file_taints_next_witness:
  "\<exists>r cache'. dpkg_verify (\<lambda>b. b) (\<lambda>p. if p = ''/bin/a'' then Some \<lparr>df_size = 2, df_mtime = 0, df_bytes = ''q'', df_error = True\<rparr>
       else Some \<lparr>df_size = 1, df_mtime = 0, df_bytes = ''z'', df_error = False\<rparr>) 0 ''s'' ''pkg'' ''1'' [(''/bin/a'', ''00''), (''/bin/b'', hex_bytes ''z'')] ([], [], Cache_clear NewCache 5057) =
     Some ([], [r], cache') \<and> map_of (cr_Fields r) ''exe'' = Some ''/bin/b''"
proof -
  let ?d = "\<lambda>p. if p = ''/bin/a'' then Some \<lparr>df_size = 2, df_mtime = 0, df_bytes = ''q'', df_error = True\<rparr>
       else Some \<lparr>df_size = 1, df_mtime = 0, df_bytes = ''z'', df_error = False\<rparr>"
  have "\<exists>r cache'. dpkg_verify (\<lambda>b. b) ?d 0 ''s'' ''pkg'' ''1'' [(''/bin/a'', ''00''), (''/bin/b'', hex_bytes ''z'')] ([], [], Cache_clear NewCache 5057) =
     Some ([], [r], cache') \<and> map_of (cr_Fields r) ''exe'' = Some ''/bin/b'' \<and> snd (Cache_Get cache' 5057 ''/bin/b'') \<and>
     \<not> changed_file (\<lambda>b. b) ?d (''/bin/b'', hex_bytes ''z'')"
    by (rule unreadable_file_taints_next[where ?f1.0 = "\<lparr>df_size = 2, df_mtime = 0, df_bytes = ''q'', df_error = True\<rparr>"
      and ?f2.0 = "\<lparr>df_size = 1, df_mtime = 0, df_bytes = ''z'', df_error = False\<rparr>"]) (use cc.ready_clear in \<open>auto simp: hex_bytes_def\<close>)
  then show ?thesis by blast
qed

section \<open>Services, users and names of software\<close>

definition restart_line :: "string \<Rightarrow> bool" where
  "restart_line l = (case Split l ''='' of [k, v] \<Rightarrow> TrimSpace k = ''Restart'' | _ \<Rightarrow> False)"

lemma case_two: "\<nexists>k v. xs = [k, v] \<Longrightarrow> (case xs of [k, v] \<Rightarrow> f k v | _ \<Rightarrow> g) = g"
  by (cases xs; cases "tl xs"; cases "tl (tl xs)") auto

lemma service_line_restart:
  assumes "sv_Restart u \<noteq> ''no''"
  shows "sv_Restart (service_line u l) = (if restart_line l then ''true'' else sv_Restart u) \<and> sv_BusName (service_line u l) = sv_BusName u"
proof (cases "\<exists>k v. Split l ''='' = [k, v]")
  case True
  then obtain k v where "Split l ''='' = [k, v]" by blast
  then show ?thesis using assms by (simp add: service_line_def restart_line_def)
next
  case False
  have "service_line u l = u" unfolding service_line_def by (rule case_two[OF False])
  moreover have "restart_line l = False" unfolding restart_line_def by (rule case_two[OF False])
  ultimately show ?thesis by simp
qed

lemma service_lines_restart:
  "sv_Restart u \<noteq> ''no'' \<Longrightarrow> sv_Restart (foldl service_line u ls) = (if list_ex restart_line ls then ''true'' else sv_Restart u) \<and>
     sv_BusName (foldl service_line u ls) = sv_BusName u"
proof (induction ls arbitrary: u)
  case (Cons l ls)
  note st = service_line_restart[OF Cons.prems, of l]
  then have "sv_Restart (service_line u l) \<noteq> ''no''" using Cons.prems by simp
  from Cons.IH[OF this] st show ?case by auto
qed simp

text \<open>
  The value of a unit's \<open>Restart\<close> setting is not looked at: a service is reported as restarting as soon as it has such a line, also
  when it says \<open>no\<close>; and its bus name is never read, so that no service is reported as one of the bus by default.
\<close>

theorem restart_value_ignored:
  "sv_Restart (parse_service name md5 c) = (if list_ex restart_line (ScanLines (take (1024 * 1024) c)) then ''true'' else ''false'') \<and>
   sv_BusName (parse_service name md5 c) = []"
proof -
  define ls where "ls = ScanLines (take (1024 * 1024) c)"
  define u where "u = \<lparr>sv_Name = name, sv_Type = [], sv_Command = [], sv_Restart = ''false'', sv_WorkingDir = [], sv_Checksum = [], sv_BusName = []\<rparr>"
  have d: "sv_Restart (SetDefault s) = sv_Restart s" "sv_BusName (SetDefault s) = sv_BusName s" for s
    unfolding SetDefault_def by (cases "sv_Type s = []"; cases "sv_BusName s = []"; cases "sv_Command s = []"; simp)+
  have p: "parse_service name md5 c = SetDefault ((foldl service_line u ls)\<lparr>sv_Checksum := md5\<rparr>)"
    by (simp only: parse_service_def ls_def u_def)
  have "sv_Restart u = ''false''" "sv_BusName u = []" by (simp_all add: u_def)
  then have "sv_Restart (foldl service_line u ls) = (if list_ex restart_line ls then ''true'' else ''false'') \<and> sv_BusName (foldl service_line u ls) = []"
    using service_lines_restart[of u ls] by simp
  then show ?thesis unfolding p d ls_def[symmetric] by simp
qed

text \<open>
  The address of a user's last login is printed correctly exactly if its last byte is not zero: the zero bytes at the end of an IPv4 address are
  cut off with the padding, and the shortened address is printed as unknown bytes.
\<close>

theorem login_ip_cases:
  "login_ip ([a, b, c, d] @ replicate 12 NUL) =
     (if d \<noteq> NUL then dotted [a, b, c, d]
      else if c \<noteq> NUL then CHR ''?'' # hex_bytes [a, b, c]
      else if b \<noteq> NUL then CHR ''?'' # hex_bytes [a, b]
      else if a \<noteq> NUL then CHR ''?'' # hex_bytes [a] else ''<nil>'')"
proof -
  have t: "TrimRightByte NUL ([a, b, c, d] @ replicate 12 NUL) = TrimRightByte NUL [a, b, c, d]"
    by (simp add: TrimRightByte_def numeral_eq_Suc)
  have "TrimRightByte NUL [a, b, c, d] = (if d \<noteq> NUL then [a, b, c, d] else if c \<noteq> NUL then [a, b, c] else if b \<noteq> NUL then [a, b]
      else if a \<noteq> NUL then [a] else [])" by (simp add: TrimRightByte_def)
  then show ?thesis unfolding login_ip_def t by (simp add: IP_String_def)
qed

lemma jar_name: "is_digit d \<Longrightarrow> parseJarFilename n = (n, []) \<Longrightarrow> parseJarFilename (n @ CHR ''-'' # d # v) = (n, d # v)"
proof (induction n rule: parseJarFilename.induct)
  case (1 a b r)
  then show ?case by (auto split: prod.splits if_splits)
qed (simp_all add: is_digit_def)

text \<open>The first separator is found, if its first character occurs nowhere else in it.\<close>

lemma Cut_first:
  assumes "c \<notin> set t" "Cut a (c # t) = None"
  shows "Cut (a @ (c # t) @ b) (c # t) = Some (a, b)"
  using assms(2)
proof (induction a)
  case Nil
  then show ?case by (simp add: HasPrefix_def)
next
  case (Cons x a)
  have none: "\<not> HasPrefix (x # a) (c # t)" "Cut a (c # t) = None" using Cons.prems by (auto split: if_splits)
  have "\<not> HasPrefix (x # a @ (c # t) @ b) (c # t)"
  proof
    assume p: "HasPrefix (x # a @ (c # t) @ b) (c # t)"
    show False
    proof (cases "length t \<le> length a")
      case True
      then show False using p none(1) by (simp add: HasPrefix_def)
    next
      case False
      then have l: "length a < length t" by simp
      have "take (length t) (a @ c # t @ b) = t" using p by (simp add: HasPrefix_def)
      then have "t ! length a = (a @ c # t @ b) ! length a" using l by (metis nth_take)
      then have "t ! length a = c" by (simp add: nth_append)
      then show False using assms(1) l nth_mem by blast
    qed
  qed
  then show ?case using Cons.IH[OF none(2)] by simp
qed

lemma dpkg_chunks_Cons:
  assumes P: "P = ''Package: ''" and "Cut a pkg_sep = None" "a \<noteq> []" "length a + 10 \<le> 65536"
  shows "dpkg_chunks (a @ pkg_sep @ b) = a # dpkg_chunks (P @ b)"
proof -
  have "Cut (a @ pkg_sep @ b) pkg_sep = Some (a, b)"
    using Cut_first[of "CHR 0x0A" "''Package: ''" a b] assms(2) by (simp add: pkg_sep_def)
  then show ?thesis using assms(3,4) unfolding P by (subst dpkg_chunks.simps) simp
qed

lemma dpkg_chunks_Join:
  assumes P: "P = ''Package: ''" and "ss \<noteq> []" "list_all (\<lambda>s. Cut (P @ s) pkg_sep = None \<and> length s + 19 \<le> 65536) ss"
  shows "dpkg_chunks (Join (map ((@) P) ss) [CHR 0x0A]) = map ((@) P) ss"
  using assms(2,3)
proof (induction ss)
  case (Cons s ss)
  have P': "P \<noteq> []" "length P = 9" by (simp_all add: P)
  have s: "Cut (P @ s) pkg_sep = None" "length (P @ s) + 10 \<le> 65536" "P @ s \<noteq> []" using Cons.prems P' by simp_all
  show ?case
  proof (cases ss)
    case Nil
    then show ?thesis using s by (subst dpkg_chunks.simps) simp
  next
    case (Cons t ts)
    obtain rest where J: "Join (map ((@) P) ss) [CHR 0x0A] = P @ rest" by (cases ts) (simp_all add: Cons)
    have "Join (map ((@) P) (s # ss)) [CHR 0x0A] = (P @ s) @ pkg_sep @ rest" using J by (simp add: Cons pkg_sep_def P)
    then have "dpkg_chunks (Join (map ((@) P) (s # ss)) [CHR 0x0A]) = (P @ s) # dpkg_chunks (P @ rest)"
      using dpkg_chunks_Cons[OF P s(1) s(3) s(2)] by simp
    then show ?thesis using Cons.IH Cons.prems Cons J by simp
  qed
qed simp

text \<open>
  Every installed Debian package is reported once, from its own stanza: for a status file of at most 25 MiB whose stanzas fit the scanner's buffer,
  the software found is, in order, what the lines of each stanza give.
\<close>

theorem dpkg_stanzas_reported:
  assumes "ss \<noteq> []" "list_all (\<lambda>s. Cut (''Package: '' @ s) pkg_sep = None \<and> length s + 19 \<le> 65536) ss"
    and "content = Join (map ((@) ''Package: '') ss) [CHR 0x0A]" "length content \<le> 25 * 1024 * 1024"
  shows "dpkg_software seq content =
    map (\<lambda>s. foldl dpkg_line (new_software seq ''dpkg'') (Split (''Package: '' @ s) [CHR 0x0A])) ss"
  using assms dpkg_chunks_Join[OF refl assms(1,2)] by (simp add: dpkg_software_def comp_def del: append.simps)

theorem dpkg_stanzas_reported_witness:
  "map sw_Name (dpkg_software ''q'' (Join (map ((@) ''Package: '') [''a'', ''b'']) [CHR 0x0A])) = [''a'', ''b'']"
proof -
  have c: "list_all (\<lambda>s. Cut (''Package: '' @ s) pkg_sep = None \<and> length s + 19 \<le> 65536) [''a'', ''b'']"
    by (simp add: pkg_sep_def HasPrefix_def)
  have "sw_Name (foldl dpkg_line (new_software ''q'' ''dpkg'') (Split (''Package: '' @ x) [CHR 0x0A])) = x" if "x = ''a'' \<or> x = ''b''" for x
    using that by (elim disjE; hypsubst) code_simp+
  then show ?thesis using dpkg_stanzas_reported[OF _ c refl, of "''q''"] by simp
qed

section \<open>Crontabs\<close>

abbreviation word :: "string \<Rightarrow> bool" where
  "word w \<equiv> w \<noteq> [] \<and> list_all (\<lambda>c. \<not> is_space c) w"

lemma Fields_space: "is_space c \<Longrightarrow> Fields (c # r) = Fields r"
  by (subst Fields.simps, subst (2) Fields.simps) simp

lemma dropWhile_word: "word w \<Longrightarrow> dropWhile is_space (w @ r) = w @ r"
  by (cases w) auto

lemma Fields_word: "word w \<Longrightarrow> Fields (w @ CHR '' '' # r) = w # Fields r"
proof -
  assume w: "word w"
  have sp: "is_space (CHR '' '')" by (simp add: is_space_def)
  have t: "takeWhile (\<lambda>c. \<not> is_space c) (w @ CHR '' '' # r) = w" "dropWhile (\<lambda>c. \<not> is_space c) (w @ CHR '' '' # r) = CHR '' '' # r"
    using w sp by (simp_all add: takeWhile_append2 dropWhile_append2 list_all_iff)
  have "Fields (w @ CHR '' '' # r) = w # Fields (CHR '' '' # r)"
    using w t dropWhile_word[OF w, of "CHR '' '' # r"] by (subst Fields.simps) (simp add: Let_def)
  then show ?thesis using Fields_space[OF sp] by simp
qed

lemma Fields_last: "word w \<Longrightarrow> Fields w = [w]"
proof -
  assume w: "word w"
  have t: "takeWhile (\<lambda>c. \<not> is_space c) w = w" "dropWhile (\<lambda>c. \<not> is_space c) w = []"
    using w by (simp_all add: takeWhile_eq_all_conv dropWhile_eq_Nil_conv list_all_iff)
  have "Fields [] = []" by (subst Fields.simps) simp
  moreover have "dropWhile is_space w = w" using dropWhile_word[OF w, of "[]"] by simp
  ultimately show ?thesis using w by (subst Fields.simps) (simp add: Let_def t)
qed

lemma Fields_Join: "list_all word ws \<Longrightarrow> ws \<noteq> [] \<Longrightarrow> Fields (Join ws '' '') = ws"
proof (induction ws)
  case (Cons w ws)
  show ?case
  proof (cases ws)
    case Nil
    then show ?thesis using Cons.prems Fields_last by simp
  next
    case (Cons v vs)
    then show ?thesis using Cons.prems Cons.IH Fields_word[of w "Join ws '' ''"] by simp
  qed
qed simp

lemma TrimSpace_id:
  assumes "s \<noteq> []" "\<not> is_space (hd s)" "\<not> is_space (last s)"
  shows "TrimSpace s = s"
proof -
  have "dropWhile is_space s = s" using assms by (cases s) auto
  moreover have "dropWhile is_space (rev s) = rev s"
  proof (cases "rev s")
    case (Cons y ys)
    have "hd (rev s) = last s" using assms(1) by (simp add: hd_rev)
    then have "\<not> is_space y" using assms(3) Cons by (metis list.sel(1))
    then show ?thesis unfolding Cons by simp
  qed simp
  ultimately show ?thesis by (simp add: TrimSpace_def)
qed

lemma Join_ends:
  "list_all word ws \<Longrightarrow> ws \<noteq> [] \<Longrightarrow> Join ws '' '' \<noteq> [] \<and> hd (Join ws '' '') = hd (hd ws) \<and> \<not> is_space (last (Join ws '' ''))"
proof (induction ws)
  case (Cons w ws)
  show ?case
  proof (cases ws)
    case Nil
    then show ?thesis using Cons.prems by (simp add: list_all_iff)
  next
    case (Cons v vs)
    then show ?thesis using Cons.prems Cons.IH by simp
  qed
qed simp

lemma ScanLines_terminated:
  assumes "list_all (\<lambda>l. CHR 0x0A \<notin> set l \<and> length l < 65536 \<and> (l = [] \<or> last l \<noteq> CHR 0x0D)) ls"
  shows "ScanLines (concat (map (\<lambda>l. l @ [CHR 0x0A]) ls)) = ls"
proof -
  have "Split (concat (map (\<lambda>l. l @ [CHR 0x0A]) ls)) [CHR 0x0A] = ls @ [[]]"
    using assms by (intro Split_terminated) (simp add: list_all_iff)
  then have r: "scan_lines_raw (concat (map (\<lambda>l. l @ [CHR 0x0A]) ls)) = ls" by (simp add: scan_lines_raw_def)
  have t: "takeWhile (\<lambda>l. length l < 65536) ls = ls" using assms by (simp add: takeWhile_eq_all_conv list_all_iff)
  have "map drop_cr ls = ls" using assms by (intro map_idI) (auto simp: drop_cr_def list_all_iff)
  then show ?thesis unfolding ScanLines_def r t .
qed

definition wf_cron :: "string list \<Rightarrow> bool" where
  "wf_cron fs \<longleftrightarrow> 7 \<le> length fs \<and> list_all word fs \<and> hd (hd fs) \<noteq> CHR ''#'' \<and> hd (hd fs) \<noteq> CHR ''@'' \<and> length (Join fs '' '') < 65536"

lemma Join_set: "set (Join ws sep) \<subseteq> \<Union> (set ` set ws) \<union> set sep"
  by (induction ws sep rule: Join.induct) auto

lemma cron_line_entry:
  assumes "wf_cron fs"
  shows "cron_line True path md5 (Join fs '' '') =
    Some \<lparr>cn_Path = path, cn_Username = fs ! 5, cn_Schedule = Join (take 5 fs) '' '', cn_Command = Join (drop 6 fs) '' '', cn_Checksum = md5\<rparr>"
proof -
  have w: "list_all word fs" "fs \<noteq> []" "7 \<le> length fs" using assms by (auto simp: wf_cron_def)
  note e = Join_ends[OF w(1,2)]
  have h: "\<not> is_space (hd (hd fs))" using w(1,2) by (cases fs; cases "hd fs") auto
  have t: "TrimSpace (Join fs '' '') = Join fs '' ''" using e h by (intro TrimSpace_id) auto
  have p: "\<not> HasPrefix (Join fs '' '') ''#''" "\<not> HasPrefix (Join fs '' '') ''@''"
    using e assms by (cases "Join fs '' ''"; auto simp: HasPrefix_def wf_cron_def)+
  show ?thesis unfolding cron_line_def Let_def t Fields_Join[OF w(1,2)] using e p w(3) by simp
qed

text \<open>
  A system crontab is read back entry by entry: for lines of at least seven words, the first five are the schedule, the sixth is the user and the rest the
  command, whatever the words are.
\<close>

theorem crontab_roundtrip:
  assumes wf: "list_all wf_cron entries"
    and content: "content = concat (map (\<lambda>fs. Join fs '' '' @ [CHR 0x0A]) entries)" "length content \<le> 1024 * 1024"
  shows "parseCrontab True path md5 content =
    map (\<lambda>fs. \<lparr>cn_Path = path, cn_Username = fs ! 5, cn_Schedule = Join (take 5 fs) '' '', cn_Command = Join (drop 6 fs) '' '', cn_Checksum = md5\<rparr>) entries"
proof -
  let ?ls = "map (\<lambda>fs. Join fs '' '') entries"
  have sp: "is_space (CHR 0x0A)" "is_space (CHR 0x0D)" by (simp_all add: is_space_def)
  have nl: "CHR 0x0A \<notin> set (Join fs '' '')" if "wf_cron fs" for fs
    using that sp(1) Join_set[of fs "'' ''"] by (fastforce simp: wf_cron_def list_all_iff)
  have ls: "list_all (\<lambda>l. CHR 0x0A \<notin> set l \<and> length l < 65536 \<and> (l = [] \<or> last l \<noteq> CHR 0x0D)) ?ls"
  proof -
    have "CHR 0x0A \<notin> set (Join fs '' '') \<and> length (Join fs '' '') < 65536 \<and> (Join fs '' '' = [] \<or> last (Join fs '' '') \<noteq> CHR 0x0D)"
      if "fs \<in> set entries" for fs
    proof -
      have c: "wf_cron fs" using wf that by (simp add: list_all_iff)
      have "\<not> is_space (last (Join fs '' ''))" using Join_ends[of fs] c by (cases fs) (auto simp: wf_cron_def)
      then show ?thesis using nl[OF c] c sp(2) by (auto simp: wf_cron_def)
    qed
    then show ?thesis by (simp add: list_all_iff)
  qed
  have "content = concat (map (\<lambda>l. l @ [CHR 0x0A]) ?ls)" using content(1) by (simp add: comp_def)
  then have s: "ScanLines (take (1024 * 1024) content) = ?ls" using ScanLines_terminated[OF ls] content(2) by simp
  have m: "map (\<lambda>l. case cron_line True path md5 l of None \<Rightarrow> [] | Some c \<Rightarrow> [c]) ?ls =
      map (\<lambda>fs. [\<lparr>cn_Path = path, cn_Username = fs ! 5, cn_Schedule = Join (take 5 fs) '' '', cn_Command = Join (drop 6 fs) '' '', cn_Checksum = md5\<rparr>]) entries"
    using wf by (auto simp: cron_line_entry list_all_iff)
  show ?thesis unfolding parseCrontab_def s m by (rule concat_map_singleton)
qed

theorem crontab_roundtrip_witness:
  "parseCrontab True ''/etc/cron.d/x'' ''0'' (concat (map (\<lambda>fs. Join fs '' '' @ [CHR 0x0A]) [[''5'', ''*'', ''*'', ''*'', ''*'', ''root'', ''run'', ''it'']])) =
     [\<lparr>cn_Path = ''/etc/cron.d/x'', cn_Username = ''root'', cn_Schedule = ''5 * * * *'', cn_Command = ''run it'', cn_Checksum = ''0''\<rparr>]"
proof -
  have "list_all wf_cron [[''5'', ''*'', ''*'', ''*'', ''*'', ''root'', ''run'', ''it'']]" by (simp add: wf_cron_def is_space_def)
  from crontab_roundtrip[OF this refl, of "''/etc/cron.d/x''" "''0''"] show ?thesis by simp
qed

text \<open>In a user's crontab the lines with a nickname such as \<open>@reboot\<close> give the path of the file, not its base name, as the user.\<close>

lemma nickname_user_is_path:
  "cron_line False path md5 l = Some c \<Longrightarrow> cn_Username c = (if HasPrefix (TrimSpace l) ''@'' then path else path_Base path)"
  by (auto simp: cron_line_def Let_def split: if_splits)

end
