(* ===== verification/CollectorZip.thy ===== *)
theory CollectorZip
  imports GoHost "HOL-Library.Word"
begin

unbundle bit_operations_syntax

text \<open>
  The reader of archives of the collector (\<open>plugins/collector/zip/zip.go\<close>) over the bytes of a file: the end of the central directory with
  its 64-bit variant, the headers of the directory, data descriptors, and the check of length and checksum at the end of a file.
  The lemmas show that the directory of an archive is read back, that the search for its end finds the last candidate, and what a
  file that was read without an error satisfies.  The inflating of compressed data is a parameter.
\<close>

section \<open>Data\<close>

datatype zip_error = ErrFormat | ErrAlgorithm | ErrChecksum | ErrComment | ErrNegative | ErrRead read_error

record directoryEnd =
  de_diskNbr :: nat
  de_dirDiskNbr :: nat
  de_dirRecordsThisDisk :: nat
  de_directoryRecords :: nat
  de_directorySize :: nat
  de_directoryOffset :: nat
  de_comment :: string

record zip_File =
  zf_Name :: string
  zf_NonUTF8 :: bool
  zf_CreatorVersion :: nat
  zf_ReaderVersion :: nat
  zf_Flags :: nat
  zf_Method :: nat
  zf_CRC32 :: nat
  zf_CompressedSize :: nat
  zf_UncompressedSize :: nat
  zf_CompressedSize64 :: nat
  zf_UncompressedSize64 :: nat
  zf_Extra :: string
  zf_headerOffset :: int
  zf_zip64 :: bool
  zf_descErr :: "zip_error option"

abbreviation uint32max :: nat where "uint32max \<equiv> 4294967295"

text \<open>The little-endian number of \<open>n\<close> bytes at a place of a buffer that is long enough: \<open>readBuf\<close>'s \<open>uint16\<close>, \<open>uint32\<close> and \<open>uint64\<close>.\<close>

definition buf_at :: "nat \<Rightarrow> nat \<Rightarrow> string \<Rightarrow> nat" where
  "buf_at n i b = le_val (take n (drop i b))"

text \<open>\<open>ReadAt\<close> of a file: it fails for a negative place and where not all bytes are there.\<close>

definition ReadAt_file :: "string \<Rightarrow> int \<Rightarrow> nat \<Rightarrow> zip_error + string" where
  "ReadAt_file f off n =
     (if off < 0 then Inl ErrNegative
      else if nat off + n \<le> length f then Inr (take n (drop (nat off) f)) else Inl (ErrRead ReadEOF))"

section \<open>The end of the central directory\<close>

definition end_sig :: string where
  "end_sig = ''PK'' @ [CHR 0x05, CHR 0x06]"

definition sig_at :: "string \<Rightarrow> nat \<Rightarrow> bool" where
  "sig_at b i \<longleftrightarrow> take 4 (drop i b) = end_sig \<and> buf_at 2 (i + 20) b + 22 + i \<le> length b"

fun sig_loop :: "string \<Rightarrow> nat \<Rightarrow> nat option" where
  "sig_loop b 0 = (if sig_at b 0 then Some 0 else None)"
| "sig_loop b (Suc i) = (if sig_at b (Suc i) then Some (Suc i) else sig_loop b i)"

definition findSignatureInBlock :: "string \<Rightarrow> nat option" where
  "findSignatureInBlock b = (if length b < 22 then None else sig_loop b (length b - 22))"

definition find_end :: "string \<Rightarrow> zip_error + nat" where
  "find_end f =
     (let size = length f; b1 = min 1024 size; b2 = min (65 * 1024) size
      in case findSignatureInBlock (drop (size - b1) f) of
           Some p \<Rightarrow> Inr (size - b1 + p)
         | None \<Rightarrow>
             if b1 = size then Inl ErrFormat
             else (case findSignatureInBlock (drop (size - b2) f) of
                     Some p \<Rightarrow> Inr (size - b2 + p)
                   | None \<Rightarrow> Inl ErrFormat))"

definition findDirectory64End :: "string \<Rightarrow> nat \<Rightarrow> zip_error + int" where
  "findDirectory64End f endOffset =
     (let loc = int endOffset - 20
      in if loc < 0 then Inr (-1)
         else case ReadAt_file f loc 20 of
                Inl e \<Rightarrow> Inl e
              | Inr b \<Rightarrow>
                  if buf_at 4 0 b \<noteq> 0x07064b50 then Inr (-1)
                  else if buf_at 4 4 b \<noteq> 0 then Inr (-1)
                  else if buf_at 4 16 b \<noteq> 1 then Inr (-1)
                  else Inr (wrap64 (int (buf_at 8 8 b))))"

definition readDirectory64End :: "string \<Rightarrow> int \<Rightarrow> directoryEnd \<Rightarrow> zip_error + directoryEnd" where
  "readDirectory64End f offset d =
     (case ReadAt_file f offset 56 of
        Inl e \<Rightarrow> Inl e
      | Inr b \<Rightarrow>
          if buf_at 4 0 b \<noteq> 0x06064b50 then Inl ErrFormat
          else Inr (d\<lparr>de_diskNbr := buf_at 4 16 b, de_dirDiskNbr := buf_at 4 20 b, de_dirRecordsThisDisk := buf_at 8 24 b,
                 de_directoryRecords := buf_at 8 32 b, de_directorySize := buf_at 8 40 b, de_directoryOffset := buf_at 8 48 b\<rparr>))"

definition end_record :: "string \<Rightarrow> zip_error + directoryEnd" where
  "end_record b =
     (let l = buf_at 2 20 b
      in if length (drop 22 b) < l then Inl ErrComment
         else Inr \<lparr>de_diskNbr = buf_at 2 4 b, de_dirDiskNbr = buf_at 2 6 b, de_dirRecordsThisDisk = buf_at 2 8 b,
                de_directoryRecords = buf_at 2 10 b, de_directorySize = buf_at 4 12 b, de_directoryOffset = buf_at 4 16 b,
                de_comment = take l (drop 22 b)\<rparr>)"

definition maybe_zip64 :: "directoryEnd \<Rightarrow> bool" where
  "maybe_zip64 d \<longleftrightarrow> de_directoryRecords d = 0xffff \<or> de_directorySize d = 0xffff \<or> de_directoryOffset d = 0xffffffff"

definition readDirectoryEnd :: "string \<Rightarrow> zip_error + directoryEnd" where
  "readDirectoryEnd f =
     (case find_end f of
        Inl e \<Rightarrow> Inl e
      | Inr off \<Rightarrow>
          (case end_record (drop off f) of
             Inl e \<Rightarrow> Inl e
           | Inr d \<Rightarrow>
               (case (if maybe_zip64 d
                      then (case findDirectory64End f off of
                              Inl e \<Rightarrow> Inl e
                            | Inr p \<Rightarrow> if 0 \<le> p then readDirectory64End f p d else Inr d)
                      else Inr d) of
                  Inl e \<Rightarrow> Inl e
                | Inr d \<Rightarrow>
                    let out = wrap64 (int (de_directoryOffset d))
                    in if out < 0 \<or> int (length f) \<le> out then Inl ErrFormat else Inr d)))"

section \<open>Names in UTF-8\<close>

text \<open>\<open>utf8.DecodeRuneInString\<close> on a text that is not empty: the rune and its size.\<close>

definition cont :: "nat \<Rightarrow> nat \<Rightarrow> char \<Rightarrow> bool" where
  "cont lo hi c \<longleftrightarrow> lo \<le> of_char c \<and> of_char c \<le> hi"

abbreviation tail6 :: "char \<Rightarrow> nat" where "tail6 c \<equiv> of_char c mod 64"

fun DecodeRune :: "string \<Rightarrow> nat \<times> nat" where
  "DecodeRune [] = (0xFFFD, 0)"
| "DecodeRune (a # r) =
     (let x = of_char a
      in if x < 0x80 then (x, 1)
         else if 0xC2 \<le> x \<and> x \<le> 0xDF then
           (case r of b # _ \<Rightarrow> if cont 0x80 0xBF b then ((x mod 32) * 64 + tail6 b, 2) else (0xFFFD, 1) | _ \<Rightarrow> (0xFFFD, 1))
         else if 0xE0 \<le> x \<and> x \<le> 0xEF then
           (case r of b # c # _ \<Rightarrow>
              if cont (if x = 0xE0 then 0xA0 else 0x80) (if x = 0xED then 0x9F else 0xBF) b \<and> cont 0x80 0xBF c
              then ((x mod 16) * 4096 + tail6 b * 64 + tail6 c, 3) else (0xFFFD, 1)
            | _ \<Rightarrow> (0xFFFD, 1))
         else if 0xF0 \<le> x \<and> x \<le> 0xF4 then
           (case r of b # c # d # _ \<Rightarrow>
              if cont (if x = 0xF0 then 0x90 else 0x80) (if x = 0xF4 then 0x8F else 0xBF) b \<and> cont 0x80 0xBF c \<and> cont 0x80 0xBF d
              then ((x mod 8) * 262144 + tail6 b * 4096 + tail6 c * 64 + tail6 d, 4) else (0xFFFD, 1)
            | _ \<Rightarrow> (0xFFFD, 1))
         else (0xFFFD, 1))"

lemma DecodeRune_size: "s \<noteq> [] \<Longrightarrow> 0 < snd (DecodeRune s)"
  by (cases s) (auto simp: Let_def split: list.splits)

lemma drop_rune: "s \<noteq> [] \<Longrightarrow> x = DecodeRune s \<Longrightarrow> (r, n) = x \<Longrightarrow> length s - n < length s"
  using DecodeRune_size[of s] by (cases "DecodeRune s") auto

text \<open>A rune that was decoded is valid unless it is the replacement for one bad byte.\<close>

function detect_loop :: "string \<Rightarrow> bool \<Rightarrow> bool \<times> bool" where
  "detect_loop s require =
     (if s = [] then (True, require)
      else let (r, size) = DecodeRune s
           in if r < 0x20 \<or> r > 0x7d \<or> r = 0x5c
              then (if r = 0xFFFD \<and> size = 1 then (False, False) else detect_loop (drop size s) True)
              else detect_loop (drop size s) require)"
  by pat_completeness auto
termination
  by (relation "measure (length \<circ> fst)") (simp_all add: drop_rune)

declare detect_loop.simps [simp del]

definition detectUTF8 :: "string \<Rightarrow> bool \<times> bool" where
  "detectUTF8 s = detect_loop s False"

definition nonUTF8 :: "string \<Rightarrow> nat \<Rightarrow> bool" where
  "nonUTF8 name flags =
     (let (valid, require) = detectUTF8 name
      in if \<not> valid then True else if \<not> require then False else \<not> bit flags 11)"

section \<open>The headers of the central directory\<close>

text \<open>
  The extra field of a header.  The flags say which of the two sizes and the offset of the header are still to come from the
  block of 64-bit values.
\<close>

type_synonym zip_needs = "bool \<times> bool \<times> bool"

definition zip64_field :: "string \<Rightarrow> zip_File \<Rightarrow> zip_needs \<Rightarrow> zip_error + zip_File \<times> zip_needs" where
  "zip64_field b f needs =
     (case needs of (needU, needC, needH) \<Rightarrow>
        let f = f\<lparr>zf_zip64 := True\<rparr>
        in if needU \<and> length b < 8 then Inl ErrFormat
           else let f = (if needU then f\<lparr>zf_UncompressedSize64 := buf_at 8 0 b\<rparr> else f); b = (if needU then drop 8 b else b)
           in if needC \<and> length b < 8 then Inl ErrFormat
           else let f = (if needC then f\<lparr>zf_CompressedSize64 := buf_at 8 0 b\<rparr> else f); b = (if needC then drop 8 b else b)
           in if needH \<and> length b < 8 then Inl ErrFormat
           else let f = (if needH then f\<lparr>zf_headerOffset := wrap64 (int (buf_at 8 0 b))\<rparr> else f)
           in Inr (f, False, False, False))"

function zip_extra :: "string \<Rightarrow> zip_File \<Rightarrow> zip_needs \<Rightarrow> zip_error + zip_File \<times> zip_needs" where
  "zip_extra extra f needs =
     (if length extra < 4 then Inr (f, needs)
      else let tag = buf_at 2 0 extra; size = buf_at 2 2 extra; r = drop 4 extra
           in if length r < size then Inr (f, needs)
              else if tag = 1 then
                (case zip64_field (take size r) f needs of
                   Inl e \<Rightarrow> Inl e
                 | Inr (f, needs) \<Rightarrow> zip_extra (drop size r) f needs)
              else zip_extra (drop size r) f needs)"
  by pat_completeness auto
termination by (relation "measure (\<lambda>(e, f, n). length e)") auto

declare zip_extra.simps [simp del]

definition header_file :: "string \<Rightarrow> string \<Rightarrow> zip_File" where
  "header_file b d =
     (let fn = buf_at 2 28 b; name = take fn d
      in \<lparr>zf_Name = name, zf_NonUTF8 = nonUTF8 name (buf_at 2 8 b), zf_CreatorVersion = buf_at 2 4 b, zf_ReaderVersion = buf_at 2 6 b,
          zf_Flags = buf_at 2 8 b, zf_Method = buf_at 2 10 b, zf_CRC32 = buf_at 4 16 b, zf_CompressedSize = buf_at 4 20 b,
          zf_UncompressedSize = buf_at 4 24 b, zf_CompressedSize64 = buf_at 4 20 b, zf_UncompressedSize64 = buf_at 4 24 b,
          zf_Extra = take (buf_at 2 30 b) (drop fn d), zf_headerOffset = int (buf_at 4 42 b), zf_zip64 = False, zf_descErr = None\<rparr>)"

text \<open>A header at a place of the file, with the place behind it.\<close>

definition readDirectoryHeader :: "string \<Rightarrow> nat \<Rightarrow> zip_error + zip_File \<times> nat" where
  "readDirectoryHeader f pos =
     (case ReadFull_at f pos 46 of
        Inl e \<Rightarrow> Inl (ErrRead e)
      | Inr b \<Rightarrow>
          if buf_at 4 0 b \<noteq> 0x02014b50 then Inl ErrFormat
          else let n = buf_at 2 28 b + buf_at 2 30 b + buf_at 2 32 b
               in case ReadFull_at f (pos + 46) n of
                    Inl e \<Rightarrow> Inl (ErrRead e)
                  | Inr d \<Rightarrow>
                      let h = header_file b d
                      in case zip_extra (zf_Extra h) h (zf_UncompressedSize h = uint32max, zf_CompressedSize h = uint32max,
                             zf_headerOffset h = int uint32max) of
                           Inl e \<Rightarrow> Inl e
                         | Inr (h, needU, needC, needH) \<Rightarrow> if needC \<or> needH then Inl ErrFormat else Inr (h, pos + 46 + n))"

section \<open>The data of a file\<close>

definition findBodyOffset :: "string \<Rightarrow> zip_File \<Rightarrow> zip_error + nat" where
  "findBodyOffset f h =
     (case ReadAt_file f (zf_headerOffset h) 30 of
        Inl e \<Rightarrow> Inl e
      | Inr b \<Rightarrow> if buf_at 4 0 b \<noteq> 0x04034b50 then Inl ErrFormat else Inr (30 + buf_at 2 26 b + buf_at 2 28 b))"

definition hasDataDescriptor :: "zip_File \<Rightarrow> bool" where
  "hasDataDescriptor h \<longleftrightarrow> bit (zf_Flags h) 3"

definition isZip64 :: "zip_File \<Rightarrow> bool" where
  "isZip64 h \<longleftrightarrow> uint32max \<le> zf_CompressedSize64 h \<or> uint32max \<le> zf_UncompressedSize64 h"

record dataDescriptor =
  dd_crc32 :: nat
  dd_compressedSize :: nat
  dd_uncompressedSize :: nat

text \<open>The descriptor at a place of the file, with or without its signature.\<close>

definition readDataDescriptor :: "string \<Rightarrow> nat \<Rightarrow> bool \<Rightarrow> zip_error + dataDescriptor" where
  "readDataDescriptor f off zip64 =
     (case ReadFull_at f off 4 of
        Inl e \<Rightarrow> Inl (ErrRead e)
      | Inr h \<Rightarrow>
          let n = (if zip64 then 20 else 12); k = (if buf_at 4 0 h = 0x08074b50 then 0 else 4)
          in case ReadFull_at f (off + 4) (n - k) of
               Inl e \<Rightarrow> Inl (ErrRead e)
             | Inr r \<Rightarrow>
                 let b = take k h @ r
                 in Inr \<lparr>dd_crc32 = buf_at 4 0 b,
                      dd_compressedSize = (if zip64 then buf_at 8 4 b else buf_at 4 4 b),
                      dd_uncompressedSize = (if zip64 then buf_at 8 12 b else buf_at 4 8 b)\<rparr>)"

definition File_readDataDescriptor :: "string \<Rightarrow> zip_File \<Rightarrow> zip_File" where
  "File_readDataDescriptor f h =
     (if \<not> hasDataDescriptor h then h
      else case findBodyOffset f h of
             Inl e \<Rightarrow> h\<lparr>zf_descErr := Some e\<rparr>
           | Inr body \<Rightarrow>
               let off = wrap64 (zf_headerOffset h + int body + wrap64 (int (zf_CompressedSize64 h)))
               in case (if off < 0 then Inl ErrNegative else readDataDescriptor f (nat off) (zf_zip64 h \<or> isZip64 h)) of
                    Inl e \<Rightarrow> h\<lparr>zf_descErr := Some e\<rparr>
                  | Inr dd \<Rightarrow> h\<lparr>zf_CRC32 := dd_crc32 dd\<rparr>)"

lemma readDirectoryHeader_pos: "readDirectoryHeader f pos = Inr (h, pos') \<Longrightarrow> pos + 46 \<le> pos' \<and> pos' \<le> length f"
  by (auto simp: readDirectoryHeader_def Let_def ReadFull_at_def split: sum.splits if_splits prod.splits)

text \<open>The walk ends with the error of the first header that is not read.\<close>

function WalkFiles :: "string \<Rightarrow> nat \<Rightarrow> zip_File list \<times> zip_error" where
  "WalkFiles f pos =
     (case readDirectoryHeader f pos of
        Inl e \<Rightarrow> ([], e)
      | Inr (h, pos') \<Rightarrow> (let (hs, e) = WalkFiles f pos' in (File_readDataDescriptor f h # hs, e)))"
  by pat_completeness auto
termination by (relation "measure (\<lambda>(f, pos). length f - pos)") (auto dest: readDirectoryHeader_pos)

declare WalkFiles.simps [simp del]

definition zip_OpenReader :: "string \<Rightarrow> zip_error + nat" where
  "zip_OpenReader f = (case readDirectoryEnd f of Inl e \<Rightarrow> Inl e | Inr d \<Rightarrow> Inr (de_directoryOffset d))"

text \<open>\<open>decompress\<close> gives the decompressor of a method applied to the raw bytes.\<close>

definition zip_Open :: "(nat \<Rightarrow> (string \<Rightarrow> 'r) option) \<Rightarrow> string \<Rightarrow> zip_File \<Rightarrow> zip_error + 'r" where
  "zip_Open decompress f h =
     (case findBodyOffset f h of
        Inl e \<Rightarrow> Inl e
      | Inr body \<Rightarrow>
          (case decompress (zf_Method h) of
             None \<Rightarrow> Inl ErrAlgorithm
           | Some d \<Rightarrow> Inr (d (take (nat (wrap64 (int (zf_CompressedSize64 h)))) (drop (nat (zf_headerOffset h + int body)) f)))))"

section \<open>Checking what was read\<close>

definition crc_bit :: "32 word \<Rightarrow> 32 word" where
  "crc_bit c = (if odd c then drop_bit 1 c XOR 0xEDB88320 else drop_bit 1 c)"

definition crc_byte :: "32 word \<Rightarrow> char \<Rightarrow> 32 word" where
  "crc_byte c b = (crc_bit ^^ 8) (c XOR of_nat (of_char b))"

definition crc32 :: "string \<Rightarrow> nat" where
  "crc32 s = unat (NOT (foldl crc_byte (NOT 0) s))"

record checksumReader =
  cs_bytes :: string
  cs_nread :: nat
  cs_err :: "zip_error option"

definition new_checksumReader :: checksumReader where
  "new_checksumReader = \<lparr>cs_bytes = [], cs_nread = 0, cs_err = None\<rparr>"

abbreviation eof :: zip_error where "eof \<equiv> ErrRead ReadEOF"

definition end_error :: "zip_File \<Rightarrow> string \<Rightarrow> zip_error" where
  "end_error h bytes =
     (if hasDataDescriptor h then
        (case zf_descErr h of
           Some e \<Rightarrow> if e = eof then ErrRead ReadUnexpectedEOF else e
         | None \<Rightarrow> if crc32 bytes \<noteq> zf_CRC32 h then ErrChecksum else eof)
      else if zf_CRC32 h \<noteq> 0 \<and> crc32 bytes \<noteq> zf_CRC32 h then ErrChecksum else eof)"

text \<open>One call of \<open>Read\<close>, given what the decompressor returns: the bytes and the error, if any.\<close>

definition checksum_Read ::
  "zip_File \<Rightarrow> checksumReader \<Rightarrow> string \<times> zip_error option \<Rightarrow> (string \<times> zip_error option) \<times> checksumReader" where
  "checksum_Read h st inner =
     (case cs_err st of
        Some e \<Rightarrow> (([], Some e), st)
      | None \<Rightarrow>
          (case inner of (b, err) \<Rightarrow>
             let st = st\<lparr>cs_bytes := cs_bytes st @ b, cs_nread := (cs_nread st + length b) mod 2 ^ 64\<rparr>
             in case err of
                  None \<Rightarrow> ((b, None), st)
                | Some e \<Rightarrow>
                    if e = eof \<and> cs_nread st \<noteq> zf_UncompressedSize64 h then (([], Some (ErrRead ReadUnexpectedEOF)), st)
                    else let e = (if e = eof then end_error h (cs_bytes st) else e)
                         in ((b, Some e), st\<lparr>cs_err := Some e\<rparr>)))"

text \<open>Reading until the first error, \<open>io.EOF\<close> included.\<close>

fun read_all :: "zip_File \<Rightarrow> checksumReader \<Rightarrow> (string \<times> zip_error option) list \<Rightarrow> string \<times> zip_error option" where
  "read_all h st [] = ([], None)"
| "read_all h st (c # cs) =
     (case checksum_Read h st c of
        ((b, Some e), st) \<Rightarrow> (b, Some e)
      | ((b, None), st) \<Rightarrow> (let (bs, e) = read_all h st cs in (b @ bs, e)))"

lemma end_error_eof:
  "end_error h bytes = eof \<Longrightarrow>
     (zf_CRC32 h = crc32 bytes \<and> (hasDataDescriptor h \<longrightarrow> zf_descErr h = None)) \<or> (\<not> hasDataDescriptor h \<and> zf_CRC32 h = 0)"
  by (auto simp: end_error_def split: if_splits option.splits)

lemma read_all_eof:
  assumes "read_all h st cs = (bs, Some eof)" "cs_err st = None" "cs_nread st = length (cs_bytes st) mod 2 ^ 64"
  shows "length (cs_bytes st @ bs) mod 2 ^ 64 = zf_UncompressedSize64 h \<and> end_error h (cs_bytes st @ bs) = eof"
  using assms
proof (induction cs arbitrary: st bs)
  case (Cons c cs)
  obtain b err where c: "c = (b, err)" by (cases c)
  let ?st = "st\<lparr>cs_bytes := cs_bytes st @ b, cs_nread := (cs_nread st + length b) mod 2 ^ 64\<rparr>"
  have n: "cs_nread ?st = length (cs_bytes ?st) mod 2 ^ 64" using Cons.prems(3) by (simp add: mod_add_left_eq)
  show ?case
  proof (cases err)
    case None
    obtain bs' e' where r: "read_all h ?st cs = (bs', e')" by fastforce
    have "bs = b @ bs'" "e' = Some eof" using Cons.prems c None r by (auto simp: checksum_Read_def Let_def)
    then show ?thesis using Cons.IH[of ?st bs'] r n Cons.prems(2) by simp
  next
    case (Some e)
    have "e = eof" "bs = b" "cs_nread ?st = zf_UncompressedSize64 h" "end_error h (cs_bytes st @ b) = eof"
      using Cons.prems c Some by (auto simp: checksum_Read_def Let_def split: if_splits)
    then show ?thesis using n by simp
  qed
qed simp

text \<open>
  C30. A file of an archive that is read to its end without an error has the length that the directory states, and the checksum that
  the directory or the data descriptor states.  The one exception is a file without a descriptor whose stated checksum is zero.
\<close>

theorem checksum_reader_sound:
  assumes "read_all h new_checksumReader cs = (bs, Some eof)"
  shows "length bs mod 2 ^ 64 = zf_UncompressedSize64 h \<and>
    ((crc32 bs = zf_CRC32 h \<and> (hasDataDescriptor h \<longrightarrow> zf_descErr h = None)) \<or> (\<not> hasDataDescriptor h \<and> zf_CRC32 h = 0))"
  using read_all_eof[OF assms] end_error_eof[of h bs] by (auto simp: new_checksumReader_def)

definition demo_file :: zip_File where
  "demo_file = \<lparr>zf_Name = ''a.jar'', zf_NonUTF8 = False, zf_CreatorVersion = 20, zf_ReaderVersion = 20, zf_Flags = 0, zf_Method = 0,
     zf_CRC32 = crc32 ''a'', zf_CompressedSize = 1, zf_UncompressedSize = 1, zf_CompressedSize64 = 1, zf_UncompressedSize64 = 1,
     zf_Extra = [], zf_headerOffset = 3, zf_zip64 = False, zf_descErr = None\<rparr>"

theorem checksum_reader_sound_witness:
  "read_all demo_file new_checksumReader [(''a'', None), ([], Some eof)] = (''a'', Some eof) \<and> crc32 ''a'' = zf_CRC32 demo_file"
proof -
  have "read_all demo_file new_checksumReader [(''a'', None), ([], Some eof)] = (''a'', Some eof)"
    by (simp add: checksum_Read_def end_error_def new_checksumReader_def demo_file_def hasDataDescriptor_def Let_def)
  from this checksum_reader_sound[OF this] show ?thesis by (simp add: demo_file_def)
qed

section \<open>The search for the end of the directory\<close>

lemma sig_loop_Some: "sig_loop b k = Some i \<longleftrightarrow> i \<le> k \<and> sig_at b i \<and> (\<forall>j. i < j \<and> j \<le> k \<longrightarrow> \<not> sig_at b j)"
proof (induction k)
  case (Suc k)
  show ?case
  proof (cases "sig_at b (Suc k)")
    case True
    then show ?thesis by (auto simp: le_Suc_eq)
  next
    case False
    then show ?thesis using Suc by (auto simp: le_Suc_eq)
  qed
qed auto

lemma sig_at_bound: "sig_at b i \<Longrightarrow> i \<le> length b - 22 \<and> 22 \<le> length b"
  by (auto simp: sig_at_def)

text \<open>
  The search for the end of the directory in a block of bytes finds the last place at which the record can stand: the signature is
  there, the record with its comment lies inside the block, and no later place is like that.  It finds one exactly if there is one.
\<close>

theorem findSignatureInBlock_last:
  "findSignatureInBlock b = Some i \<longleftrightarrow> sig_at b i \<and> (\<forall>j. sig_at b j \<longrightarrow> j \<le> i)"
proof -
  have "sig_at b j \<Longrightarrow> j \<le> length b - 22" for j using sig_at_bound by blast
  then show ?thesis
    using sig_at_bound[of b] by (auto simp: findSignatureInBlock_def sig_loop_Some not_less dest: leI) (meson not_le)+
qed

theorem findSignatureInBlock_last_witness:
  "findSignatureInBlock (end_sig @ replicate 18 NUL) = Some 0 \<and> sig_at (end_sig @ replicate 18 NUL) 0"
proof -
  have "findSignatureInBlock (end_sig @ replicate 18 NUL) = Some 0"
    by (simp add: findSignatureInBlock_def sig_at_def end_sig_def buf_at_def numeral_eq_Suc)
  then show ?thesis using findSignatureInBlock_last[of "end_sig @ replicate 18 NUL" 0] by blast
qed

section \<open>Reading an archive back\<close>

text \<open>How an archive is written: sizes and offsets that do not fit 32 bits go to a block of 64-bit values in the extra field.\<close>

definition big :: "nat \<Rightarrow> string" where
  "big n = (if uint32max \<le> n then le_bytes 8 n else [])"

definition zip64_block :: "zip_File \<Rightarrow> string" where
  "zip64_block h =
     (let b = big (zf_UncompressedSize64 h) @ big (zf_CompressedSize64 h) @ big (nat (zf_headerOffset h))
      in if b = [] then [] else le_bytes 2 1 @ le_bytes 2 (length b) @ b)"

definition enc_fixed :: "string \<Rightarrow> string \<Rightarrow> nat \<Rightarrow> zip_File \<Rightarrow> string" where
  "enc_fixed time attrs cl h =
     le_bytes 4 0x02014b50 @ le_bytes 2 (zf_CreatorVersion h) @ le_bytes 2 (zf_ReaderVersion h) @ le_bytes 2 (zf_Flags h) @
     le_bytes 2 (zf_Method h) @ time @ le_bytes 4 (zf_CRC32 h) @ le_bytes 4 (zf_CompressedSize h) @ le_bytes 4 (zf_UncompressedSize h) @
     le_bytes 2 (length (zf_Name h)) @ le_bytes 2 (length (zf_Extra h)) @ le_bytes 2 cl @ attrs @
     le_bytes 4 (min uint32max (nat (zf_headerOffset h)))"

definition enc_file :: "string \<Rightarrow> string \<Rightarrow> string \<Rightarrow> zip_File \<Rightarrow> string" where
  "enc_file time attrs comment h = enc_fixed time attrs (length comment) h @ zf_Name h @ zf_Extra h @ comment"

definition wf_file :: "zip_File \<Rightarrow> bool" where
  "wf_file h \<longleftrightarrow> zf_CreatorVersion h < 65536 \<and> zf_ReaderVersion h < 65536 \<and> zf_Flags h < 65536 \<and> zf_Method h < 65536 \<and>
     zf_CRC32 h < 2 ^ 32 \<and> zf_CompressedSize64 h < 2 ^ 64 \<and> zf_UncompressedSize64 h < 2 ^ 64 \<and>
     0 \<le> zf_headerOffset h \<and> zf_headerOffset h < 2 ^ 63 \<and> length (zf_Name h) < 65536 \<and>
     zf_CompressedSize h = min uint32max (zf_CompressedSize64 h) \<and> zf_UncompressedSize h = min uint32max (zf_UncompressedSize64 h) \<and>
     zf_Extra h = zip64_block h \<and> zf_zip64 h = (zip64_block h \<noteq> []) \<and>
     zf_NonUTF8 h = nonUTF8 (zf_Name h) (zf_Flags h) \<and> zf_descErr h = None \<and> \<not> hasDataDescriptor h"

lemma take_all_append: "length a = n \<Longrightarrow> take n (a @ b) = a"
  by simp

lemma drop_more: "length a \<le> n \<Longrightarrow> drop n (a @ b) = drop (n - length a) b"
  by simp

lemma buf_at_here: "x < 256 ^ n \<Longrightarrow> buf_at n 0 (le_bytes n x @ b) = x"
  by (simp add: buf_at_def le_val_bytes)

lemma buf_at_skip: "length a \<le> i \<Longrightarrow> buf_at n i (a @ b) = buf_at n (i - length a) b"
  by (simp add: buf_at_def)

lemma buf_at_last: "x < 256 ^ n \<Longrightarrow> buf_at n 0 (le_bytes n x) = x"
  by (simp add: buf_at_def le_val_bytes)

lemma length_big: "length (big n) \<le> 8"
  by (simp add: big_def)

lemma length_zip64_block: "length (zip64_block h) < 65536"
  using length_big[of "zf_UncompressedSize64 h"] length_big[of "zf_CompressedSize64 h"] length_big[of "nat (zf_headerOffset h)"]
  by (simp add: zip64_block_def Let_def)

lemma length_enc_fixed: "length time = 4 \<Longrightarrow> length attrs = 8 \<Longrightarrow> length (enc_fixed time attrs cl h) = 46"
  by (simp add: enc_fixed_def)

lemma enc_fixed_fields:
  assumes "wf_file h" "length time = 4" "length attrs = 8" "cl < 65536"
  defines "b \<equiv> enc_fixed time attrs cl h"
  shows "buf_at 4 0 b = 0x02014b50" "buf_at 2 4 b = zf_CreatorVersion h" "buf_at 2 6 b = zf_ReaderVersion h" "buf_at 2 8 b = zf_Flags h"
    "buf_at 2 10 b = zf_Method h" "buf_at 4 16 b = zf_CRC32 h" "buf_at 4 20 b = zf_CompressedSize h" "buf_at 4 24 b = zf_UncompressedSize h"
    "buf_at 2 28 b = length (zf_Name h)" "buf_at 2 30 b = length (zf_Extra h)" "buf_at 2 32 b = cl"
    "buf_at 4 42 b = min uint32max (nat (zf_headerOffset h))"
  using assms(1-4) length_zip64_block[of h] unfolding b_def enc_fixed_def wf_file_def
  by (simp_all add: buf_at_here buf_at_skip buf_at_last)

text \<open>What the header itself says; the 64-bit values come from the extra field.\<close>

definition plain :: "zip_File \<Rightarrow> zip_File" where
  "plain h = h\<lparr>zf_CompressedSize64 := zf_CompressedSize h, zf_UncompressedSize64 := zf_UncompressedSize h,
     zf_headerOffset := int (min uint32max (nat (zf_headerOffset h))), zf_zip64 := False\<rparr>"

lemma zip64_field_block:
  assumes w: "wf_file h"
  shows "zip64_field (big (zf_UncompressedSize64 h) @ big (zf_CompressedSize64 h) @ big (nat (zf_headerOffset h))) (plain h)
      (uint32max \<le> zf_UncompressedSize64 h, uint32max \<le> zf_CompressedSize64 h, uint32max \<le> nat (zf_headerOffset h)) =
    Inr (h\<lparr>zf_zip64 := True\<rparr>, False, False, False)"
proof -
  have wr: "wrap64 (int (nat (zf_headerOffset h))) = zf_headerOffset h" using w by (simp add: wf_file_def wrap64_id)
  have b: "buf_at 8 0 (le_bytes 8 n @ x) = n" "buf_at 8 0 (le_bytes 8 n) = n" if "n < 2 ^ 64" for n x
    using that buf_at_here[of n 8 x] buf_at_last[of n 8] by simp_all
  have n: "zf_UncompressedSize64 h < 2 ^ 64" "zf_CompressedSize64 h < 2 ^ 64" "nat (zf_headerOffset h) < 2 ^ 64"
    using w by (simp_all add: wf_file_def nat_less_iff)
  show ?thesis using w wr
    by (cases "uint32max \<le> zf_UncompressedSize64 h"; cases "uint32max \<le> zf_CompressedSize64 h"; cases "uint32max \<le> nat (zf_headerOffset h)")
      (simp_all add: zip64_field_def big_def b[OF n(1)] b[OF n(2)] b[OF n(3)] plain_def wf_file_def Let_def)
qed

lemma zip_extra_block:
  assumes w: "wf_file h"
  shows "zip_extra (zip64_block h) (plain h)
      (uint32max \<le> zf_UncompressedSize64 h, uint32max \<le> zf_CompressedSize64 h, uint32max \<le> nat (zf_headerOffset h)) = Inr (h, False, False, False)"
proof -
  let ?b = "big (zf_UncompressedSize64 h) @ big (zf_CompressedSize64 h) @ big (nat (zf_headerOffset h))"
  have l: "length ?b < 65536"
    using length_big[of "zf_UncompressedSize64 h"] length_big[of "zf_CompressedSize64 h"] length_big[of "nat (zf_headerOffset h)"] by simp
  show ?thesis
  proof (cases "?b = []")
    case True
    then have s: "\<not> uint32max \<le> zf_UncompressedSize64 h" "\<not> uint32max \<le> zf_CompressedSize64 h" "\<not> uint32max \<le> nat (zf_headerOffset h)"
      by (auto simp: big_def split: if_splits dest: arg_cong[of _ _ length])
    have "zip64_block h = []" using True by (simp add: zip64_block_def Let_def)
    moreover from this have "plain h = h" using w s by (simp add: plain_def wf_file_def)
    ultimately show ?thesis using s by (subst zip_extra.simps) simp
  next
    case False
    have z: "zip64_block h = le_bytes 2 1 @ le_bytes 2 (length ?b) @ ?b" unfolding zip64_block_def Let_def using False by (simp only: if_False)
    have t: "buf_at 2 0 (zip64_block h) = 1" "buf_at 2 2 (zip64_block h) = length ?b" "drop 4 (zip64_block h) = ?b"
      using l unfolding z by (simp_all add: buf_at_here buf_at_skip del: length_append)
    have t4: "4 \<le> length (zip64_block h)" unfolding z by simp
    have "zip64_block h \<noteq> []" using t4 by auto
    then have "zf_zip64 h" using w by (simp add: wf_file_def)
    then have h: "h\<lparr>zf_zip64 := True\<rparr> = h" by (cases h) simp
    show ?thesis unfolding zip_extra.simps[of "zip64_block h"] Let_def t
      using t4 zip64_field_block[OF w] h by (simp add: zip_extra.simps[of "[]"])
  qed
qed

lemma readDirectoryHeader_enc:
  assumes w: "wf_file h" and l: "length time = 4" "length attrs = 8" "length comment < 65536"
  shows "readDirectoryHeader (a @ enc_file time attrs comment h @ b) (length a) = Inr (h, length a + length (enc_file time attrs comment h))"
proof -
  let ?x = "enc_fixed time attrs (length comment) h" and ?d = "zf_Name h @ zf_Extra h @ comment"
  note e = enc_fixed_fields[OF w l]
  have r1: "ReadFull_at (a @ enc_file time attrs comment h @ b) (length a) 46 = Inr ?x"
    using ReadFull_at_append[of a "length a" ?x 46 "?d @ b"] l by (simp add: enc_file_def length_enc_fixed)
  have r2: "ReadFull_at (a @ enc_file time attrs comment h @ b) (length a + 46) (length ?d) = Inr ?d"
    using ReadFull_at_append[of "a @ ?x" "length a + 46" ?d "length ?d" b] l by (simp add: enc_file_def length_enc_fixed)
  have h: "header_file ?x ?d = plain h"
    using w by (simp add: header_file_def e Let_def plain_def wf_file_def)
  have z: "zip_extra (zf_Extra (plain h)) (plain h) (zf_UncompressedSize (plain h) = uint32max, zf_CompressedSize (plain h) = uint32max,
      zf_headerOffset (plain h) = int uint32max) = Inr (h, False, False, False)"
  proof -
    have q: "(min uint32max n = uint32max) = (uint32max \<le> n)" for n :: nat by linarith
    show ?thesis using zip_extra_block[OF w] w by (simp add: plain_def wf_file_def q del: min.absorb_iff1 min.absorb_iff2)
  qed
  show ?thesis unfolding readDirectoryHeader_def r1 using r2 z l
    by (simp add: e h Let_def enc_file_def length_enc_fixed add.assoc)
qed

lemma no_descriptor: "wf_file h \<Longrightarrow> File_readDataDescriptor f h = h"
  by (simp add: File_readDataDescriptor_def wf_file_def)

text \<open>The entries of a directory, each with the time, the attributes and the comment of its header.\<close>

definition wf_entry :: "string \<times> string \<times> string \<times> zip_File \<Rightarrow> bool" where
  "wf_entry = (\<lambda>(time, attrs, comment, h). length time = 4 \<and> length attrs = 8 \<and> length comment < 65536 \<and> wf_file h)"

definition enc_dir :: "(string \<times> string \<times> string \<times> zip_File) list \<Rightarrow> string" where
  "enc_dir es = concat (map (\<lambda>(time, attrs, comment, h). enc_file time attrs comment h) es)"

lemma WalkFiles_enc:
  assumes "list_all wf_entry es" "readDirectoryHeader (a @ enc_dir es @ b) (length a + length (enc_dir es)) = Inl e"
  shows "WalkFiles (a @ enc_dir es @ b) (length a) = (map (snd \<circ> snd \<circ> snd) es, e)"
  using assms
proof (induction es arbitrary: a)
  case Nil
  then show ?case by (subst WalkFiles.simps) (simp add: enc_dir_def)
next
  case (Cons x es)
  obtain t at c h where x: "x = (t, at, c, h)" by (cases x) auto
  have w: "wf_file h" "length t = 4" "length at = 8" "length c < 65536" using Cons.prems(1) x by (simp_all add: wf_entry_def)
  let ?e = "enc_file t at c h"
  have eq: "enc_dir (x # es) = ?e @ enc_dir es" by (simp add: x enc_dir_def)
  have r: "readDirectoryHeader (a @ enc_dir (x # es) @ b) (length a) = Inr (h, length (a @ ?e))"
    using readDirectoryHeader_enc[OF w, of a "enc_dir es @ b"] by (simp add: eq)
  have "WalkFiles ((a @ ?e) @ enc_dir es @ b) (length (a @ ?e)) = (map (snd \<circ> snd \<circ> snd) es, e)"
    by (rule Cons.IH) (use Cons.prems in \<open>simp_all add: eq add.assoc\<close>)
  then show ?case by (subst WalkFiles.simps) (simp add: r, simp add: eq[unfolded x] x no_descriptor[OF w(1)])
qed

text \<open>The record at the end of an archive without a comment.\<close>

definition enc_end :: "nat \<Rightarrow> nat \<Rightarrow> nat \<Rightarrow> string" where
  "enc_end n sz off = end_sig @ le_bytes 2 0 @ le_bytes 2 0 @ le_bytes 2 n @ le_bytes 2 n @ le_bytes 4 sz @ le_bytes 4 off @ le_bytes 2 0"

lemma length_end_sig: "length end_sig = 4"
  by (simp add: end_sig_def)

lemma length_enc_end: "length (enc_end n sz off) = 22"
  by (simp add: enc_end_def end_sig_def)

lemma sig_at_enc_end: "sig_at (p @ enc_end n sz off) (length p)"
proof -
  have "buf_at 2 20 (enc_end n sz off) = 0" unfolding enc_end_def by (simp add: buf_at_skip buf_at_last length_end_sig)
  then have "buf_at 2 (length p + 20) (p @ enc_end n sz off) = 0" by (simp add: buf_at_skip)
  then show ?thesis by (simp add: sig_at_def length_enc_end) (simp add: enc_end_def end_sig_def)
qed

lemma find_end_enc: "find_end (p @ enc_end n sz off) = Inr (length p)"
proof -
  let ?f = "p @ enc_end n sz off" and ?b1 = "min 1024 (length p + 22)"
  have d: "drop (length ?f - ?b1) ?f = drop (length p + 22 - ?b1) p @ enc_end n sz off"
    by (simp add: length_enc_end)
  have "findSignatureInBlock (q @ enc_end n sz off) = Some (length q)" for q
    using sig_at_enc_end[of q] by (cases q rule: rev_cases)
      (auto simp: findSignatureInBlock_def sig_loop_Some length_enc_end)
  then show ?thesis unfolding find_end_def Let_def using d by (simp add: length_enc_end)
qed

lemma end_record_enc:
  assumes "n < 65535" "sz < 65535" "off < 4294967295"
  shows "\<exists>d. end_record (enc_end n sz off) = Inr d \<and> de_directoryOffset d = off \<and> \<not> maybe_zip64 d"
proof -
  have "buf_at 2 20 (enc_end n sz off) = 0" "buf_at 2 10 (enc_end n sz off) = n" "buf_at 4 12 (enc_end n sz off) = sz"
    "buf_at 4 16 (enc_end n sz off) = off"
    using assms unfolding enc_end_def by (simp_all add: buf_at_skip buf_at_last buf_at_here length_end_sig)
  then show ?thesis using assms by (simp add: end_record_def Let_def maybe_zip64_def)
qed

lemma archive_walk:
  assumes es: "list_all wf_entry es" "length es < 65535" "length (enc_dir es) < 65535" and d: "length body < 4294967295"
  defines "f \<equiv> body @ enc_dir es @ enc_end (length es) (length (enc_dir es)) (length body)"
  shows "zip_OpenReader f = Inr (length body) \<and> WalkFiles f (length body) = (map (snd \<circ> snd \<circ> snd) es, ErrRead ReadUnexpectedEOF)"
proof -
  let ?fin = "enc_end (length es) (length (enc_dir es)) (length body)"
  obtain r where r: "end_record ?fin = Inr r" "de_directoryOffset r = length body" "\<not> maybe_zip64 r"
    using end_record_enc[OF es(2,3) d] by blast
  have "find_end f = Inr (length body + length (enc_dir es))"
    using find_end_enc[of "body @ enc_dir es"] by (simp add: f_def)
  then have "readDirectoryEnd f = Inr r"
    using r d by (simp add: readDirectoryEnd_def f_def wrap64_id length_enc_end)
  then have o: "zip_OpenReader f = Inr (length body)" using r by (simp add: zip_OpenReader_def)
  have "readDirectoryHeader f (length body + length (enc_dir es)) = Inl (ErrRead ReadUnexpectedEOF)"
    by (simp add: readDirectoryHeader_def ReadFull_at_def f_def length_enc_end)
  then show ?thesis using o WalkFiles_enc[OF es(1)] unfolding f_def by blast
qed

text \<open>
  C27. An archive without comment, whose files have no data descriptors and whose directory has less than 65535 entries and bytes, is read back: behind any data, the headers of the directory and the record at its end, with sizes and offsets
  in 32 or in 64 bits as they need, the reader finds the directory and delivers exactly its files in order.  The walk ends with the
  error of an incomplete header, which \<open>WalkFiles\<close> takes for the end.
\<close>

theorem archive_roundtrip:
  assumes es: "list_all wf_entry es" "length es < 65535" "length (enc_dir es) < 65535" and d: "length body < 4294967295"
  defines "f \<equiv> body @ enc_dir es @ enc_end (length es) (length (enc_dir es)) (length body)"
  shows "zip_OpenReader f = Inr (length body) \<and> WalkFiles f (length body) = (map (snd \<circ> snd \<circ> snd) es, ErrRead ReadUnexpectedEOF)"
  using archive_walk[OF es d] by (simp add: f_def)

lemma wf_demo_file: "wf_file demo_file"
proof -
  have "crc32 ''a'' < 2 ^ 32" unfolding crc32_def using unsigned_less[of "NOT (foldl crc_byte (NOT 0) ''a'')"] by simp
  moreover have "\<not> nonUTF8 ''a.jar'' 0" by (simp add: nonUTF8_def detectUTF8_def detect_loop.simps)
  ultimately show ?thesis by (simp add: wf_file_def demo_file_def zip64_block_def big_def hasDataDescriptor_def)
qed

theorem archive_roundtrip_witness:
  "WalkFiles (''abc'' @ enc_dir [(replicate 4 NUL, replicate 8 NUL, [], demo_file)] @ enc_end 1 51 3) 3 = ([demo_file], ErrRead ReadUnexpectedEOF)"
proof -
  let ?es = "[(replicate 4 NUL, replicate 8 NUL, [], demo_file)]"
  have w: "list_all wf_entry ?es" by (simp add: wf_entry_def wf_demo_file)
  have l: "length (enc_dir ?es) = 51" by (simp add: enc_dir_def enc_file_def length_enc_fixed) (simp add: demo_file_def)
  show ?thesis using archive_roundtrip[OF w, of "''abc''"] l by (simp add: numeral_3_eq_3)
qed

text \<open>
  The reader of an archive delivers at most one file for every 46 bytes behind the start of the directory, however the bytes are chosen.
\<close>

theorem WalkFiles_bounded: "46 * length (fst (WalkFiles f pos)) \<le> length f - pos"
proof (induction f pos rule: WalkFiles.induct)
  case (1 f pos)
  show ?case
  proof (cases "readDirectoryHeader f pos")
    case (Inl e)
    then show ?thesis by (subst WalkFiles.simps) simp
  next
    case (Inr p)
    obtain h q where p: "p = (h, q)" by (cases p)
    have "pos + 46 \<le> q" "q \<le> length f" using readDirectoryHeader_pos Inr p by blast+
    moreover have "46 * length (fst (WalkFiles f q)) \<le> length f - q" using 1[OF Inr] p by blast
    ultimately show ?thesis using Inr p by (subst WalkFiles.simps) (simp add: case_prod_beta)
  qed
qed

end
