(* ===== verification/CollectorSoftware.thy ===== *)
theory CollectorSoftware
  imports CollectorHost CollectorZip
begin

text \<open>
  The handlers that send what the parsers of \<open>CollectorHost\<close> collect (\<open>cron.go\<close>, \<open>service.go\<close>, \<open>user.go\<close>), and the rest of the software handler
  (\<open>software.go\<close>): Python packages below \<open>/usr\<close>, the archives that Java processes hold open and the archives inside of them, read by
  \<open>CollectorZip\<close>.  A walk over a directory is the list of what it visits.  The lemmas show which archives are reported.
\<close>

section \<open>Records of collected structures\<close>

text \<open>The structure is decoded into an empty map, then the sequence of the run is added.\<close>

definition decoded_record :: "map_decoder \<Rightarrow> int \<Rightarrow> int \<Rightarrow> string \<Rightarrow> (string \<times> string) list \<Rightarrow> col_record" where
  "decoded_record decode dt now seq tags =
     \<lparr>cr_DataType = dt, cr_Timestamp = now, cr_Fields = mput (decode tags []) ''package_seq'' seq\<rparr>"

definition cron_tags :: "Crontab \<Rightarrow> (string \<times> string) list" where
  "cron_tags c = [(''path'', cn_Path c), (''username'', cn_Username c), (''schedule'', cn_Schedule c), (''command'', cn_Command c), (''checksum'', cn_Checksum c)]"

text \<open>A visited entry: its path, whether it is a directory (None where that is not known), and the content if it can be opened.\<close>

type_synonym cron_entry = "string \<times> bool option \<times> string option"

definition cron_dir :: "map_decoder \<Rightarrow> (string \<Rightarrow> string) \<Rightarrow> bool \<Rightarrow> int \<Rightarrow> string \<Rightarrow> cron_entry list \<Rightarrow> col_record list" where
  "cron_dir decode md5 wu now seq es =
     concat (map (\<lambda>(path, dir, content).
       case (dir, content) of
         (Some False, Some c) \<Rightarrow> map (decoded_record decode 5053 now seq \<circ> cron_tags) (parseCrontab wu path (md5 path) c)
       | _ \<Rightarrow> []) es)"

definition CronHandler_Handle ::
  "map_decoder \<Rightarrow> (string \<Rightarrow> string) \<Rightarrow> int \<Rightarrow> string \<Rightarrow> cron_entry list \<Rightarrow> cron_entry list \<Rightarrow> col_record list" where
  "CronHandler_Handle decode md5 now seq spool system = cron_dir decode md5 False now seq spool @ cron_dir decode md5 True now seq system"

definition service_tags :: "Service \<Rightarrow> (string \<times> string) list" where
  "service_tags s = [(''name'', sv_Name s), (''type'', sv_Type s), (''command'', sv_Command s), (''restart'', sv_Restart s),
     (''working_dir'', sv_WorkingDir s), (''checksum'', sv_Checksum s), (''bus_name'', sv_BusName s)]"

text \<open>\<open>files\<close> is what the walks over the ten directories visit, one after the other.\<close>

definition ServiceHandler_Handle ::
  "map_decoder \<Rightarrow> (string \<Rightarrow> string option) \<Rightarrow> (string \<Rightarrow> string) \<Rightarrow> int \<Rightarrow> string \<Rightarrow> (string \<times> bool \<times> string) list \<Rightarrow> col_record list" where
  "ServiceHandler_Handle decode readf md5 now seq files =
     map (decoded_record decode 5054 now seq \<circ> service_tags) (service_walk readf md5 [] files)"

definition user_tags :: "string \<Rightarrow> col_User \<Rightarrow> (string \<times> string) list" where
  "user_tags stamp u = [(''seq'', stamp), (''username'', us_Username u), (''password'', us_Password u), (''uid'', us_Uid u), (''gid'', us_Gid u),
     (''groupname'', us_Groupname u), (''info'', us_Info u), (''home'', us_Home u), (''shell'', us_Shell u),
     (''last_login_time'', us_LastLoginTime u), (''last_login_ip'', us_LastLoginIP u), (''weak_password'', us_WeakPassword u),
     (''weak_password_content'', us_WeakPasswordContent u), (''sudoers'', us_Sudoers u), (''shadow_password'', us_ShadowPassword u),
     (''shadow_last_change'', us_ShadowLastChange u), (''shadow_min'', us_ShadowMin u), (''shadow_max'', us_ShadowMax u),
     (''shadow_warn'', us_ShadowWarn u), (''shadow_inactive'', us_ShadowInactive u), (''shadow_expire'', us_ShadowExpire u),
     (''shadow_flag'', us_ShadowFlag u)]"

definition UserHandler_Handle ::
  "map_decoder \<Rightarrow> (string \<Rightarrow> string) \<Rightarrow> (string \<Rightarrow> string \<times> string) \<Rightarrow> (string \<Rightarrow> string option) \<Rightarrow> int \<Rightarrow> string \<Rightarrow> string \<Rightarrow>
   string \<Rightarrow> string option \<Rightarrow> string option \<Rightarrow> col_record list" where
  "UserHandler_Handle decode grp weak sudo now stamp seq passwd wtmp shadow =
     map (decoded_record decode 5052 now seq \<circ> user_tags stamp) (collect_users grp weak sudo passwd wtmp shadow)"

section \<open>Python packages\<close>

definition software_tags :: "Software \<Rightarrow> (string \<times> string) list" where
  "software_tags s = [(''seq'', sw_Seq s), (''name'', sw_Name s), (''sversion'', sw_Version s), (''type'', sw_Type s), (''source'', sw_Source s),
     (''status'', sw_Status s), (''vendor'', sw_Vendor s), (''component_version'', sw_ComponentVersion s), (''pid'', sw_Pid s),
     (''pod_name'', sw_PodName s), (''psm'', sw_Psm s), (''package_seq'', sw_PackageSeq s)]"

definition pth_dirs :: "string \<Rightarrow> string list" where
  "pth_dirs content =
     filter (\<lambda>d. HasPrefix d ''/'' \<and> HasPrefix d ''/usr'' \<and> (Contains d ''site-packages'' \<or> Contains d ''dist-packages''))
       (ScanLines (take (1024 * 1024) content))"

definition pypi_entry :: "map_decoder \<Rightarrow> int \<Rightarrow> string \<Rightarrow> string \<Rightarrow> string \<Rightarrow> col_record list" where
  "pypi_entry decode now stamp seq name =
     (if HasSuffix name ''.egg-info'' \<or> HasSuffix name ''.dist-info''
      then (case parsePypiName name stamp of None \<Rightarrow> [] | Some s \<Rightarrow> [decoded_record decode 5055 now seq (software_tags s)])
      else [])"

text \<open>
  First the walk over \<open>/usr\<close>, whose entries are given by name and content, then those over the directories that path files name, in the order in
  which they were found.
\<close>

definition pypi_records ::
  "map_decoder \<Rightarrow> int \<Rightarrow> string \<Rightarrow> string \<Rightarrow> (string \<times> string option) list \<Rightarrow> (string \<Rightarrow> string list) \<Rightarrow> col_record list" where
  "pypi_records decode now stamp seq usr walk =
     (let dirs = concat (map (\<lambda>(name, content). case content of
            Some c \<Rightarrow> if HasSuffix name ''.pth'' then pth_dirs c else [] | None \<Rightarrow> []) usr)
      in concat (map (pypi_entry decode now stamp seq \<circ> fst) usr) @
         concat (map (\<lambda>d. concat (map (pypi_entry decode now stamp seq) (walk d))) (remdups dirs)))"

section \<open>Archives of Java processes\<close>

definition put_jar :: "(string, string) gomap \<Rightarrow> string \<times> string \<Rightarrow> string \<Rightarrow> (string, string) gomap" where
  "put_jar tags nv path = mput (mput (mput tags ''name'' (fst nv)) ''sversion'' (snd nv)) ''path'' path"

abbreviation cut_jar :: "string \<Rightarrow> string" where
  "cut_jar s \<equiv> path_Base (take (length s - 4) s)"

text \<open>The first line of a manifest that gives a version.\<close>

definition manifest_version :: "string \<Rightarrow> string option" where
  "manifest_version content =
     map_option (\<lambda>l. TrimSpace (drop (length ''Implementation-Version:'') l))
       (List.find (\<lambda>l. HasPrefix l ''Implementation-Version:'') (ScanLines content))"

text \<open>\<open>contents\<close> gives the bytes that can be read of a file of the archive, None where it cannot be opened.\<close>

definition jar_version :: "(zip_File \<Rightarrow> string option) \<Rightarrow> string \<Rightarrow> zip_File \<Rightarrow> string" where
  "jar_version contents version f =
     (if version = [] \<and> zf_Name f = ''META-INF/MANIFEST.MF''
      then (case contents f of None \<Rightarrow> [] | Some c \<Rightarrow> (case manifest_version c of None \<Rightarrow> [] | Some v \<Rightarrow> v))
      else version)"

fun jar_loop ::
  "int \<Rightarrow> string \<Rightarrow> (zip_File \<Rightarrow> string option) \<Rightarrow> zip_File list \<Rightarrow> (string, string) gomap \<times> string \<Rightarrow> col_record list \<times> (string, string) gomap \<times> string" where
  "jar_loop now rname contents [] (tags, version) = ([], tags, version)"
| "jar_loop now rname contents (f # fs) (tags, version) =
     (let isj = HasSuffix (zf_Name f) ''.jar'';
          tags1 = (if isj then put_jar tags (parseJarFilename (cut_jar (zf_Name f))) (path_Join [rname, zf_Name f]) else tags);
          (rs, st) = jar_loop now rname contents fs (tags1, jar_version contents version f)
      in ((if isj then [\<lparr>cr_DataType = 5055, cr_Timestamp = now, cr_Fields = tags1\<rparr>] else []) @ rs, st))"

definition findJar ::
  "int \<Rightarrow> string \<Rightarrow> (zip_File \<Rightarrow> string option) \<Rightarrow> zip_File list \<Rightarrow> (string, string) gomap \<Rightarrow> string \<Rightarrow> col_record list \<times> (string, string) gomap" where
  "findJar now rname contents files tags n =
     (let (name, version) = parseJarFilename (cut_jar n);
          (rs, tags1, version') = jar_loop now rname contents files (tags, version);
          tags2 = put_jar tags1 (name, version') rname
      in (rs @ [\<lparr>cr_DataType = 5055, cr_Timestamp = now, cr_Fields = tags2\<rparr>], tags2))"

text \<open>The decompressors deliver the bytes of a file in chunks, each with an error or none.\<close>

type_synonym decompressors = "nat \<Rightarrow> (string \<Rightarrow> (string \<times> zip_error option) list) option"

definition zip_contents :: "decompressors \<Rightarrow> string \<Rightarrow> zip_File \<Rightarrow> string option" where
  "zip_contents decompress z h =
     (case zip_Open decompress z h of Inl e \<Rightarrow> None | Inr cs \<Rightarrow> Some (fst (read_all h new_checksumReader cs)))"

text \<open>The archives among the files of a process; \<open>opened\<close> gives the bytes of the file at a path.\<close>

definition skip_jar :: "string list \<Rightarrow> string \<Rightarrow> bool" where
  "skip_jar seen fn \<longleftrightarrow> fn \<in> set seen \<or> path_Base fn \<noteq> ''rt.jar'' \<and> (Contains fn ''jdk'' \<or> Contains fn ''jre'')"

fun jar_fds ::
  "decompressors \<Rightarrow> (string \<Rightarrow> string option) \<Rightarrow> int \<Rightarrow> string \<Rightarrow> string list \<Rightarrow> string list \<Rightarrow> (string, string) gomap \<Rightarrow> col_record list" where
  "jar_fds decompress opened now pid seen [] tags = []"
| "jar_fds decompress opened now pid seen (fn # fns) tags =
     (if path_Ext fn \<noteq> ''.jar'' \<or> skip_jar seen fn then jar_fds decompress opened now pid seen fns tags
      else let path = path_Join [''/proc'', pid, ''root'', fn]
           in case opened path of
                None \<Rightarrow> jar_fds decompress opened now pid (fn # seen) fns tags
              | Some z \<Rightarrow>
                  (case zip_OpenReader z of
                     Inl e \<Rightarrow> jar_fds decompress opened now pid (fn # seen) fns tags
                   | Inr pos \<Rightarrow>
                       let (rs, tags1) = findJar now path (zip_contents decompress z) (fst (WalkFiles z pos)) tags fn
                       in rs @ jar_fds decompress opened now pid (fn # seen) fns tags1))"

text \<open>A Java process; \<open>pns\<close> is its process namespace if that can be read.\<close>

definition jar_process ::
  "decompressors \<Rightarrow> (string \<Rightarrow> string option) \<Rightarrow> eng_Cache \<Rightarrow> string \<Rightarrow> int \<Rightarrow> string \<Rightarrow> string \<Rightarrow> port_proc \<Rightarrow> string option \<Rightarrow> col_record list" where
  "jar_process decompress opened cache rpns now stamp seq p pns =
     (if pp_comm p \<noteq> ''java'' then []
      else
        let inside = (case pns of None \<Rightarrow> False | Some n \<Rightarrow> n \<noteq> rpns);
            env = (\<lambda>ks. if inside then (case pp_envs p of None \<Rightarrow> [] | Some envs \<Rightarrow> (case first_env ks envs of None \<Rightarrow> [] | Some v \<Rightarrow> v)) else []);
            (cid, cname) = (case pns of None \<Rightarrow> ([], []) | Some n \<Rightarrow> jar_container cache rpns n);
            tags = [(''seq'', stamp), (''type'', ''jar''), (''psm'', env psm_keys), (''pod_name'', env pod_keys), (''container_id'', cid),
              (''container_name'', cname), (''cmdline'', pp_cmdline p), (''pid'', pp_pid p), (''package_seq'', seq)]
        in case pp_fds p of None \<Rightarrow> [] | Some fns \<Rightarrow> jar_fds decompress opened now (pp_pid p) [] fns tags)"

section \<open>Which archives are reported\<close>


abbreviation is_jar :: "zip_File \<Rightarrow> bool" where
  "is_jar f \<equiv> HasSuffix (zf_Name f) ''.jar''"


definition inner_fields :: "string \<Rightarrow> zip_File \<Rightarrow> string option \<times> string option \<times> string option" where
  "inner_fields rname f = (let (n, v) = parseJarFilename (cut_jar (zf_Name f)) in (Some (path_Join [rname, zf_Name f]), Some n, Some v))"



declare jar_loop.simps(2) [simp del]


text \<open>The version an archive reports: that of its file name, or else the first one a manifest in it states.\<close>

definition stated_version :: "(zip_File \<Rightarrow> string option) \<Rightarrow> zip_File \<Rightarrow> string" where
  "stated_version contents f = (case Option.bind (contents f) manifest_version of None \<Rightarrow> [] | Some v \<Rightarrow> v)"

definition own_version :: "(zip_File \<Rightarrow> string option) \<Rightarrow> string \<Rightarrow> zip_File list \<Rightarrow> string" where
  "own_version contents v files =
     (case filter (\<lambda>x. x \<noteq> []) (v # map (stated_version contents) (filter (\<lambda>f. zf_Name f = ''META-INF/MANIFEST.MF'') files)) of
        [] \<Rightarrow> [] | x # xs \<Rightarrow> x)"



definition archive_fields :: "string \<Rightarrow> (zip_File \<Rightarrow> string option) \<Rightarrow> zip_File list \<Rightarrow> string \<Rightarrow> (string option \<times> string option \<times> string option) list" where
  "archive_fields rname contents files n =
     map (inner_fields rname) (filter is_jar files) @
     [(Some rname, Some (fst (parseJarFilename (cut_jar n))), Some (own_version contents (snd (parseJarFilename (cut_jar n))) files))]"




definition jar_report :: "decompressors \<Rightarrow> (string \<Rightarrow> string option) \<Rightarrow> string \<Rightarrow> string \<Rightarrow> (string option \<times> string option \<times> string option) list" where
  "jar_report decompress opened pid fn =
     (let path = path_Join [''/proc'', pid, ''root'', fn]
      in case opened path of
           None \<Rightarrow> []
         | Some z \<Rightarrow> (case zip_OpenReader z of
             Inl e \<Rightarrow> [] | Inr pos \<Rightarrow> archive_fields path (zip_contents decompress z) (fst (WalkFiles z pos)) fn))"



declare jar_fds.simps(2) [simp del]



text \<open>For an archive written in the format of zip the files are those of its directory.\<close>

lemma jar_report_format:
  assumes path: "path = path_Join [''/proc'', pid, ''root'', fn]"
    and es: "list_all wf_entry es" "length es < 65535" "length (enc_dir es) < 65535" and body: "length body < 4294967295"
    and z: "z = body @ enc_dir es @ enc_end (length es) (length (enc_dir es)) (length body)" "opened path = Some z"
  shows "jar_report decompress opened pid fn = archive_fields path (zip_contents decompress z) (map (snd \<circ> snd \<circ> snd) es) fn"
proof -
  have o: "zip_OpenReader z = Inr (length body)" "fst (WalkFiles z (length body)) = map (snd \<circ> snd \<circ> snd) es"
    using archive_walk[OF es body] z(1) by simp_all
  show ?thesis by (simp only: jar_report_def path[symmetric] z(2) o Let_def option.case sum.case)
qed

text \<open>The archives of a process share one record: the next archive starts with the fields of the record sent last.\<close>

lemma findJar_last: "snd (findJar now rname contents files tags n) = cr_Fields (last (fst (findJar now rname contents files tags n)))"
  by (simp add: findJar_def Let_def split: prod.split)

end
