(* ===== verification/Spec2Isabelle.thy ===== *)
theory Spec2Isabelle
  imports RegistryHandlers Replication RegistryRace AkskAuth PluginProtocol AgentCenterHttp Baseline AgentPlugins
    ManagerAuth AgentTask VulnMatch BaselineStore CollectorSoftware
begin

text \<open>
  A verification of Go parts of cloud-guard, a host security system.  An agent runs on every host and
  starts plugins, which send it records through pipes.  The agent sends the records on a stream to an
  agent center, which passes them to Kafka and to the manager.  The manager sends tasks to the agents through
  the agent centers and stores what the hosts report.  Agents and servers find each other
  through a service registry that replicates itself between its nodes.

  \<^bold>\<open>Correspondence.\<close>  Paths are below \<open>src\<close>.

  \<^item> \<open>Prelude\<close>, \<open>GoStrings\<close>: Go maps as association lists without double keys, integers with their width,
    channels as lists, and the functions of \<open>strings\<close> and \<open>strconv\<close> that the code calls.
  \<^item> \<open>SafeMap\<close>, \<open>Cluster\<close>, \<open>FetchAlgorithm\<close>, \<open>Endpoint\<close>, \<open>RegistryHandlers\<close>: \<open>server/service_discovery\<close>, that is
    the two-level map, the cluster configuration, the choice of instances, the registry with its refresh
    and synchronisation loops, and its HTTP handlers.  \<open>RegistryRace\<close> interleaves the critical sections of the
    handlers and loops of a node, \<open>Replication\<close> relates two nodes.
  \<^item> \<open>Batching\<close>: the contract of the loops that collect values and hand them on in batches.
  \<^item> \<open>Sha256\<close>, \<open>AkskAuth\<close>: the request signatures of the three servers, down to the hash function.
  \<^item> \<open>Varint\<close>, \<open>Bridge\<close>, \<open>BridgeCodec\<close>: the messages of \<open>plugins/lib/go/bridge.pb.go\<close> and their codec.
  \<^item> \<open>AgentBuffer\<close>: \<open>agent/buffer\<close>, the bounded buffer of records and the pools of their arrays.
  \<^item> \<open>PluginProtocol\<close>: the pipes between \<open>agent/plugin\<close> and \<open>plugins/lib/go/client.go\<close>.
  \<^item> \<open>AgentPlugins\<close>: the rest of \<open>agent/plugin\<close> and \<open>agent/transport\<close>, that is the loading and removing of plugins,
    the commands of the server, the sender's tick and the reuse of connections.
  \<^item> \<open>GRPCPool\<close>, \<open>RawData\<close>, \<open>TransferHandler\<close>, \<open>AgentCenterHttp\<close>: \<open>server/agent_center\<close>, that is the pool of
    connections, the handling of a packet, the streams as a step relation, and the HTTP interface.
  \<^item> \<open>ManagerAuth\<close>: the token and role checks of \<open>server/manager/biz/midware\<close> and the groups of routes of \<open>biz/router.go\<close> that use them.
  \<^item> \<open>DistributedJob\<close>: \<open>server/manager/internal/distribute/job\<close> with the registry client, that is jobs spread over the
    instances of the manager through Redis; the workers of an instance are a step relation.
  \<^item> \<open>DbWriter\<close>: the writers of \<open>server/manager/internal/dbtask\<close> that gather database updates and write them in bulk.
  \<^item> \<open>AgentTask\<close>: \<open>server/manager/internal/atask\<close>, that is tasks for many agents, their subtasks and the agents'
    configurations; slices that agents share are places in a store of arrays.
  \<^item> \<open>VulnMatch\<close>, \<open>BaselineStore\<close>: \<open>leader_vuln.go\<close> and \<open>leader_baseline.go\<close> of \<open>dbtask\<close>, the matching of packages with
    vulnerabilities and the storing of baseline reports.
  \<^item> \<open>Baseline\<close>: \<open>plugins/baseline/src/check\<close>, the rule engine of the baseline checks.
  \<^item> \<open>GoHost\<close>: the functions of \<open>path\<close>, \<open>bufio\<close>, \<open>encoding/hex\<close>, \<open>encoding/binary\<close> and \<open>net\<close> that the collector calls.
  \<^item> \<open>CollectorRpm\<close>, \<open>CollectorEngine\<close>, \<open>CollectorPort\<close>, \<open>CollectorProc\<close>, \<open>CollectorHost\<close>, \<open>CollectorZip\<close>, \<open>CollectorSoftware\<close>: \<open>plugins/collector\<close>, that is the
    reader of the RPM database, the engine that runs the handlers (its mutual exclusion is a step relation) with its
    cache and the containers, the listening ports from netlink and \<open>/proc/net\<close>, the processes of \<open>/proc\<close>, and
    the handlers of cron tables, services, kernel modules, users, installed software and file integrity, with the reader of archives.

  A struct is a record, a pointer that several goroutines share is a place in an explicit heap, a
  \<open>nil\<close> or a panic is \<^const>\<open>None\<close> where it can occur, and an error is a value.  A goroutine's loop is
  a function for one round, or a step of a relation where its interleaving matters.

  \<^bold>\<open>Results.\<close>  The maps, the buffer and the replication of the registry refine abstract ones.  Messages
  and frames survive the way from the plugin to the agent and back.  A signed request is accepted
  exactly while it is fresh, and none without a signature; no request reaches a protected path below \<open>/api/v1\<close> and \<open>/api/v6\<close> of
  the manager without an authorised user.  The registry stays well-formed under every interleaving, and a second node follows it under those in
  which no two calls are about the same instance at once.  The agent center keeps its connection limit, hands every accepted task over for posting, though a failed post is not
  repeated, and sends
  to Kafka only under tenants that the manager confirmed, or zero.  The agent runs the plugins it was
  told to when the host can provide them.  Baseline checks pass as their condition says.  The manager hands every agent of a task out once, and the workers of a
  job call \<open>Do\<close> and \<open>Rlt\<close> once for every item in every interleaving; merging configurations in place and comparing versions by
  weighted sums are equivalent to plain references, the latter for components of at most three digits.
  The collector decodes RPM headers, archives, socket answers and cron tables to what was encoded, its handlers take turns and
  every call returns, a changed executable of a package, if it is among the files that are checked, is marked in the records of the processes that run it, and the archives of
  Java processes and the containers of processes are reported as listed.
  Theorems about errors record where the code departs from what it means to do: updates that overtake each other, arrays that
  are shared by mistake, inputs that crash a server.

  \<^bold>\<open>Interfaces.\<close>  The locales \<open>two_level_map\<close>, \<open>batcher\<close>, \<open>signed_requests\<close>, \<open>wire_message\<close> and \<open>record_cache\<close> state what a
  client relies on; each is interpreted on the definitions of the code.  The writers of the manager are the third
  interpretation of \<open>batcher\<close>.

  \<^bold>\<open>Bounds.\<close>  Sizes and indices of messages are below \<open>2 ^ 63\<close>, the range of a Go \<open>int\<close>; theorems that need it
  say so.  The \<open>float64\<close> arithmetic of the manager's tasks is rounding to 53 bits on exact numbers; that of version sums stays in
  the range where it is exact.  No function uses fuel: the loops recurse structurally or have a termination proof, except
  two that are a \<open>partial_function\<close>: the drawing of random numbers, which is shown to return once enough
  different numbers were drawn, and the walk along the overflow pages of an RPM header, which is shown to return
  exactly when the chain of pages ends.

  \<^bold>\<open>Parameters.\<close>  The outcome of gin's binding, of HTTP calls and of JSON and YAML decoding, the clock,
  \<open>ParseFloat\<close>, regular expressions of the configuration, the sessions and tokens of the manager's
  users, the answers of Redis and MongoDB, and the files, commands and processes of a host.
  For the collector also the byte order, the answers of the kernel's socket diagnosis and of the container runtimes, file checksums,
  and \<open>mapstructure.Decode\<close>.  Where a theorem needs what the
  database makes of a command, it is a hypothesis about the parameter.

  \<^bold>\<open>Not modelled.\<close>  Logging, metrics servers and process start-up; dialling and TLS of the agent and
  its readers of the host; of the collector plugin the recognition of applications, the inflating of archives, commands run in containers, volumes, network interfaces, and the caches of checksums and user names; the HTTP handlers and statistics of the manager, most
  of which build database queries, and the expiry of its caches; the reports of the agent center to the manager; the generated
  getters and reflection methods of the messages; the kernel driver, the RASP probes and the web
  console, which are not Go code.  Memory-model effects below the interleaving of whole map and
  channel operations are not modelled either.
\<close>

end
